(* ===== verification/OMX_Prelude.thy ===== *)
theory OMX_Prelude
  imports Main "HOL-Library.Word"
begin

text \<open>
  The shared vocabulary of the development: the machine types the C code uses, the
  \<^emph>\<open>outcome\<close> of a piece of sequential C code, and the generic facts on lists and words
  that the component theories rely on.

  An \<open>outcome\<close> is either \<open>Done r s\<close> (the code returned \<open>r\<close> and left the state \<open>s\<close>),
  \<open>Blocked\<close> (it sleeps on a semaphore or an event nobody has posted yet), \<open>Diverges\<close> (it
  spins in a loop that never ends) or \<open>Crash\<close> (it follows a NULL or dangling pointer, or
  indexes an array out of its bounds, all of which are undefined behaviour in C).
\<close>

type_synonym u8 = "8 word"
type_synonym u16 = "16 word"
type_synonym u32 = "32 word"
type_synonym u64 = "64 word"

text \<open>Addresses. A C pointer is a \<open>ptr option\<close>, with \<open>None\<close> for NULL.\<close>

type_synonym ptr = nat

named_theorems outcome_rules \<open>evaluation rules of the outcome combinators\<close>
named_theorems osal_rules \<open>behaviour of the operating system abstraction\<close>
named_theorems queue_rules \<open>behaviour of the message and buffer queues\<close>
named_theorems port_rules \<open>behaviour of the port operations\<close>

datatype ('r, 's) outcome = Done 'r 's | Blocked | Diverges | Crash

primrec bindO :: "('r, 's) outcome \<Rightarrow> ('r \<Rightarrow> 's \<Rightarrow> ('q, 't) outcome) \<Rightarrow> ('q, 't) outcome" where
  "bindO (Done r s) k = k r s"
| "bindO Blocked k = Blocked"
| "bindO Diverges k = Diverges"
| "bindO Crash k = Crash"

primrec map_state :: "('s \<Rightarrow> 't) \<Rightarrow> ('r, 's) outcome \<Rightarrow> ('r, 't) outcome" where
  "map_state f (Done r s) = Done r (f s)"
| "map_state f Blocked = Blocked"
| "map_state f Diverges = Diverges"
| "map_state f Crash = Crash"

declare bindO.simps [outcome_rules] map_state.simps [outcome_rules]

lemma bindO_eq_Done_iff [outcome_rules]:
  "bindO m k = Done r t \<longleftrightarrow> (\<exists>r' s. m = Done r' s \<and> k r' s = Done r t)"
  by (cases m) auto

lemma bindO_cong [fundef_cong]:
  "m = m' \<Longrightarrow> (\<And>r s. m' = Done r s \<Longrightarrow> k r s = k' r s) \<Longrightarrow> bindO m k = bindO m' k'"
  by (cases m') auto

lemma bindO_assoc: "bindO (bindO m k) l = bindO m (\<lambda>r s. bindO (k r s) l)"
  by (cases m) auto

lemma map_state_eq_Done_iff [outcome_rules]:
  "map_state f m = Done r t \<longleftrightarrow> (\<exists>s. m = Done r s \<and> t = f s)"
  by (cases m) auto

text \<open>The bounds-checked read of a C array: \<open>None\<close> is an access out of its bounds.\<close>

definition array_at :: "'a list \<Rightarrow> int \<Rightarrow> 'a option" where
  "array_at xs i = (if 0 \<le> i \<and> i < int (length xs) then Some (xs ! nat i) else None)"

lemma array_at_nat [simp]: "array_at xs (int n) = (if n < length xs then Some (xs ! n) else None)"
  by (simp add: array_at_def)

lemma array_at_neg [simp]: "i < 0 \<Longrightarrow> array_at xs i = None"
  by (simp add: array_at_def)

lemma array_at_SomeD:
  "array_at xs i = Some x \<Longrightarrow> 0 \<le> i \<and> nat i < length xs \<and> x = xs ! nat i"
  by (auto simp: array_at_def split: if_splits)

subsection \<open>Lists\<close>

lemma length_filter_list_update:
  "i < length xs \<Longrightarrow>
   length (filter P (xs[i := v])) + (if P (xs ! i) then 1 else 0)
   = length (filter P xs) + (if P v then 1 else 0)"
proof (induction xs arbitrary: i)
  case Nil
  then show ?case by simp
next
  case (Cons x xs)
  show ?case
  proof (cases i)
    case 0
    then show ?thesis by simp
  next
    case (Suc j)
    then show ?thesis using Cons.IH [of j] Cons.prems by (simp split: if_splits)
  qed
qed

lemma rotate1_nth:
  assumes "i < length xs"
  shows "rotate1 xs ! i = xs ! (Suc i mod length xs)"
  using assms nth_rotate1 by blast

end
