(* ===== verification/OMX_Types.thy ===== *)
theory OMX_Types
  imports OMX_Prelude
begin

text \<open>
  The OpenMAX IL data types of \<open>include/khronos\<close> that the Samsung components use: the
  enumerations as datatypes with the constructors of the headers, the structures as
  records. Every OMX structure starts with the words \<open>nSize\<close> and \<open>nVersion\<close>; the
  records extend \<open>omx_struct\<close> accordingly, so that \<open>SEC_OMX_Check_SizeVersion\<close>, which
  reads those two words through a pointer to any structure, is one polymorphic function.
  Sizes are those of the 32-bit ARM ABI the code is written for (it stores pointers in
  \<open>OMX_U32\<close> variables).
\<close>

section \<open>Enumerations\<close>

datatype OMX_ERRORTYPE =
    OMX_ErrorNone
  | OMX_ErrorInsufficientResources
  | OMX_ErrorUndefined
  | OMX_ErrorInvalidComponentName
  | OMX_ErrorComponentNotFound
  | OMX_ErrorInvalidComponent
  | OMX_ErrorBadParameter
  | OMX_ErrorNotImplemented
  | OMX_ErrorUnderflow
  | OMX_ErrorOverflow
  | OMX_ErrorHardware
  | OMX_ErrorInvalidState
  | OMX_ErrorStreamCorrupt
  | OMX_ErrorPortsNotCompatible
  | OMX_ErrorResourcesLost
  | OMX_ErrorNoMore
  | OMX_ErrorVersionMismatch
  | OMX_ErrorNotReady
  | OMX_ErrorTimeout
  | OMX_ErrorSameState
  | OMX_ErrorResourcesPreempted
  | OMX_ErrorIncorrectStateTransition
  | OMX_ErrorIncorrectStateOperation
  | OMX_ErrorUnsupportedSetting
  | OMX_ErrorUnsupportedIndex
  | OMX_ErrorBadPortIndex
  | OMX_ErrorPortUnpopulated
  | OMX_ErrorTunnelingUnsupported

text \<open>
  A state word taken from a command parameter may hold any value. The six states of the
  standard are the values 0 to 5; the others are kept as the word they are.
\<close>

datatype OMX_STATETYPE =
    OMX_StateInvalid
  | OMX_StateLoaded
  | OMX_StateIdle
  | OMX_StateExecuting
  | OMX_StatePause
  | OMX_StateWaitForResources
  | OMX_StateOther u32

definition state_of_u32 :: "u32 \<Rightarrow> OMX_STATETYPE" where
  "state_of_u32 w = (if w = 0 then OMX_StateInvalid
    else if w = 1 then OMX_StateLoaded
    else if w = 2 then OMX_StateIdle
    else if w = 3 then OMX_StateExecuting
    else if w = 4 then OMX_StatePause
    else if w = 5 then OMX_StateWaitForResources
    else OMX_StateOther w)"

primrec u32_of_state :: "OMX_STATETYPE \<Rightarrow> u32" where
  "u32_of_state OMX_StateInvalid = 0"
| "u32_of_state OMX_StateLoaded = 1"
| "u32_of_state OMX_StateIdle = 2"
| "u32_of_state OMX_StateExecuting = 3"
| "u32_of_state OMX_StatePause = 4"
| "u32_of_state OMX_StateWaitForResources = 5"
| "u32_of_state (OMX_StateOther w) = w"

lemma u32_of_state_of_u32 [simp]: "u32_of_state (state_of_u32 w) = w"
  by (simp add: state_of_u32_def)

lemma state_of_u32_numerals [simp]:
  "state_of_u32 0 = OMX_StateInvalid"
  "state_of_u32 1 = OMX_StateLoaded"
  "state_of_u32 2 = OMX_StateIdle"
  "state_of_u32 3 = OMX_StateExecuting"
  "state_of_u32 4 = OMX_StatePause"
  "state_of_u32 5 = OMX_StateWaitForResources"
  by (simp_all add: state_of_u32_def)

text \<open>Command codes, and the private codes of \<open>SEC_OMX_Def.h\<close> for queued buffers.\<close>

datatype OMX_COMMANDTYPE =
    OMX_CommandStateSet
  | OMX_CommandFlush
  | OMX_CommandPortDisable
  | OMX_CommandPortEnable
  | OMX_CommandMarkBuffer
  | SEC_OMX_CommandComponentDeInit
  | SEC_OMX_CommandEmptyBuffer
  | SEC_OMX_CommandFillBuffer
  | OMX_CommandOther u32

datatype OMX_DIRTYPE = OMX_DirInput | OMX_DirOutput

datatype OMX_PORTDOMAINTYPE =
  OMX_PortDomainAudio | OMX_PortDomainVideo | OMX_PortDomainImage | OMX_PortDomainOther
  | OMX_PortDomainMax

datatype OMX_BUFFERSUPPLIERTYPE =
  OMX_BufferSupplyUnspecified | OMX_BufferSupplyInput | OMX_BufferSupplyOutput

section \<open>Structures\<close>

record OMX_VERSIONTYPE =
  nVersionMajor :: u8
  nVersionMinor :: u8
  nRevision :: u8
  nStep :: u8

record omx_struct =
  nSize :: u32
  nVersion :: OMX_VERSIONTYPE

record OMX_MARKTYPE =
  mark_hMarkTargetComponent :: "ptr option"
  mark_pMarkData :: "ptr option"

record OMX_BUFFERHEADERTYPE = omx_struct +
  pBuffer :: "ptr option"
  nAllocLen :: u32
  nFilledLen :: u32
  nOffset :: u32
  pAppPrivate :: "ptr option"
  pPlatformPrivate :: "ptr option"
  pInputPortPrivate :: "ptr option"
  pOutputPortPrivate :: "ptr option"
  hMarkTargetComponent :: "ptr option"
  pMarkData :: "ptr option"
  nTickCount :: u32
  nTimeStamp :: u64
  hdr_nFlags :: u32
  nOutputPortIndex :: u32
  nInputPortIndex :: u32

record OMX_PRIORITYMGMTTYPE = omx_struct +
  nGroupPriority :: u32
  nGroupID :: u32

record OMX_PORT_PARAM_TYPE = omx_struct +
  nPorts :: u32
  nStartPortNumber :: u32

record OMX_PARAM_BUFFERSUPPLIERTYPE = omx_struct +
  bs_nPortIndex :: u32
  eBufferSupplier :: OMX_BUFFERSUPPLIERTYPE

record OMX_VIDEO_PORTDEFINITIONTYPE =
  cMIMEType :: "ptr option"
  pNativeRender :: "ptr option"
  nFrameWidth :: u32
  nFrameHeight :: u32
  nStride :: u32
  nSliceHeight :: u32
  nBitrate :: u32
  xFramerate :: u32
  bFlagErrorConcealment :: bool
  eCompressionFormat :: u32
  eColorFormat :: u32
  pNativeWindow :: "ptr option"

text \<open>
  Of the \<open>format\<close> union of a port definition the video member is kept, the one the video
  components read and write.
\<close>

record OMX_PARAM_PORTDEFINITIONTYPE = omx_struct +
  pd_nPortIndex :: u32
  eDir :: OMX_DIRTYPE
  nBufferCountActual :: u32
  nBufferCountMin :: u32
  nBufferSize :: u32
  bEnabled :: bool
  bPopulated :: bool
  eDomain :: OMX_PORTDOMAINTYPE
  format_video :: OMX_VIDEO_PORTDEFINITIONTYPE
  bBuffersContiguous :: bool
  nBufferAlignment :: u32

definition sizeof_OMX_COMPONENTTYPE :: u32 where "sizeof_OMX_COMPONENTTYPE = 88"
definition sizeof_OMX_BUFFERHEADERTYPE :: u32 where "sizeof_OMX_BUFFERHEADERTYPE = 80"
definition sizeof_OMX_PARAM_PORTDEFINITIONTYPE :: u32 where
  "sizeof_OMX_PARAM_PORTDEFINITIONTYPE = 96"
definition sizeof_OMX_PORT_PARAM_TYPE :: u32 where "sizeof_OMX_PORT_PARAM_TYPE = 16"
definition sizeof_OMX_PRIORITYMGMTTYPE :: u32 where "sizeof_OMX_PRIORITYMGMTTYPE = 16"
definition sizeof_OMX_PARAM_BUFFERSUPPLIERTYPE :: u32 where
  "sizeof_OMX_PARAM_BUFFERSUPPLIERTYPE = 16"

definition VERSIONMAJOR_NUMBER :: u8 where "VERSIONMAJOR_NUMBER = 1"
definition VERSIONMINOR_NUMBER :: u8 where "VERSIONMINOR_NUMBER = 0"
definition REVISION_NUMBER :: u8 where "REVISION_NUMBER = 0"
definition STEP_NUMBER :: u8 where "STEP_NUMBER = 0"

text \<open>The \<open>INIT_SET_SIZE_VERSION\<close> macro; its argument is the zero-filled structure.\<close>

definition SEC_VERSION :: OMX_VERSIONTYPE where
  "SEC_VERSION = \<lparr>nVersionMajor = VERSIONMAJOR_NUMBER, nVersionMinor = VERSIONMINOR_NUMBER,
                  nRevision = REVISION_NUMBER, nStep = STEP_NUMBER\<rparr>"

definition INIT_SET_SIZE_VERSION :: "'a omx_struct_scheme \<Rightarrow> u32 \<Rightarrow> 'a omx_struct_scheme" where
  "INIT_SET_SIZE_VERSION s sz = s\<lparr>nSize := sz, nVersion := SEC_VERSION\<rparr>"

text \<open>
  \<open>SEC_OMX_Check_SizeVersion\<close>: NULL is a bad parameter, so is a wrong size; only the major
  and the minor version are compared.
\<close>

definition SEC_OMX_Check_SizeVersion :: "'a omx_struct_scheme option \<Rightarrow> u32 \<Rightarrow> OMX_ERRORTYPE" where
  "SEC_OMX_Check_SizeVersion header sz =
    (case header of
       None \<Rightarrow> OMX_ErrorBadParameter
     | Some h \<Rightarrow>
         if nSize h \<noteq> sz then OMX_ErrorBadParameter
         else if nVersionMajor (nVersion h) \<noteq> VERSIONMAJOR_NUMBER \<or>
                 nVersionMinor (nVersion h) \<noteq> VERSIONMINOR_NUMBER
              then OMX_ErrorVersionMismatch
         else OMX_ErrorNone)"

lemma Check_INIT_SET_SIZE_VERSION [simp]:
  "SEC_OMX_Check_SizeVersion (Some (INIT_SET_SIZE_VERSION s sz)) sz = OMX_ErrorNone"
  by (simp add: SEC_OMX_Check_SizeVersion_def INIT_SET_SIZE_VERSION_def SEC_VERSION_def)

end
