(* ===== verification/SEC_OSAL.thy ===== *)
theory SEC_OSAL
  imports OMX_Types
begin

text \<open>
  The operating system abstraction of \<open>openmax/osal\<close>: memory, mutexes, semaphores, events
  and threads.

  The calls into libc and the kernel that acquire something (\<open>malloc\<close>,
  \<open>pthread_mutex_init\<close>, \<open>sem_init\<close>, \<open>pthread_cond_init\<close>, \<open>pthread_create\<close>) can fail. The
  state carries a schedule \<open>sys_answers\<close> of the answers they will give, one for each call in
  the order they are made; when the schedule is used up they succeed. Theorems quantify
  over the schedule, so they cover every pattern of failures. The calls that release
  something succeed on a live object, and \<open>sem_wait\<close> is not interrupted by signals.

  Mutexes protect sections that the model executes atomically, so a mutex is only the
  handle (NULL or not). A semaphore handle is NULL or a semaphore with its count, an event
  handle NULL or an event with its \<open>signal\<close> flag.
\<close>

section \<open>System calls and memory: SEC\_OSAL\_Memory.c\<close>

datatype sys_answer = Sys_ok | Sys_EAGAIN | Sys_error

record osal_state =
  sys_answers :: "sys_answer list"
  mem_cnt :: int
  live_blocks :: int
  next_addr :: ptr

definition sys_call :: "'a osal_state_scheme \<Rightarrow> sys_answer \<times> 'a osal_state_scheme" where
  "sys_call os = (case sys_answers os of
      [] \<Rightarrow> (Sys_ok, os)
    | a # as \<Rightarrow> (a, os\<lparr>sys_answers := as\<rparr>))"

text \<open>
  \<open>mem_cnt\<close> is the counter of the source, \<open>live_blocks\<close> the number of blocks the C library
  has handed out and not got back. \<open>SEC_OSAL_Malloc\<close> counts the call before it knows whether \<open>malloc\<close> succeeds;
  \<open>SEC_OSAL_Free\<close> counts also the release of NULL.
\<close>

definition SEC_OSAL_Malloc :: "'a osal_state_scheme \<Rightarrow> ptr option \<times> 'a osal_state_scheme" where
  "SEC_OSAL_Malloc os =
    (let (a, os1) = sys_call (os\<lparr>mem_cnt := mem_cnt os + 1\<rparr>) in
     if a = Sys_ok
     then (Some (next_addr os1),
           os1\<lparr>next_addr := next_addr os1 + 1, live_blocks := live_blocks os1 + 1\<rparr>)
     else (None, os1))"

definition SEC_OSAL_Free :: "'p option \<Rightarrow> 'a osal_state_scheme \<Rightarrow> 'a osal_state_scheme" where
  "SEC_OSAL_Free addr os =
    (let os1 = os\<lparr>mem_cnt := mem_cnt os - 1\<rparr>
     in if addr \<noteq> None then os1\<lparr>live_blocks := live_blocks os1 - 1\<rparr> else os1)"

text \<open>
  \<open>SEC_OSAL_Memset\<close> writes the low byte of its argument into every byte: on an array of
  64-bit ticks it yields the word that repeats this byte eight times.
\<close>

definition SEC_OSAL_Memset_ticks :: "int \<Rightarrow> nat \<Rightarrow> u64 list" where
  "SEC_OSAL_Memset_ticks c n = replicate n (word_of_int (c mod 256) * 0x0101010101010101)"

section \<open>Mutexes: SEC\_OSAL\_Mutex.c\<close>

definition SEC_OSAL_MutexCreate ::
  "ptr option \<Rightarrow> 'a osal_state_scheme \<Rightarrow> OMX_ERRORTYPE \<times> ptr option \<times> 'a osal_state_scheme" where
  "SEC_OSAL_MutexCreate mutexHandle os =
    (case SEC_OSAL_Malloc os of
       (None, os1) \<Rightarrow> (OMX_ErrorInsufficientResources, mutexHandle, os1)
     | (Some mutex, os1) \<Rightarrow>
         (let (a, os2) = sys_call os1 in
          if a \<noteq> Sys_ok then (OMX_ErrorUndefined, mutexHandle, SEC_OSAL_Free (Some mutex) os2)
          else (OMX_ErrorNone, Some mutex, os2)))"

definition SEC_OSAL_MutexTerminate ::
  "ptr option \<Rightarrow> 'a osal_state_scheme \<Rightarrow> OMX_ERRORTYPE \<times> 'a osal_state_scheme" where
  "SEC_OSAL_MutexTerminate mutexHandle os =
    (case mutexHandle of
       None \<Rightarrow> (OMX_ErrorBadParameter, os)
     | Some mutex \<Rightarrow> (OMX_ErrorNone, SEC_OSAL_Free (Some mutex) os))"

section \<open>Semaphores: SEC\_OSAL\_Semaphore.c\<close>

text \<open>The largest count a semaphore takes: \<open>SEM_VALUE_MAX\<close> of the C library.\<close>

definition SEM_VALUE_MAX :: nat where "SEM_VALUE_MAX = 0x3FFFFFFF"

type_synonym sema = "nat option"

definition SEC_OSAL_SemaphoreCreate ::
  "sema \<Rightarrow> 'a osal_state_scheme \<Rightarrow> OMX_ERRORTYPE \<times> sema \<times> 'a osal_state_scheme" where
  "SEC_OSAL_SemaphoreCreate semaphoreHandle os =
    (case SEC_OSAL_Malloc os of
       (None, os1) \<Rightarrow> (OMX_ErrorInsufficientResources, semaphoreHandle, os1)
     | (Some sema, os1) \<Rightarrow>
         (let (a, os2) = sys_call os1 in
          if a \<noteq> Sys_ok then (OMX_ErrorUndefined, semaphoreHandle, SEC_OSAL_Free (Some sema) os2)
          else (OMX_ErrorNone, Some 0, os2)))"

definition SEC_OSAL_SemaphoreTerminate ::
  "sema \<Rightarrow> 'a osal_state_scheme \<Rightarrow> OMX_ERRORTYPE \<times> 'a osal_state_scheme" where
  "SEC_OSAL_SemaphoreTerminate semaphoreHandle os =
    (case semaphoreHandle of
       None \<Rightarrow> (OMX_ErrorBadParameter, os)
     | Some sema \<Rightarrow> (OMX_ErrorNone, SEC_OSAL_Free (Some sema) os))"

fun SEC_OSAL_SemaphoreWait :: "sema \<Rightarrow> (OMX_ERRORTYPE, sema) outcome" where
  "SEC_OSAL_SemaphoreWait None = Done OMX_ErrorBadParameter None"
| "SEC_OSAL_SemaphoreWait (Some 0) = Blocked"
| "SEC_OSAL_SemaphoreWait (Some (Suc n)) = Done OMX_ErrorNone (Some n)"

definition SEC_OSAL_SemaphorePost :: "sema \<Rightarrow> OMX_ERRORTYPE \<times> sema" where
  "SEC_OSAL_SemaphorePost semaphoreHandle =
    (case semaphoreHandle of
       None \<Rightarrow> (OMX_ErrorBadParameter, None)
     | Some n \<Rightarrow> if n \<ge> SEM_VALUE_MAX then (OMX_ErrorUndefined, Some n)
                 else (OMX_ErrorNone, Some (Suc n)))"

definition SEC_OSAL_Set_SemaphoreCount :: "sema \<Rightarrow> int \<Rightarrow> OMX_ERRORTYPE \<times> sema" where
  "SEC_OSAL_Set_SemaphoreCount semaphoreHandle val =
    (case semaphoreHandle of
       None \<Rightarrow> (OMX_ErrorBadParameter, None)
     | Some n \<Rightarrow> if val < 0 \<or> val > int SEM_VALUE_MAX then (OMX_ErrorUndefined, Some n)
                 else (OMX_ErrorNone, Some (nat val)))"

text \<open>\<open>SEC_OSAL_Get_SemaphoreCount\<close> leaves the caller's variable alone when the handle is NULL.\<close>

definition SEC_OSAL_Get_SemaphoreCount :: "sema \<Rightarrow> int \<Rightarrow> OMX_ERRORTYPE \<times> int" where
  "SEC_OSAL_Get_SemaphoreCount semaphoreHandle val =
    (case semaphoreHandle of
       None \<Rightarrow> (OMX_ErrorBadParameter, val)
     | Some n \<Rightarrow> (OMX_ErrorNone, int n))"

section \<open>Events: SEC\_OSAL\_Event.c\<close>

type_synonym event = "bool option"

definition SEC_OSAL_SignalCreate ::
  "event \<Rightarrow> 'a osal_state_scheme \<Rightarrow> OMX_ERRORTYPE \<times> event \<times> 'a osal_state_scheme" where
  "SEC_OSAL_SignalCreate eventHandle os =
    (case SEC_OSAL_Malloc os of
       (None, os1) \<Rightarrow> (OMX_ErrorInsufficientResources, eventHandle, os1)
     | (Some event, os1) \<Rightarrow>
         (case SEC_OSAL_MutexCreate None os1 of (ret, mutex, os2) \<Rightarrow>
          if ret \<noteq> OMX_ErrorNone then (ret, eventHandle, SEC_OSAL_Free (Some event) os2)
          else (let (a, os3) = sys_call os2 in
                if a \<noteq> Sys_ok
                then (OMX_ErrorUndefined, eventHandle,
                      SEC_OSAL_Free (Some event) (snd (SEC_OSAL_MutexTerminate mutex os3)))
                else (OMX_ErrorNone, Some False, os3))))"

text \<open>The event owns its structure and its mutex: termination releases both.\<close>

definition SEC_OSAL_SignalTerminate ::
  "event \<Rightarrow> 'a osal_state_scheme \<Rightarrow> OMX_ERRORTYPE \<times> 'a osal_state_scheme" where
  "SEC_OSAL_SignalTerminate eventHandle os =
    (case eventHandle of
       None \<Rightarrow> (OMX_ErrorBadParameter, os)
     | Some event \<Rightarrow> (OMX_ErrorNone, SEC_OSAL_Free (Some event) (SEC_OSAL_Free (Some ()) os)))"

definition SEC_OSAL_SignalReset :: "event \<Rightarrow> OMX_ERRORTYPE \<times> event" where
  "SEC_OSAL_SignalReset eventHandle =
    (case eventHandle of None \<Rightarrow> (OMX_ErrorBadParameter, None)
                       | Some _ \<Rightarrow> (OMX_ErrorNone, Some False))"

definition SEC_OSAL_SignalSet :: "event \<Rightarrow> OMX_ERRORTYPE \<times> event" where
  "SEC_OSAL_SignalSet eventHandle =
    (case eventHandle of None \<Rightarrow> (OMX_ErrorBadParameter, None)
                       | Some _ \<Rightarrow> (OMX_ErrorNone, Some True))"

definition DEF_MAX_WAIT_TIME :: u32 where "DEF_MAX_WAIT_TIME = 0xFFFFFFFF"

text \<open>
  The absolute deadline \<open>SEC_OSAL_SignalWait\<close> computes from the current time, in the 32-bit
  unsigned arithmetic of the code: seconds and nanoseconds.
\<close>

definition signal_deadline :: "u32 \<Rightarrow> u32 \<Rightarrow> u32 \<Rightarrow> u32 \<times> u32" where
  "signal_deadline now_sec now_usec ms =
    (let tv_us = now_usec + ms * 1000
     in (now_sec + tv_us div 1000000, (tv_us mod 1000000) * 1000))"

text \<open>
  \<open>arrives\<close> says whether another thread sets the signal before the deadline of a timed
  wait; an untimed wait on an event that is not set blocks.
\<close>

definition SEC_OSAL_SignalWait :: "event \<Rightarrow> u32 \<Rightarrow> bool \<Rightarrow> (OMX_ERRORTYPE, event) outcome" where
  "SEC_OSAL_SignalWait eventHandle ms arrives =
    (case eventHandle of
       None \<Rightarrow> Done OMX_ErrorBadParameter None
     | Some signal \<Rightarrow>
         if ms = 0 then Done (if \<not> signal then OMX_ErrorTimeout else OMX_ErrorNone) (Some signal)
         else if ms = DEF_MAX_WAIT_TIME then
           (if signal then Done OMX_ErrorNone (Some signal) else Blocked)
         else if signal then Done OMX_ErrorNone (Some True)
         else if arrives then Done OMX_ErrorNone (Some True)
         else Done OMX_ErrorTimeout (Some False))"

section \<open>Threads: SEC\_OSAL\_Thread.c\<close>

text \<open>
  \<open>SEC_OSAL_ThreadCreate\<close> clears the handle structure without checking that it was
  allocated. \<open>pthread_join\<close> is taken to return: the callers tell the thread to end first.
\<close>

definition SEC_OSAL_ThreadCreate ::
  "'a osal_state_scheme \<Rightarrow> (OMX_ERRORTYPE, ptr option \<times> 'a osal_state_scheme) outcome" where
  "SEC_OSAL_ThreadCreate os =
    (case SEC_OSAL_Malloc os of
       (None, os1) \<Rightarrow> Crash
     | (Some thread, os1) \<Rightarrow>
         (case sys_call os1 of
            (Sys_ok, os2) \<Rightarrow> Done OMX_ErrorNone (Some thread, os2)
          | (Sys_EAGAIN, os2) \<Rightarrow>
              Done OMX_ErrorInsufficientResources (None, SEC_OSAL_Free (Some thread) os2)
          | (Sys_error, os2) \<Rightarrow>
              Done OMX_ErrorUndefined (None, SEC_OSAL_Free (Some thread) os2)))"

definition SEC_OSAL_ThreadTerminate ::
  "ptr option \<Rightarrow> 'a osal_state_scheme \<Rightarrow> OMX_ERRORTYPE \<times> 'a osal_state_scheme" where
  "SEC_OSAL_ThreadTerminate threadHandle os =
    (case threadHandle of
       None \<Rightarrow> (OMX_ErrorBadParameter, os)
     | Some thread \<Rightarrow> (OMX_ErrorNone, SEC_OSAL_Free (Some thread) os))"

section \<open>Facts\<close>

text \<open>When the schedule is used up, nothing fails.\<close>

lemma sys_call_ok [osal_rules]: "sys_answers os = [] \<Longrightarrow> sys_call os = (Sys_ok, os)"
  by (simp add: sys_call_def)

lemma sys_answers_mem_cnt [simp]: "sys_answers (os\<lparr>mem_cnt := n\<rparr>) = sys_answers os"
  by simp

lemma Malloc_ok [osal_rules]:
  "sys_answers os = [] \<Longrightarrow>
   SEC_OSAL_Malloc os = (Some (next_addr os),
     os\<lparr>mem_cnt := mem_cnt os + 1, live_blocks := live_blocks os + 1, next_addr := next_addr os + 1\<rparr>)"
  by (simp add: SEC_OSAL_Malloc_def sys_call_def)

lemma Free_simps [osal_rules, simp]:
  "SEC_OSAL_Free (Some p) os = os\<lparr>mem_cnt := mem_cnt os - 1, live_blocks := live_blocks os - 1\<rparr>"
  "SEC_OSAL_Free None os = os\<lparr>mem_cnt := mem_cnt os - 1\<rparr>"
  by (simp_all add: SEC_OSAL_Free_def)

lemma sys_call_live [simp]:
  "sys_call os = (a, os') \<Longrightarrow> live_blocks os' = live_blocks os \<and> mem_cnt os' = mem_cnt os
     \<and> next_addr os' = next_addr os"
  by (auto simp: sys_call_def split: list.splits)

lemma Malloc_SomeD:
  assumes "SEC_OSAL_Malloc os = (Some p, os')"
  shows "live_blocks os' = live_blocks os + 1 \<and> mem_cnt os' = mem_cnt os + 1
    \<and> p = next_addr os \<and> next_addr os' = next_addr os + 1"
  using assms sys_call_live [of "os\<lparr>mem_cnt := mem_cnt os + 1\<rparr>"]
  by (auto simp: SEC_OSAL_Malloc_def Let_def split: prod.splits if_splits)

lemma Malloc_NoneD:
  assumes "SEC_OSAL_Malloc os = (None, os')"
  shows "live_blocks os' = live_blocks os \<and> mem_cnt os' = mem_cnt os + 1
    \<and> next_addr os' = next_addr os"
  using assms sys_call_live [of "os\<lparr>mem_cnt := mem_cnt os + 1\<rparr>"]
  by (auto simp: SEC_OSAL_Malloc_def Let_def split: prod.splits if_splits)

text \<open>
  Every constructor either succeeds, with a fresh handle and the blocks it owns, or leaves
  the handle and the number of live blocks as they were.
\<close>

lemma MutexCreate_cases:
  assumes "SEC_OSAL_MutexCreate h os = (ret, h', os')"
  obtains "ret = OMX_ErrorNone" "h' = Some (next_addr os)" "live_blocks os' = live_blocks os + 1"
    | "ret \<noteq> OMX_ErrorNone" "h' = h" "live_blocks os' = live_blocks os"
  using assms
  by (auto simp: SEC_OSAL_MutexCreate_def Let_def split: prod.splits option.splits if_splits
      dest: Malloc_SomeD Malloc_NoneD)

lemma SemaphoreCreate_cases:
  assumes "SEC_OSAL_SemaphoreCreate h os = (ret, h', os')"
  obtains "ret = OMX_ErrorNone" "h' = Some 0" "live_blocks os' = live_blocks os + 1"
    | "ret \<noteq> OMX_ErrorNone" "h' = h" "live_blocks os' = live_blocks os"
  using assms
  by (auto simp: SEC_OSAL_SemaphoreCreate_def Let_def split: prod.splits option.splits if_splits
      dest: Malloc_SomeD Malloc_NoneD)

lemma SignalCreate_cases:
  assumes "SEC_OSAL_SignalCreate h os = (ret, h', os')"
  obtains "ret = OMX_ErrorNone" "h' = Some False" "live_blocks os' = live_blocks os + 2"
    | "ret \<noteq> OMX_ErrorNone" "h' = h" "live_blocks os' = live_blocks os"
  using assms
  apply (clarsimp simp: SEC_OSAL_SignalCreate_def Let_def split: prod.splits option.splits if_splits)
  apply (auto simp: SEC_OSAL_MutexTerminate_def split: option.splits
      dest!: Malloc_SomeD Malloc_NoneD elim!: MutexCreate_cases)
  done

end
