(* ===== verification/SEC_Queue.thy ===== *)
theory SEC_Queue
  imports SEC_OSAL
begin

text \<open>
  The queue of \<open>osal/SEC_OSAL_Queue.c\<close>: a circular list of nodes allocated once, with a
  \<open>first\<close> and a \<open>last\<close> pointer that chase each other around the ring. The nodes a queue owns
  are an explicit store from addresses to nodes, so that the pointer surgery of the source
  (and a dangling pointer) is visible.

  The refinement \<open>ring_list\<close> relates a ring to the list of its elements; the locale
  \<open>bounded_fifo\<close> is the contract the OMX components rely on, and the interpretation \<open>ring\<close>
  at the end discharges it for the ring. The queue handle is always the address of a
  structure member in the callers, so the NULL tests of the handle are not represented.
\<close>

section \<open>The code\<close>

definition MAX_QUEUE_ELEMENTS :: int where "MAX_QUEUE_ELEMENTS = 10"

record 'a SEC_QElem =
  qe_data :: "'a option"
  qNext :: "ptr option"

record 'a SEC_QUEUE =
  q_first :: "ptr option"
  q_last :: "ptr option"
  numElem :: int
  qMutex :: "ptr option"
  q_heap :: "ptr \<Rightarrow> 'a SEC_QElem option"

definition zero_QElem :: "'a SEC_QElem" where
  "zero_QElem = \<lparr>qe_data = None, qNext = None\<rparr>"

definition zero_QUEUE :: "'a SEC_QUEUE" where
  "zero_QUEUE = \<lparr>q_first = None, q_last = None, numElem = 0, qMutex = None, q_heap = Map.empty\<rparr>"

text \<open>The clean-up loop \<open>while (queue->first != NULL)\<close>; the fuel bounds the nodes it may free.\<close>

primrec queue_free_chain ::
  "nat \<Rightarrow> 'a SEC_QUEUE \<Rightarrow> 'b osal_state_scheme \<Rightarrow>
   (unit, 'a SEC_QUEUE \<times> 'b osal_state_scheme) outcome" where
  "queue_free_chain 0 q os = (if q_first q = None then Done () (q, os) else Diverges)"
| "queue_free_chain (Suc n) q os =
    (case q_first q of
       None \<Rightarrow> Done () (q, os)
     | Some f \<Rightarrow>
         (case q_heap q f of
            None \<Rightarrow> Crash
          | Some e \<Rightarrow> queue_free_chain n (q\<lparr>q_heap := (q_heap q)(f := None), q_first := qNext e\<rparr>)
                       (SEC_OSAL_Free (Some f) os)))"

text \<open>
  The allocation loop with \<open>i\<close> iterations to go. \<open>cur\<close> is \<open>currentqelem\<close>, the tail of the
  chain built so far; at the end the tail is linked back to \<open>first\<close>.
\<close>

primrec queue_create_loop ::
  "nat \<Rightarrow> ptr \<Rightarrow> 'a SEC_QUEUE \<Rightarrow> 'b osal_state_scheme \<Rightarrow>
   (OMX_ERRORTYPE, 'a SEC_QUEUE \<times> 'b osal_state_scheme) outcome" where
  "queue_create_loop 0 cur q os =
    (case q_heap q cur of
       None \<Rightarrow> Crash
     | Some e \<Rightarrow> Done OMX_ErrorNone
                   (q\<lparr>q_heap := (q_heap q)(cur \<mapsto> e\<lparr>qNext := q_first q\<rparr>)\<rparr>, os))"
| "queue_create_loop (Suc i) cur q os =
    (case SEC_OSAL_Malloc os of
       (None, os1) \<Rightarrow>
         bindO (queue_free_chain (nat MAX_QUEUE_ELEMENTS) q os1)
               (\<lambda>_ s. Done OMX_ErrorInsufficientResources s)
     | (Some newqelem, os1) \<Rightarrow>
         (case q_heap q cur of
            None \<Rightarrow> Crash
          | Some e \<Rightarrow>
              queue_create_loop i newqelem
                (q\<lparr>q_heap := (q_heap q)(newqelem \<mapsto> zero_QElem, cur \<mapsto> e\<lparr>qNext := Some newqelem\<rparr>)\<rparr>) os1))"

definition SEC_OSAL_QueueCreate ::
  "'a SEC_QUEUE \<Rightarrow> 'b osal_state_scheme \<Rightarrow>
   (OMX_ERRORTYPE, 'a SEC_QUEUE \<times> 'b osal_state_scheme) outcome" where
  "SEC_OSAL_QueueCreate queue os =
    (case SEC_OSAL_MutexCreate (qMutex queue) os of (ret, mutex, os1) \<Rightarrow>
     let q1 = queue\<lparr>qMutex := mutex\<rparr> in
     if ret \<noteq> OMX_ErrorNone then Done ret (q1, os1)
     else (case SEC_OSAL_Malloc os1 of
             (None, os2) \<Rightarrow> Done OMX_ErrorInsufficientResources (q1\<lparr>q_first := None\<rparr>, os2)
           | (Some f, os2) \<Rightarrow>
               queue_create_loop (nat (MAX_QUEUE_ELEMENTS - 2)) f
                 (q1\<lparr>q_first := Some f, q_last := Some f, numElem := 0,
                     q_heap := [f \<mapsto> zero_QElem]\<rparr>) os2))"

primrec queue_terminate_loop ::
  "nat \<Rightarrow> 'a SEC_QUEUE \<Rightarrow> 'b osal_state_scheme \<Rightarrow>
   (unit, 'a SEC_QUEUE \<times> 'b osal_state_scheme) outcome" where
  "queue_terminate_loop 0 q os = Done () (q, os)"
| "queue_terminate_loop (Suc i) q os =
    (case q_first q of
       None \<Rightarrow> Crash
     | Some f \<Rightarrow>
         (case q_heap q f of
            None \<Rightarrow> Crash
          | Some e \<Rightarrow> queue_terminate_loop i (q\<lparr>q_heap := (q_heap q)(f := None), q_first := qNext e\<rparr>)
                       (SEC_OSAL_Free (Some f) os)))"

definition SEC_OSAL_QueueTerminate ::
  "'a SEC_QUEUE \<Rightarrow> 'b osal_state_scheme \<Rightarrow>
   (OMX_ERRORTYPE, 'a SEC_QUEUE \<times> 'b osal_state_scheme) outcome" where
  "SEC_OSAL_QueueTerminate queue os =
    bindO (queue_terminate_loop (nat (MAX_QUEUE_ELEMENTS - 2)) queue os)
      (\<lambda>_ (q1, os1).
        let (q2, os2) = (case q_first q1 of
              None \<Rightarrow> (q1, os1)
            | Some f \<Rightarrow> (q1\<lparr>q_first := None, q_heap := (q_heap q1)(f := None)\<rparr>,
                          SEC_OSAL_Free (Some f) os1));
            (ret, os3) = SEC_OSAL_MutexTerminate (qMutex q2) os2
        in Done ret (q2, os3))"

definition SEC_OSAL_Queue :: "'a SEC_QUEUE \<Rightarrow> 'a option \<Rightarrow> (int, 'a SEC_QUEUE) outcome" where
  "SEC_OSAL_Queue queue d =
    (case q_last queue of
       None \<Rightarrow> Crash
     | Some l \<Rightarrow>
         (case q_heap queue l of
            None \<Rightarrow> Crash
          | Some e \<Rightarrow>
              if qe_data e \<noteq> None \<or> numElem queue \<ge> MAX_QUEUE_ELEMENTS then Done (-1) queue
              else Done 0 (queue\<lparr>q_heap := (q_heap queue)(l \<mapsto> e\<lparr>qe_data := d\<rparr>),
                                 q_last := qNext e, numElem := numElem queue + 1\<rparr>)))"

definition SEC_OSAL_Dequeue :: "'a SEC_QUEUE \<Rightarrow> ('a option, 'a SEC_QUEUE) outcome" where
  "SEC_OSAL_Dequeue queue =
    (case q_first queue of
       None \<Rightarrow> Crash
     | Some f \<Rightarrow>
         (case q_heap queue f of
            None \<Rightarrow> Crash
          | Some e \<Rightarrow>
              if qe_data e = None \<or> numElem queue \<le> 0 then Done None queue
              else Done (qe_data e) (queue\<lparr>q_heap := (q_heap queue)(f \<mapsto> e\<lparr>qe_data := None\<rparr>),
                                 q_first := qNext e, numElem := numElem queue - 1\<rparr>)))"

definition SEC_OSAL_GetElemNum :: "'a SEC_QUEUE \<Rightarrow> int" where
  "SEC_OSAL_GetElemNum queue = numElem queue"

definition SEC_OSAL_SetElemNum :: "'a SEC_QUEUE \<Rightarrow> int \<Rightarrow> int \<times> 'a SEC_QUEUE" where
  "SEC_OSAL_SetElemNum queue ElemNum = (ElemNum, queue\<lparr>numElem := ElemNum\<rparr>)"

section \<open>The ring as a bounded list\<close>

text \<open>The number of nodes the allocation loop leaves in the ring: one plus eight.\<close>

definition RING_SIZE :: nat where "RING_SIZE = 9"

text \<open>
  \<open>ring_list q as xs\<close>: the nodes of the queue are exactly the distinct addresses \<open>as\<close>, each
  linked to the next and the last one back to the head, which is \<open>first\<close>; the first
  \<open>length xs\<close> of them hold \<open>xs\<close>, the others NULL, and \<open>last\<close> is the first free node.
\<close>

definition ring_list :: "'a SEC_QUEUE \<Rightarrow> ptr list \<Rightarrow> 'a list \<Rightarrow> bool" where
  "ring_list q as xs \<longleftrightarrow>
     distinct as \<and> length as = RING_SIZE \<and> dom (q_heap q) = set as \<and> qMutex q \<noteq> None \<and>
     (\<forall>i<RING_SIZE. q_heap q (as ! i) =
        Some \<lparr>qe_data = (if i < length xs then Some (xs ! i) else None),
              qNext = Some (as ! (Suc i mod RING_SIZE))\<rparr>) \<and>
     q_first q = Some (as ! 0) \<and> q_last q = Some (as ! (length xs mod RING_SIZE)) \<and>
     numElem q = int (length xs) \<and> length xs \<le> RING_SIZE"

definition queue_rel :: "'a SEC_QUEUE \<Rightarrow> 'a list \<Rightarrow> bool" where
  "queue_rel q xs \<longleftrightarrow> (\<exists>as. ring_list q as xs)"

definition queue_wf :: "'a SEC_QUEUE \<Rightarrow> bool" where
  "queue_wf q \<longleftrightarrow> (\<exists>xs. queue_rel q xs)"

text \<open>The abstraction function: walk \<open>numElem\<close> nodes from \<open>first\<close> and collect their data.\<close>

primrec queue_walk :: "(ptr \<Rightarrow> 'a SEC_QElem option) \<Rightarrow> nat \<Rightarrow> ptr option \<Rightarrow> 'a list" where
  "queue_walk h 0 p = []"
| "queue_walk h (Suc n) p =
    (case p of None \<Rightarrow> [] | Some a \<Rightarrow>
      (case h a of None \<Rightarrow> [] | Some e \<Rightarrow>
        (case qe_data e of None \<Rightarrow> [] | Some x \<Rightarrow> x # queue_walk h n (qNext e))))"

definition queue_elems :: "'a SEC_QUEUE \<Rightarrow> 'a list" where
  "queue_elems q = queue_walk (q_heap q) (nat (numElem q)) (q_first q)"

section \<open>Refinement\<close>

lemma ring_nth_neq:
  "distinct as \<Longrightarrow> length as = RING_SIZE \<Longrightarrow> i < RING_SIZE \<Longrightarrow> j < RING_SIZE \<Longrightarrow>
   as ! i = as ! j \<longleftrightarrow> i = j"
  by (simp add: nth_eq_iff_index_eq)

lemma ring_enqueue:
  assumes r: "ring_list q as xs" and room: "length xs < RING_SIZE"
  shows "\<exists>q'. SEC_OSAL_Queue q (Some x) = Done 0 q' \<and> ring_list q' as (xs @ [x])"
proof -
  let ?n = "length xs"
  have d: "distinct as" "length as = RING_SIZE" and dom: "dom (q_heap q) = set as"
    and last: "q_last q = Some (as ! ?n)" and num: "numElem q = int ?n" and mx: "qMutex q \<noteq> None"
    and node: "\<And>i. i < RING_SIZE \<Longrightarrow> q_heap q (as ! i) =
        Some \<lparr>qe_data = (if i < ?n then Some (xs ! i) else None),
              qNext = Some (as ! (Suc i mod RING_SIZE))\<rparr>"
    and fst: "q_first q = Some (as ! 0)"
    using r room by (auto simp: ring_list_def)
  let ?q' = "q\<lparr>q_heap := (q_heap q)(as ! ?n \<mapsto>
        \<lparr>qe_data = Some x, qNext = Some (as ! (Suc ?n mod RING_SIZE))\<rparr>),
      q_last := Some (as ! (Suc ?n mod RING_SIZE)), numElem := int ?n + 1\<rparr>"
  have "SEC_OSAL_Queue q (Some x) = Done 0 ?q'"
    using room by (simp add: SEC_OSAL_Queue_def last node num MAX_QUEUE_ELEMENTS_def RING_SIZE_def)
  moreover have "ring_list ?q' as (xs @ [x])"
    unfolding ring_list_def using d dom mx fst room
    by (auto simp: node nth_append ring_nth_neq less_Suc_eq)
  ultimately show ?thesis by blast
qed

lemma ring_enqueue_full:
  assumes r: "ring_list q as xs" and full: "length xs = RING_SIZE"
  shows "SEC_OSAL_Queue q d = Done (-1) q"
  using assms by (auto simp: ring_list_def SEC_OSAL_Queue_def RING_SIZE_def)

lemma ring_dequeue_empty:
  "ring_list q as [] \<Longrightarrow> SEC_OSAL_Dequeue q = Done None q"
  by (auto simp: ring_list_def SEC_OSAL_Dequeue_def RING_SIZE_def)

lemma ring_dequeue:
  assumes r: "ring_list q as (x # xs)"
  shows "\<exists>q'. SEC_OSAL_Dequeue q = Done (Some x) q' \<and> ring_list q' (rotate1 as) xs"
proof -
  have d: "distinct as" "length as = RING_SIZE" and dom: "dom (q_heap q) = set as"
    and last: "q_last q = Some (as ! (Suc (length xs) mod RING_SIZE))"
    and num: "numElem q = int (length xs) + 1" and mx: "qMutex q \<noteq> None"
    and node: "\<And>i. i < RING_SIZE \<Longrightarrow> q_heap q (as ! i) =
        Some \<lparr>qe_data = (if i < length (x # xs) then Some ((x # xs) ! i) else None),
              qNext = Some (as ! (Suc i mod RING_SIZE))\<rparr>"
    and fst: "q_first q = Some (as ! 0)" and len: "length xs < RING_SIZE"
    using r by (auto simp: ring_list_def)
  let ?q' = "q\<lparr>q_heap := (q_heap q)(as ! 0 \<mapsto>
        \<lparr>qe_data = None, qNext = Some (as ! (Suc 0 mod RING_SIZE))\<rparr>),
      q_first := Some (as ! (Suc 0 mod RING_SIZE)), numElem := int (length xs)\<rparr>"
  have "SEC_OSAL_Dequeue q = Done (Some x) ?q'"
    by (simp add: SEC_OSAL_Dequeue_def fst node num RING_SIZE_def)
  moreover have "ring_list ?q' (rotate1 as) xs"
  proof -
    have rot: "\<And>i. i < RING_SIZE \<Longrightarrow> rotate1 as ! i = as ! (Suc i mod RING_SIZE)"
      using d rotate1_nth by metis
    have "q_heap ?q' (rotate1 as ! i) =
        Some \<lparr>qe_data = (if i < length xs then Some (xs ! i) else None),
              qNext = Some (rotate1 as ! (Suc i mod RING_SIZE))\<rparr>" if i: "i < RING_SIZE" for i
    proof (cases "Suc i = RING_SIZE")
      case True
      with len show ?thesis by (simp add: rot RING_SIZE_def)
    next
      case False
      with i have "Suc i < RING_SIZE" by simp
      then show ?thesis using d i by (simp add: rot node ring_nth_neq mod_Suc_eq RING_SIZE_def)
    qed
    moreover have "0 < RING_SIZE" by (simp add: RING_SIZE_def)
    ultimately show ?thesis
      unfolding ring_list_def using d dom mx len last
      by (auto simp: rot)
  qed
  ultimately show ?thesis by blast
qed

lemma queue_walk_ring:
  assumes r: "ring_list q as xs"
  shows "n + i \<le> length xs \<Longrightarrow> queue_walk (q_heap q) n (Some (as ! (i mod RING_SIZE))) = take n (drop i xs)"
proof (induction n arbitrary: i)
  case (Suc n)
  then have i: "i < length xs" "i < RING_SIZE" using r by (auto simp: ring_list_def)
  then have "q_heap q (as ! i) =
     Some \<lparr>qe_data = Some (xs ! i), qNext = Some (as ! (Suc i mod RING_SIZE))\<rparr>"
    using r by (simp add: ring_list_def)
  with Suc i show ?case by (simp add: Cons_nth_drop_Suc [symmetric])
qed simp

lemma queue_elems_ring: "ring_list q as xs \<Longrightarrow> queue_elems q = xs"
  using queue_walk_ring [of q as xs "length xs" 0]
  by (simp add: queue_elems_def ring_list_def)

lemma queue_elems_rel: "queue_rel q xs \<Longrightarrow> queue_elems q = xs"
  using queue_elems_ring by (auto simp: queue_rel_def)

lemma queue_wf_rel: "queue_wf q \<longleftrightarrow> queue_rel q (queue_elems q)"
  using queue_elems_rel by (auto simp: queue_wf_def)

section \<open>Creation and termination\<close>

text \<open>The open chain of zeroed nodes at the addresses \<open>b, ..., e - 1\<close>.\<close>

definition chain_heap :: "ptr \<Rightarrow> ptr \<Rightarrow> ptr \<Rightarrow> 'a SEC_QElem option" where
  "chain_heap b e p = (if b \<le> p \<and> p < e
     then Some \<lparr>qe_data = None, qNext = if Suc p < e then Some (Suc p) else None\<rparr> else None)"

lemma chain_heap_single: "[b \<mapsto> zero_QElem] = chain_heap b (Suc b)"
  by (auto simp: chain_heap_def zero_QElem_def fun_eq_iff)

lemma chain_heap_extend:
  "b < e \<Longrightarrow> (chain_heap b e)(e \<mapsto> zero_QElem, e - Suc 0 \<mapsto> \<lparr>qe_data = None, qNext = Some e\<rparr>)
     = chain_heap b (Suc e)"
  by (auto simp: chain_heap_def zero_QElem_def fun_eq_iff)

lemma chain_heap_drop: "b < e \<Longrightarrow> (chain_heap b e)(b := None) = chain_heap (Suc b) e"
  by (auto simp: chain_heap_def fun_eq_iff)

lemma chain_heap_first:
  "b < e \<Longrightarrow> chain_heap b e b = Some \<lparr>qe_data = None, qNext = if Suc b < e then Some (Suc b) else None\<rparr>"
  by (simp add: chain_heap_def)

lemma chain_heap_empty: "chain_heap e e = Map.empty"
  by (auto simp: chain_heap_def fun_eq_iff)

lemma free_chain:
  assumes "q_heap q = chain_heap b e" "b \<le> e" "q_first q = (if b < e then Some b else None)"
    "e - b \<le> fuel"
  shows "\<exists>os'. queue_free_chain fuel q os = Done () (q\<lparr>q_heap := Map.empty, q_first := None\<rparr>, os')
     \<and> live_blocks os' = live_blocks os - int (e - b) \<and> sys_answers os' = sys_answers os"
  using assms
proof (induction fuel arbitrary: q b os)
  case 0
  then show ?case by (auto simp: chain_heap_empty)
next
  case (Suc fuel)
  show ?case
  proof (cases "b < e")
    case False
    with Suc.prems show ?thesis by (auto simp: chain_heap_empty)
  next
    case True
    let ?q = "q\<lparr>q_heap := chain_heap (Suc b) e, q_first := if Suc b < e then Some (Suc b) else None\<rparr>"
    have "queue_free_chain (Suc fuel) q os = queue_free_chain fuel ?q (SEC_OSAL_Free (Some b) os)"
      using True Suc.prems(1,3)
      by (cases "Suc b < e") (simp_all add: chain_heap_drop chain_heap_first)
    moreover have "\<exists>os'. queue_free_chain fuel ?q (SEC_OSAL_Free (Some b) os) =
        Done () (?q\<lparr>q_heap := Map.empty, q_first := None\<rparr>, os') \<and>
        live_blocks os' = live_blocks (SEC_OSAL_Free (Some b) os) - int (e - Suc b) \<and>
        sys_answers os' = sys_answers (SEC_OSAL_Free (Some b) os)"
      using True Suc.prems(4) by (intro Suc.IH) simp_all
    moreover have "int (e - b) = int (e - Suc b) + 1" using True by simp
    ultimately show ?thesis by auto
  qed
qed

lemma create_loop:
  assumes "q_heap q = chain_heap b e" "b < e" "q_first q = Some b" "next_addr os = e"
    "e - b + i \<le> RING_SIZE"
  shows "\<exists>ret q' os'. queue_create_loop i (e - 1) q os = Done ret (q', os') \<and>
     (ret = OMX_ErrorNone \<and> q' = q\<lparr>q_heap := (chain_heap b (e + i))(e + i - 1 \<mapsto> \<lparr>qe_data = None, qNext = Some b\<rparr>)\<rparr>
        \<and> live_blocks os' = live_blocks os + int i
      \<or> ret = OMX_ErrorInsufficientResources \<and> q' = q\<lparr>q_heap := Map.empty, q_first := None\<rparr>
        \<and> live_blocks os' = live_blocks os - int (e - b))"
  using assms
proof (induction i arbitrary: q os e)
  case 0
  then have "q_heap q (e - 1) = Some \<lparr>qe_data = None, qNext = None\<rparr>"
    by (auto simp: chain_heap_def)
  with 0 show ?case by (simp add: fun_upd_def)
next
  case (Suc i)
  have tail: "q_heap q (e - 1) = Some \<lparr>qe_data = None, qNext = None\<rparr>"
    using Suc.prems by (auto simp: chain_heap_def)
  obtain p os1 where m: "SEC_OSAL_Malloc os = (p, os1)" by (cases "SEC_OSAL_Malloc os")
  show ?case
  proof (cases p)
    case None
    have "\<exists>os'. queue_free_chain (nat MAX_QUEUE_ELEMENTS) q os1 =
        Done () (q\<lparr>q_heap := Map.empty, q_first := None\<rparr>, os') \<and>
        live_blocks os' = live_blocks os1 - int (e - b) \<and> sys_answers os' = sys_answers os1"
      using Suc.prems by (intro free_chain) (auto simp: MAX_QUEUE_ELEMENTS_def RING_SIZE_def)
    with None m Malloc_NoneD [of os os1] show ?thesis by auto
  next
    case (Some a)
    with m have a: "a = e" "next_addr os1 = Suc e" "live_blocks os1 = live_blocks os + 1"
      using Malloc_SomeD [of os a os1] Suc.prems(4) by auto
    let ?q = "q\<lparr>q_heap := chain_heap b (Suc e)\<rparr>"
    have "queue_create_loop (Suc i) (e - 1) q os = queue_create_loop i e ?q os1"
      using Some m a tail Suc.prems(1,2) by (simp add: chain_heap_extend)
    moreover have "\<exists>ret q' os'. queue_create_loop i (Suc e - 1) ?q os1 = Done ret (q', os') \<and>
      (ret = OMX_ErrorNone \<and> q' = ?q\<lparr>q_heap := (chain_heap b (Suc e + i))
            (Suc e + i - 1 \<mapsto> \<lparr>qe_data = None, qNext = Some b\<rparr>)\<rparr>
          \<and> live_blocks os' = live_blocks os1 + int i
        \<or> ret = OMX_ErrorInsufficientResources \<and> q' = ?q\<lparr>q_heap := Map.empty, q_first := None\<rparr>
          \<and> live_blocks os' = live_blocks os1 - int (Suc e - b))"
      using Suc.prems a by (intro Suc.IH) simp_all
    moreover have "int (Suc e - b) = int (e - b) + 1" using Suc.prems(2) by simp
    ultimately show ?thesis using a(3) by (auto simp: fun_upd_def)
  qed
qed

lemma create_loop_ring:
  assumes "q_heap q = chain_heap b (Suc b)" "q_first q = Some b" "next_addr os = Suc b"
  shows "\<exists>ret q' os'. queue_create_loop 8 b q os = Done ret (q', os') \<and>
     (ret = OMX_ErrorNone \<and> q' = q\<lparr>q_heap := (chain_heap b (b + RING_SIZE))
          (b + RING_SIZE - 1 \<mapsto> \<lparr>qe_data = None, qNext = Some b\<rparr>)\<rparr>
        \<and> live_blocks os' = live_blocks os + 8
      \<or> ret = OMX_ErrorInsufficientResources \<and> q' = q\<lparr>q_heap := Map.empty, q_first := None\<rparr>
        \<and> live_blocks os' = live_blocks os - 1)"
  using create_loop [of q b "Suc b" os 8] assms by (simp add: RING_SIZE_def add.commute)

lemma ring_of_chain:
  assumes "q_heap q = (chain_heap b (b + RING_SIZE))(b + RING_SIZE - 1 \<mapsto> \<lparr>qe_data = None, qNext = Some b\<rparr>)"
    "q_first q = Some b" "q_last q = Some b" "numElem q = 0" "qMutex q \<noteq> None"
  shows "ring_list q [b..<b + RING_SIZE] []"
proof -
  have "dom (q_heap q) = set [b..<b + RING_SIZE]"
    by (auto simp: assms(1) chain_heap_def RING_SIZE_def split: if_splits)
  moreover have "q_heap q ([b..<b + RING_SIZE] ! i) =
       Some \<lparr>qe_data = None, qNext = Some ([b..<b + RING_SIZE] ! (Suc i mod RING_SIZE))\<rparr>"
    if "i < RING_SIZE" for i
    using that by (cases "Suc i = RING_SIZE") (auto simp: assms(1) chain_heap_def RING_SIZE_def)
  ultimately show ?thesis using assms by (simp add: ring_list_def RING_SIZE_def)
qed

lemma QueueCreate_cases:
  assumes "qMutex q = None" "q_first q = None"
  obtains q' os' where "SEC_OSAL_QueueCreate q os = Done OMX_ErrorNone (q', os')"
      "queue_rel q' []" "live_blocks os' = live_blocks os + int RING_SIZE + 1"
    | ret q' os' where "SEC_OSAL_QueueCreate q os = Done ret (q', os')" "ret \<noteq> OMX_ErrorNone"
      "live_blocks os' = live_blocks os + (if qMutex q' = None then 0 else 1)"
      "q_first q' = None"
proof -
  obtain ret m os1 where c: "SEC_OSAL_MutexCreate (qMutex q) os = (ret, m, os1)"
    by (cases "SEC_OSAL_MutexCreate (qMutex q) os") auto
  then show thesis
  proof (cases rule: MutexCreate_cases)
    case 2
    then show thesis using that(2) [of ret "q\<lparr>qMutex := m\<rparr>" os1] c assms
      by (simp add: SEC_OSAL_QueueCreate_def)
  next
    case 1
    obtain p os2 where p: "SEC_OSAL_Malloc os1 = (p, os2)" by (cases "SEC_OSAL_Malloc os1")
    show thesis
    proof (cases p)
      case None
      then show thesis
        using that(2) [of OMX_ErrorInsufficientResources "q\<lparr>qMutex := m, q_first := None\<rparr>" os2]
          c 1 p Malloc_NoneD [of os1 os2] by (simp add: SEC_OSAL_QueueCreate_def)
    next
      case (Some b)
      let ?q = "q\<lparr>qMutex := m, q_first := Some b, q_last := Some b, numElem := 0,
                  q_heap := chain_heap b (Suc b)\<rparr>"
      have os2: "next_addr os2 = Suc b" "live_blocks os2 = live_blocks os + 2"
        using Malloc_SomeD [of os1 b os2] p Some 1 by auto
      have eq: "SEC_OSAL_QueueCreate q os = queue_create_loop 8 b ?q os2"
        using c 1 p Some by (simp add: SEC_OSAL_QueueCreate_def chain_heap_single MAX_QUEUE_ELEMENTS_def)
      obtain r q' os' where l: "queue_create_loop 8 b ?q os2 = Done r (q', os')" and
        cases: "r = OMX_ErrorNone \<and> q' = ?q\<lparr>q_heap := (chain_heap b (b + RING_SIZE))
            (b + RING_SIZE - 1 \<mapsto> \<lparr>qe_data = None, qNext = Some b\<rparr>)\<rparr>
            \<and> live_blocks os' = live_blocks os2 + 8
          \<or> r = OMX_ErrorInsufficientResources \<and> q' = ?q\<lparr>q_heap := Map.empty, q_first := None\<rparr>
            \<and> live_blocks os' = live_blocks os2 - 1"
        using create_loop_ring [of ?q b os2] os2 by auto
      from cases show thesis
      proof (elim disjE conjE)
        assume "r = OMX_ErrorNone" and q': "q' = ?q\<lparr>q_heap := (chain_heap b (b + RING_SIZE))
            (b + RING_SIZE - 1 \<mapsto> \<lparr>qe_data = None, qNext = Some b\<rparr>)\<rparr>"
          and live: "live_blocks os' = live_blocks os2 + 8"
        moreover have "ring_list q' [b..<b + RING_SIZE] []"
          using 1 by (intro ring_of_chain) (simp_all add: q')
        ultimately show thesis
          using that(1) [of q' os'] eq l os2 by (auto simp: queue_rel_def RING_SIZE_def)
      next
        assume "r = OMX_ErrorInsufficientResources" "q' = ?q\<lparr>q_heap := Map.empty, q_first := None\<rparr>"
          "live_blocks os' = live_blocks os2 - 1"
        then show thesis using that(2) [of r q' os'] eq l os2 1 by simp
      qed
    qed
  qed
qed

lemma terminate_loop:
  assumes "distinct as" "length as = RING_SIZE" "i + k < RING_SIZE"
    "dom (q_heap q) = set (drop i as)" "q_first q = Some (as ! i)"
    "\<And>j. i \<le> j \<Longrightarrow> j < RING_SIZE \<Longrightarrow> map_option qNext (q_heap q (as ! j)) = Some (Some (as ! (Suc j mod RING_SIZE)))"
  shows "\<exists>q' os'. queue_terminate_loop k q os = Done () (q', os') \<and>
     dom (q_heap q') = set (drop (i + k) as) \<and> q_first q' = Some (as ! (i + k)) \<and> qMutex q' = qMutex q \<and>
     live_blocks os' = live_blocks os - int k"
  using assms
proof (induction k arbitrary: i q os)
  case 0
  then show ?case by simp
next
  case (Suc k)
  obtain e where e: "q_heap q (as ! i) = Some e" "qNext e = Some (as ! Suc i)"
    using Suc.prems(3) Suc.prems(6) [of i] by auto
  let ?q = "q\<lparr>q_heap := (q_heap q)(as ! i := None), q_first := Some (as ! Suc i)\<rparr>"
  have step: "queue_terminate_loop (Suc k) q os = queue_terminate_loop k ?q (SEC_OSAL_Free (Some (as ! i)) os)"
    using e Suc.prems(5) by simp
  have dr: "drop i as = as ! i # drop (Suc i) as"
    using Suc.prems by (simp add: Cons_nth_drop_Suc)
  have "distinct (drop i as)" using Suc.prems(1) by simp
  with dr have ni: "as ! i \<notin> set (drop (Suc i) as)" by simp
  have dom: "dom (q_heap ?q) = set (drop (Suc i) as)"
    using Suc.prems(4) dr ni by auto
  have nx: "map_option qNext (q_heap ?q (as ! j)) = Some (Some (as ! (Suc j mod RING_SIZE)))"
    if "Suc i \<le> j" "j < RING_SIZE" for j
  proof -
    have "as ! j \<noteq> as ! i" using that Suc.prems(1,2) by (simp add: nth_eq_iff_index_eq)
    then show ?thesis using that Suc.prems(6) [of j] by simp
  qed
  have "\<exists>q' os'. queue_terminate_loop k ?q (SEC_OSAL_Free (Some (as ! i)) os) = Done () (q', os') \<and>
     dom (q_heap q') = set (drop (Suc i + k) as) \<and> q_first q' = Some (as ! (Suc i + k)) \<and>
     qMutex q' = qMutex ?q \<and>
     live_blocks os' = live_blocks (SEC_OSAL_Free (Some (as ! i)) os) - int k"
    using Suc.prems(3) by (intro Suc.IH Suc.prems(1,2) dom nx) simp_all
  then show ?case unfolding step by (elim exE conjE) simp
qed

lemma QueueTerminate_rel:
  assumes "queue_rel q xs"
  shows "\<exists>q' os'. SEC_OSAL_QueueTerminate q os = Done OMX_ErrorNone (q', os') \<and> q_heap q' = Map.empty \<and>
     q_first q' = None \<and> live_blocks os' = live_blocks os - int RING_SIZE - 1"
proof -
  obtain as where r: "ring_list q as xs" using assms by (auto simp: queue_rel_def)
  then obtain q' os' where
    "queue_terminate_loop 8 q os = Done () (q', os')" "dom (q_heap q') = set (drop 8 as)"
    "q_first q' = Some (as ! 8)" "qMutex q' = qMutex q" "live_blocks os' = live_blocks os - 8"
    using terminate_loop [of as 0 8 q os] by (auto simp: ring_list_def RING_SIZE_def)
  moreover have "set (drop 8 as) = {as ! 8}"
  proof -
    have "length as = 9" using r by (simp add: ring_list_def RING_SIZE_def)
    then have "drop 8 as = [as ! 8]" using Cons_nth_drop_Suc [of 8 as] by simp
    then show ?thesis by simp
  qed
  moreover have "(q_heap q')(as ! 8 := None) = Map.empty"
    using calculation by (auto simp: fun_eq_iff dom_def split: if_splits)
  moreover obtain m where "qMutex q = Some m" using r by (auto simp: ring_list_def)
  ultimately show ?thesis
    by (auto simp: SEC_OSAL_QueueTerminate_def MAX_QUEUE_ELEMENTS_def SEC_OSAL_MutexTerminate_def RING_SIZE_def)
qed

section \<open>The contract of a bounded first-in first-out queue\<close>

locale bounded_fifo =
  fixes enq :: "'q \<Rightarrow> 'x option \<Rightarrow> (int, 'q) outcome"
    and deq :: "'q \<Rightarrow> ('x option, 'q) outcome"
    and elem_num :: "'q \<Rightarrow> int"
    and elems :: "'q \<Rightarrow> 'x list"
    and wf :: "'q \<Rightarrow> bool"
    and cap :: nat
  assumes len_cap: "wf q \<Longrightarrow> length (elems q) \<le> cap"
    and elem_num: "wf q \<Longrightarrow> elem_num q = int (length (elems q))"
    and enq_room: "wf q \<Longrightarrow> length (elems q) < cap \<Longrightarrow>
      \<exists>q'. enq q (Some x) = Done 0 q' \<and> wf q' \<and> elems q' = elems q @ [x]"
    and enq_full: "wf q \<Longrightarrow> length (elems q) = cap \<Longrightarrow> enq q (Some x) = Done (-1) q"
    and deq_none: "wf q \<Longrightarrow> elems q = [] \<Longrightarrow> deq q = Done None q"
    and deq_some: "wf q \<Longrightarrow> elems q = x # xs \<Longrightarrow>
      \<exists>q'. deq q = Done (Some x) q' \<and> wf q' \<and> elems q' = xs"
begin

text \<open>Enqueue a list; dequeue a number of elements.\<close>

primrec enq_list :: "'q \<Rightarrow> 'x list \<Rightarrow> (int, 'q) outcome" where
  "enq_list q [] = Done 0 q"
| "enq_list q (x # xs) = bindO (enq q (Some x)) (\<lambda>r q1. if r = 0 then enq_list q1 xs else Done r q1)"

primrec deq_list :: "'q \<Rightarrow> nat \<Rightarrow> ('x list, 'q) outcome" where
  "deq_list q 0 = Done [] q"
| "deq_list q (Suc n) = bindO (deq q) (\<lambda>r q1.
     case r of None \<Rightarrow> Done [] q1 | Some x \<Rightarrow> bindO (deq_list q1 n) (\<lambda>xs q2. Done (x # xs) q2))"

lemma enq_cases:
  assumes "wf q"
  obtains q' where "length (elems q) < cap" "enq q (Some x) = Done 0 q'" "wf q'" "elems q' = elems q @ [x]"
    | "length (elems q) = cap" "enq q (Some x) = Done (-1) q"
  using assms enq_room [of q x] enq_full [of q x] len_cap [of q] by fastforce

lemma deq_cases:
  assumes "wf q"
  obtains x q' where "deq q = Done (Some x) q'" "wf q'" "elems q = x # elems q'"
      "elem_num q' = elem_num q - 1" "0 < elem_num q"
    | "deq q = Done None q" "elems q = []" "elem_num q = 0"
proof (cases "elems q")
  case Nil
  with assms that(2) show thesis by (simp add: deq_none elem_num)
next
  case (Cons x xs)
  with assms deq_some obtain q' where "deq q = Done (Some x) q'" "wf q'" "elems q' = xs" by blast
  with Cons assms that(1) show thesis by (simp add: elem_num)
qed

lemma enq_list_room:
  "wf q \<Longrightarrow> length (elems q) + length xs \<le> cap \<Longrightarrow>
   \<exists>q'. enq_list q xs = Done 0 q' \<and> wf q' \<and> elems q' = elems q @ xs"
proof (induction xs arbitrary: q)
  case (Cons x xs)
  then have "length (elems q) < cap" by simp
  with Cons.prems obtain q1 where "enq q (Some x) = Done 0 q1" "wf q1" "elems q1 = elems q @ [x]"
    using enq_room by blast
  then show ?case using Cons.IH [of q1] Cons.prems by auto
qed simp

lemma deq_list_elems:
  "wf q \<Longrightarrow> n \<le> length (elems q) \<Longrightarrow>
   \<exists>q'. deq_list q n = Done (take n (elems q)) q' \<and> wf q' \<and> elems q' = drop n (elems q)"
proof (induction n arbitrary: q)
  case (Suc n)
  then obtain x xs where x: "elems q = x # xs" by (cases "elems q") auto
  with Suc.prems obtain q1 where "deq q = Done (Some x) q1" "wf q1" "elems q1 = xs"
    using deq_some by blast
  then show ?case using Suc.IH [of q1] Suc.prems x by auto
qed simp

text \<open>What goes in comes out, in the same order.\<close>

lemma fifo_order:
  assumes "wf q" "elems q = []" "length xs \<le> cap"
  shows "\<exists>q' q''. enq_list q xs = Done 0 q' \<and> deq_list q' (length xs) = Done xs q'' \<and>
    wf q'' \<and> elems q'' = []"
  using enq_list_room [of q xs] deq_list_elems [of _ "length xs"] assms by fastforce

end

section \<open>The ring implements the contract\<close>

lemma queue_wf_ring: "queue_wf q \<longleftrightarrow> (\<exists>as. ring_list q as (queue_elems q))"
  using queue_elems_ring by (auto simp: queue_wf_def queue_rel_def)

lemma ring_list_wf: "ring_list q as xs \<Longrightarrow> queue_wf q \<and> queue_elems q = xs"
  using queue_elems_ring by (auto simp: queue_wf_def queue_rel_def)

interpretation ring: bounded_fifo
  SEC_OSAL_Queue SEC_OSAL_Dequeue SEC_OSAL_GetElemNum queue_elems queue_wf RING_SIZE
proof unfold_locales
  fix q :: "'a SEC_QUEUE" and x xs
  show "queue_wf q \<Longrightarrow> length (queue_elems q) \<le> RING_SIZE"
    by (auto simp: queue_wf_ring ring_list_def)
  show "queue_wf q \<Longrightarrow> SEC_OSAL_GetElemNum q = int (length (queue_elems q))"
    by (auto simp: queue_wf_ring ring_list_def SEC_OSAL_GetElemNum_def)
  show "queue_wf q \<Longrightarrow> length (queue_elems q) < RING_SIZE \<Longrightarrow>
    \<exists>q'. SEC_OSAL_Queue q (Some x) = Done 0 q' \<and> queue_wf q' \<and> queue_elems q' = queue_elems q @ [x]"
    using ring_enqueue ring_list_wf by (metis queue_wf_ring)
  show "queue_wf q \<Longrightarrow> length (queue_elems q) = RING_SIZE \<Longrightarrow> SEC_OSAL_Queue q (Some x) = Done (-1) q"
    using ring_enqueue_full by (metis queue_wf_ring)
  show "queue_wf q \<Longrightarrow> queue_elems q = [] \<Longrightarrow> SEC_OSAL_Dequeue q = Done None q"
    using ring_dequeue_empty by (metis queue_wf_ring)
  show "queue_wf q \<Longrightarrow> queue_elems q = x # xs \<Longrightarrow>
    \<exists>q'. SEC_OSAL_Dequeue q = Done (Some x) q' \<and> queue_wf q' \<and> queue_elems q' = xs"
    using ring_dequeue ring_list_wf by (metis queue_wf_ring)
qed

declare ring.len_cap [queue_rules] ring.elem_num [queue_rules]

section \<open>The freshly created ring\<close>

definition fresh_ring :: "ptr \<Rightarrow> ptr \<Rightarrow> 'a SEC_QUEUE" where
  "fresh_ring m b = \<lparr>q_first = Some b, q_last = Some b, numElem = 0, qMutex = Some m,
     q_heap = (chain_heap b (b + RING_SIZE))(b + RING_SIZE - 1 \<mapsto> \<lparr>qe_data = None, qNext = Some b\<rparr>)\<rparr>"

lemma fresh_ring_rel: "queue_rel (fresh_ring m b) []"
  using ring_of_chain [of "fresh_ring m b" b] by (auto simp: queue_rel_def fresh_ring_def)

lemma fresh_ring_wf [simp]: "queue_wf (fresh_ring m b)" "queue_elems (fresh_ring m b) = []"
  using fresh_ring_rel [of m b] queue_elems_rel by (auto simp: queue_wf_def)

text \<open>When no system call fails, creation yields this ring and accounts for its ten blocks.\<close>

lemma create_loop_ok:
  assumes "sys_answers os = []" "q_heap q = chain_heap b e" "b < e" "q_first q = Some b" "next_addr os = e"
  shows "queue_create_loop i (e - 1) q os = Done OMX_ErrorNone
     (q\<lparr>q_heap := (chain_heap b (e + i))(e + i - 1 \<mapsto> \<lparr>qe_data = None, qNext = Some b\<rparr>)\<rparr>,
      os\<lparr>mem_cnt := mem_cnt os + int i, live_blocks := live_blocks os + int i, next_addr := e + i\<rparr>)"
  using assms
proof (induction i arbitrary: q os e)
  case 0
  then have "q_heap q (e - 1) = Some \<lparr>qe_data = None, qNext = None\<rparr>"
    by (auto simp: chain_heap_def)
  with 0 show ?case by (simp add: fun_upd_def)
next
  case (Suc i)
  let ?q = "q\<lparr>q_heap := chain_heap b (Suc e)\<rparr>"
  let ?os = "os\<lparr>mem_cnt := mem_cnt os + 1, live_blocks := live_blocks os + 1, next_addr := e + 1\<rparr>"
  have tail: "q_heap q (e - 1) = Some \<lparr>qe_data = None, qNext = None\<rparr>"
    using Suc.prems by (auto simp: chain_heap_def)
  have "queue_create_loop (Suc i) (e - 1) q os = queue_create_loop i (Suc e - 1) ?q ?os"
    using Suc.prems tail by (simp add: Malloc_ok chain_heap_extend)
  also have "\<dots> = Done OMX_ErrorNone
     (?q\<lparr>q_heap := (chain_heap b (Suc e + i))(Suc e + i - 1 \<mapsto> \<lparr>qe_data = None, qNext = Some b\<rparr>)\<rparr>,
      ?os\<lparr>mem_cnt := mem_cnt ?os + int i, live_blocks := live_blocks ?os + int i, next_addr := Suc e + i\<rparr>)"
    using Suc.prems by (intro Suc.IH) simp_all
  finally show ?case by (simp add: fun_upd_def)
qed

lemma QueueCreate_ok [osal_rules]:
  assumes "sys_answers os = []"
  shows "SEC_OSAL_QueueCreate q os = Done OMX_ErrorNone
     (fresh_ring (next_addr os) (next_addr os + 1),
      os\<lparr>mem_cnt := mem_cnt os + 10, live_blocks := live_blocks os + 10, next_addr := next_addr os + 10\<rparr>)"
proof -
  let ?b = "Suc (next_addr os)"
  let ?q = "q\<lparr>qMutex := Some (next_addr os), q_first := Some ?b, q_last := Some ?b, numElem := 0,
              q_heap := chain_heap ?b (Suc ?b)\<rparr>"
  let ?os = "os\<lparr>mem_cnt := mem_cnt os + 2, live_blocks := live_blocks os + 2, next_addr := Suc ?b\<rparr>"
  have "SEC_OSAL_QueueCreate q os = queue_create_loop 8 (Suc ?b - 1) ?q ?os"
    using assms by (simp add: SEC_OSAL_QueueCreate_def SEC_OSAL_MutexCreate_def Malloc_ok sys_call_ok
        MAX_QUEUE_ELEMENTS_def chain_heap_single add.commute)
  also have "\<dots> = Done OMX_ErrorNone
     (?q\<lparr>q_heap := (chain_heap ?b (Suc ?b + 8))(Suc ?b + 8 - 1 \<mapsto> \<lparr>qe_data = None, qNext = Some ?b\<rparr>)\<rparr>,
      ?os\<lparr>mem_cnt := mem_cnt ?os + int 8, live_blocks := live_blocks ?os + int 8, next_addr := Suc ?b + 8\<rparr>)"
    using assms by (intro create_loop_ok) simp_all
  finally show ?thesis by (simp add: fresh_ring_def RING_SIZE_def add.commute)
qed

section \<open>Properties\<close>

text \<open>C2. The ring is a first-in first-out queue of at most nine elements: on a queue that holds
  the list \<open>xs\<close>, \<open>SEC_OSAL_GetElemNum\<close> is its length, \<open>SEC_OSAL_Queue\<close> appends the element
  and returns 0 as long as fewer than nine are held and otherwise returns -1 and changes
  nothing, and \<open>SEC_OSAL_Dequeue\<close> returns NULL and changes nothing on the empty queue and
  otherwise takes off the oldest element.\<close>

theorem queue_refines_fifo:
  assumes "queue_rel q xs"
  shows "SEC_OSAL_GetElemNum q = int (length xs) \<and> length xs \<le> RING_SIZE \<and>
    (if length xs < RING_SIZE
     then \<exists>q'. SEC_OSAL_Queue q (Some x) = Done 0 q' \<and> queue_rel q' (xs @ [x])
     else SEC_OSAL_Queue q (Some x) = Done (-1) q) \<and>
    (case xs of
       [] \<Rightarrow> SEC_OSAL_Dequeue q = Done None q
     | y # ys \<Rightarrow> \<exists>q'. SEC_OSAL_Dequeue q = Done (Some y) q' \<and> queue_rel q' ys)"
proof -
  have wf: "queue_wf q" and el: "queue_elems q = xs"
    using assms queue_elems_rel by (auto simp: queue_wf_def)
  have len: "SEC_OSAL_GetElemNum q = int (length xs)" "length xs \<le> RING_SIZE"
    using ring.elem_num [OF wf] ring.len_cap [OF wf] by (simp_all add: el)
  have enq: "if length xs < RING_SIZE
     then \<exists>q'. SEC_OSAL_Queue q (Some x) = Done 0 q' \<and> queue_rel q' (xs @ [x])
     else SEC_OSAL_Queue q (Some x) = Done (-1) q"
    using ring.enq_room [OF wf, of x] ring.enq_full [OF wf, of x] len(2)
    by (auto simp: el queue_wf_rel)
  have deq: "case xs of
       [] \<Rightarrow> SEC_OSAL_Dequeue q = Done None q
     | y # ys \<Rightarrow> \<exists>q'. SEC_OSAL_Dequeue q = Done (Some y) q' \<and> queue_rel q' ys"
    using ring.deq_none [OF wf] ring.deq_some [OF wf]
    by (auto simp: el queue_wf_rel split: list.split)
  show ?thesis using len enq deq by blast
qed

theorem queue_refines_fifo_witness:
  "queue_rel (fresh_ring 1 2 :: nat SEC_QUEUE) [] \<and>
   (\<exists>q'. SEC_OSAL_Queue (fresh_ring 1 2) (Some (7::nat)) = Done 0 q' \<and> queue_rel q' [7])"
  using queue_refines_fifo [OF fresh_ring_rel [of 1 2], of "7::nat"] fresh_ring_rel [of 1 2]
  by (simp add: RING_SIZE_def)

text \<open>C2. \<open>SEC_OSAL_QueueCreate\<close> applied to a zeroed queue always returns, whatever the
  system calls answer. If it succeeds the queue is an empty ring that owns ten blocks, and
  \<open>SEC_OSAL_QueueTerminate\<close>, called when the queue holds any list, returns all ten. If it fails
  after the mutex was made, the nodes are released and \<open>first\<close> is NULL, but the block of the
  mutex stays allocated.\<close>

theorem queue_create_terminate_blocks:
  "\<exists>ret q' os'. SEC_OSAL_QueueCreate (zero_QUEUE :: 'a SEC_QUEUE) os = Done ret (q', os') \<and>
    (if ret = OMX_ErrorNone
     then queue_rel q' [] \<and> live_blocks os' = live_blocks os + 10
     else live_blocks os' = live_blocks os + (if qMutex q' = None then 0 else 1) \<and> q_first q' = None) \<and>
    (\<forall>q (xs :: 'a list) os. queue_rel q xs \<longrightarrow>
      (\<exists>q'' os''. SEC_OSAL_QueueTerminate q os = Done OMX_ErrorNone (q'', os'') \<and>
        q_heap q'' = Map.empty \<and> live_blocks os'' = live_blocks os - 10))"
proof -
  have z: "qMutex (zero_QUEUE :: 'a SEC_QUEUE) = None" "q_first (zero_QUEUE :: 'a SEC_QUEUE) = None"
    by (simp_all add: zero_QUEUE_def)
  have t: "\<forall>q (xs :: 'a list) os. queue_rel q xs \<longrightarrow>
      (\<exists>q'' os''. SEC_OSAL_QueueTerminate q os = Done OMX_ErrorNone (q'', os'') \<and>
        q_heap q'' = Map.empty \<and> live_blocks os'' = live_blocks os - 10)"
    using QueueTerminate_rel by (fastforce simp: RING_SIZE_def)
  show ?thesis
    by (rule QueueCreate_cases [OF z, of os]) (use t in \<open>auto simp: RING_SIZE_def\<close>)
qed

theorem queue_create_terminate_witness:
  "\<exists>q'' os''. SEC_OSAL_QueueTerminate (fresh_ring 1 2 :: nat SEC_QUEUE)
      \<lparr>sys_answers = [], mem_cnt = 10, live_blocks = 10, next_addr = 11\<rparr> = Done OMX_ErrorNone (q'', os'') \<and>
    q_heap q'' = Map.empty \<and> live_blocks os'' = 0"
  using queue_create_terminate_blocks [where 'a = nat] fresh_ring_rel [of 1 2, where 'a = nat]
  by fastforce

end
