(* ===== verification/OMX_Base.thy ===== *)
theory OMX_Base
  imports SEC_Queue
begin

text \<open>
  The data of a Samsung OMX component: \<open>SEC_OMX_Basecomponent.h\<close>, \<open>SEC_OMX_Baseport.h\<close>,
  \<open>SEC_OMX_Def.h\<close> and the port macros of \<open>SEC_OMX_Macros.h\<close>.

  Buffer headers are shared between the component and its client, so they live in a heap
  \<open>hdr_heap\<close> and are named by address everywhere. Calls into the client and into a tunneled
  component are recorded, in order, in \<open>cb_trace\<close>. The codec functions a component installs
  in its \<open>sec_...\<close> members are not fields of the record: the operations that call them take
  them as arguments.

  Field names that several C structures share carry a prefix: \<open>db\<close> for
  \<open>SEC_OMX_DATABUFFER\<close>, \<open>pr\<close> for \<open>SEC_OMX_DATA\<close>, \<open>cp\<close> for the component priority.
\<close>

section \<open>Constants\<close>

definition BUFFER_STATE_ALLOCATED :: u32 where "BUFFER_STATE_ALLOCATED = 1"
definition BUFFER_STATE_ASSIGNED :: u32 where "BUFFER_STATE_ASSIGNED = 2"
definition HEADER_STATE_ALLOCATED :: u32 where "HEADER_STATE_ALLOCATED = 4"
definition BUFFER_STATE_FREE :: u32 where "BUFFER_STATE_FREE = 0"
definition MAX_BUFFER_NUM :: nat where "MAX_BUFFER_NUM = 20"
definition INPUT_PORT_INDEX :: int where "INPUT_PORT_INDEX = 0"
definition OUTPUT_PORT_INDEX :: int where "OUTPUT_PORT_INDEX = 1"
definition ALL_PORT_INDEX :: int where "ALL_PORT_INDEX = -1"
definition ALL_PORT_NUM :: nat where "ALL_PORT_NUM = 2"
definition MAX_TIMESTAMP :: nat where "MAX_TIMESTAMP = 17"
definition MAX_FLAGS :: nat where "MAX_FLAGS = 17"
definition SEC_TUNNEL_ESTABLISHED :: u32 where "SEC_TUNNEL_ESTABLISHED = 1"
definition SEC_TUNNEL_IS_SUPPLIER :: u32 where "SEC_TUNNEL_IS_SUPPLIER = 2"
definition OMX_StateMax :: OMX_STATETYPE where "OMX_StateMax = OMX_StateOther 0x7FFFFFFF"

lemmas port_index_defs = INPUT_PORT_INDEX_def OUTPUT_PORT_INDEX_def ALL_PORT_INDEX_def ALL_PORT_NUM_def

datatype SEC_CODEC_TYPE =
  SW_CODEC | HW_VIDEO_DEC_CODEC | HW_VIDEO_ENC_CODEC | HW_AUDIO_DEC_CODEC | HW_AUDIO_ENC_CODEC

datatype SEC_OMX_TRANS_STATETYPE =
    SEC_OMX_TransStateInvalid
  | SEC_OMX_TransStateLoadedToIdle
  | SEC_OMX_TransStateIdleToExecuting
  | SEC_OMX_TransStateExecutingToIdle
  | SEC_OMX_TransStateIdleToLoaded
  | SEC_OMX_TransStateMax

section \<open>Messages\<close>

text \<open>What a message points to: nothing, a buffer header, or the mark of a mark command.\<close>

datatype cmd_data = CmdNull | CmdHeader ptr | CmdMark OMX_MARKTYPE

record SEC_OMX_MESSAGE =
  messageType :: OMX_COMMANDTYPE
  messageParam :: u32
  pCmdData :: cmd_data

text \<open>The queues hold untyped pointers: a message, or (\<open>SEC_OMX_FlushPort\<close>) a port.\<close>

datatype queue_item = QMsg SEC_OMX_MESSAGE | QPort

section \<open>Ports\<close>

text \<open>The crop rectangle; its offsets are signed words.\<close>

record OMX_CONFIG_RECTTYPE = omx_struct +
  rc_nPortIndex :: u32
  rc_nLeft :: u32
  rc_nTop :: u32
  rc_nWidth :: u32
  rc_nHeight :: u32

text \<open>The arrays \<open>bufferHeader\<close> and \<open>bufferStateAllocate\<close> are lists, empty for NULL.\<close>

record SEC_OMX_BASEPORT =
  bufferHeader :: "ptr option list"
  bufferStateAllocate :: "u32 list"
  portDefinition :: OMX_PARAM_PORTDEFINITIONTYPE
  bufferSemID :: sema
  bufferQ :: "queue_item SEC_QUEUE"
  assignedBufferNum :: u32
  portState :: OMX_STATETYPE
  loadedResource :: sema
  unloadedResource :: sema
  bIsPortFlushed :: bool
  bIsPortDisabled :: bool
  markType :: OMX_MARKTYPE
  cropRectangle :: OMX_CONFIG_RECTTYPE
  tunneledComponent :: "ptr option"
  tunneledPort :: u32
  tunnelBufferNum :: u32
  bufferSupplier :: OMX_BUFFERSUPPLIERTYPE
  tunnelFlags :: u32
  bIsANBEnabled :: bool
  bStoreMetaData :: bool

definition CHECK_PORT_BEING_FLUSHED :: "SEC_OMX_BASEPORT \<Rightarrow> bool" where
  "CHECK_PORT_BEING_FLUSHED port = bIsPortFlushed port"

definition CHECK_PORT_BEING_DISABLED :: "SEC_OMX_BASEPORT \<Rightarrow> bool" where
  "CHECK_PORT_BEING_DISABLED port = bIsPortDisabled port"

definition CHECK_PORT_ENABLED :: "SEC_OMX_BASEPORT \<Rightarrow> bool" where
  "CHECK_PORT_ENABLED port = bEnabled (portDefinition port)"

definition CHECK_PORT_POPULATED :: "SEC_OMX_BASEPORT \<Rightarrow> bool" where
  "CHECK_PORT_POPULATED port = bPopulated (portDefinition port)"

definition CHECK_PORT_TUNNELED :: "SEC_OMX_BASEPORT \<Rightarrow> bool" where
  "CHECK_PORT_TUNNELED port = (and (tunnelFlags port) SEC_TUNNEL_ESTABLISHED \<noteq> 0)"

definition CHECK_PORT_BUFFER_SUPPLIER :: "SEC_OMX_BASEPORT \<Rightarrow> bool" where
  "CHECK_PORT_BUFFER_SUPPLIER port = (and (tunnelFlags port) SEC_TUNNEL_IS_SUPPLIER \<noteq> 0)"

lemmas check_port_defs =
  CHECK_PORT_BEING_FLUSHED_def CHECK_PORT_BEING_DISABLED_def CHECK_PORT_ENABLED_def
  CHECK_PORT_POPULATED_def CHECK_PORT_TUNNELED_def CHECK_PORT_BUFFER_SUPPLIER_def

section \<open>Components\<close>

record SEC_OMX_DATABUFFER =
  bufferMutex :: "ptr option"
  db_bufferHeader :: "ptr option"
  dataValid :: bool
  db_allocSize :: u32
  db_dataLen :: u32
  db_usedDataLen :: u32
  db_remainDataLen :: u32
  db_nFlags :: u32
  db_timeStamp :: u64

record SEC_OMX_DATA =
  pr_dataBuffer :: "ptr option"
  pr_allocSize :: u32
  pr_dataLen :: u32
  pr_usedDataLen :: u32
  pr_remainDataLen :: u32
  pr_previousDataLen :: u32
  pr_nFlags :: u32
  pr_timeStamp :: u64

record SEC_OMX_TIMESTAMP =
  needSetStartTimeStamp :: bool
  needCheckStartTimeStamp :: bool
  startTimeStamp :: u64
  nStartFlags :: u32

record SEC_OMX_PRIORITYMGMTTYPE =
  cp_nGroupPriority :: u32
  cp_nGroupID :: u32

record OMXComponentCapabilityFlagsType =
  iIsOMXComponentMultiThreaded :: bool
  iOMXComponentSupportsExternalOutputBufferAlloc :: bool
  iOMXComponentSupportsExternalInputBufferAlloc :: bool
  iOMXComponentSupportsMovableInputBuffers :: bool
  iOMXComponentSupportsPartialFrames :: bool
  iOMXComponentUsesNALStartCodes :: bool
  iOMXComponentCanHandleIncompleteFrames :: bool
  iOMXComponentUsesFullAVCFrames :: bool

text \<open>
  \<open>SEC_OMX_ComponentStateSet\<close> releases the pause event without clearing the pointer;
  \<open>pauseEventFreed\<close> says that \<open>pauseEvent\<close> is such a dangling pointer.
\<close>

record SEC_OMX_BASECOMPONENT =
  componentName :: string
  componentVersion :: OMX_VERSIONTYPE
  specVersion :: OMX_VERSIONTYPE
  currentState :: OMX_STATETYPE
  transientState :: SEC_OMX_TRANS_STATETYPE
  codecType :: SEC_CODEC_TYPE
  compPriority :: SEC_OMX_PRIORITYMGMTTYPE
  propagateMarkType :: OMX_MARKTYPE
  compMutex :: "ptr option"
  hComponentHandle :: "ptr option"
  capabilityFlags :: OMXComponentCapabilityFlagsType
  bExitMessageHandlerThread :: bool
  hMessageHandler :: "ptr option"
  msgSemaphoreHandle :: sema
  messageQ :: "queue_item SEC_QUEUE"
  bExitBufferProcessThread :: bool
  hBufferProcess :: "ptr option"
  secDataBuffer :: "SEC_OMX_DATABUFFER list"
  processData :: "SEC_OMX_DATA list"
  portParam :: OMX_PORT_PARAM_TYPE
  pSECPort :: "SEC_OMX_BASEPORT list"
  pauseEvent :: event
  pauseEventFreed :: bool
  pCallbacks :: "ptr option"
  callbackData :: "ptr option"
  timeStamp :: "u64 list"
  checkTimeStamp :: SEC_OMX_TIMESTAMP
  nFlags :: "u32 list"
  getAllDelayBuffer :: bool
  remainOutputData :: bool
  reInputData :: bool
  bUseFlagEOF :: bool
  bSaveFlagEOS :: bool

text \<open>
  The public handle: the header words, the private part and the entry points that are set
  (\<open>api\<close> lists the function pointers that are not NULL).
\<close>

datatype omx_method =
    M_GetComponentVersion | M_SendCommand | M_GetParameter | M_SetParameter | M_GetConfig
  | M_SetConfig | M_GetExtensionIndex | M_GetState | M_ComponentTunnelRequest | M_UseBuffer
  | M_AllocateBuffer | M_FreeBuffer | M_EmptyThisBuffer | M_FillThisBuffer | M_SetCallbacks
  | M_ComponentDeInit | M_UseEGLImage | M_ComponentRoleEnum

record OMX_COMPONENTTYPE = omx_struct +
  pComponentPrivate :: "SEC_OMX_BASECOMPONENT option"
  pApplicationPrivate :: "ptr option"
  api :: "omx_method list"

section \<open>Zero-filled structures\<close>

text \<open>What \<open>SEC_OSAL_Memset(p, 0, sizeof *p)\<close> leaves.\<close>

definition zero_VERSION :: OMX_VERSIONTYPE where
  "zero_VERSION = \<lparr>nVersionMajor = 0, nVersionMinor = 0, nRevision = 0, nStep = 0\<rparr>"

definition null_mark :: OMX_MARKTYPE where
  "null_mark = \<lparr>mark_hMarkTargetComponent = None, mark_pMarkData = None\<rparr>"

definition zero_VIDEO_PORTDEFINITION :: OMX_VIDEO_PORTDEFINITIONTYPE where
  "zero_VIDEO_PORTDEFINITION = \<lparr>cMIMEType = None, pNativeRender = None, nFrameWidth = 0,
     nFrameHeight = 0, nStride = 0, nSliceHeight = 0, nBitrate = 0, xFramerate = 0,
     bFlagErrorConcealment = False, eCompressionFormat = 0, eColorFormat = 0, pNativeWindow = None\<rparr>"

definition zero_PORTDEFINITION :: OMX_PARAM_PORTDEFINITIONTYPE where
  "zero_PORTDEFINITION = \<lparr>nSize = 0, nVersion = zero_VERSION, pd_nPortIndex = 0, eDir = OMX_DirInput,
     nBufferCountActual = 0, nBufferCountMin = 0, nBufferSize = 0, bEnabled = False,
     bPopulated = False, eDomain = OMX_PortDomainAudio, format_video = zero_VIDEO_PORTDEFINITION,
     bBuffersContiguous = False, nBufferAlignment = 0\<rparr>"

definition zero_BASEPORT :: SEC_OMX_BASEPORT where
  "zero_BASEPORT = \<lparr>bufferHeader = [], bufferStateAllocate = [], portDefinition = zero_PORTDEFINITION,
     bufferSemID = None, bufferQ = zero_QUEUE, assignedBufferNum = 0, portState = OMX_StateInvalid,
     loadedResource = None, unloadedResource = None, bIsPortFlushed = False, bIsPortDisabled = False,
     markType = null_mark,
     cropRectangle = \<lparr>nSize = 0, nVersion = zero_VERSION, rc_nPortIndex = 0, rc_nLeft = 0, rc_nTop = 0, rc_nWidth = 0, rc_nHeight = 0\<rparr>,
     tunneledComponent = None, tunneledPort = 0, tunnelBufferNum = 0,
     bufferSupplier = OMX_BufferSupplyUnspecified, tunnelFlags = 0,
     bIsANBEnabled = False, bStoreMetaData = False\<rparr>"

definition zero_DATABUFFER :: SEC_OMX_DATABUFFER where
  "zero_DATABUFFER = \<lparr>bufferMutex = None, db_bufferHeader = None, dataValid = False, db_allocSize = 0,
     db_dataLen = 0, db_usedDataLen = 0, db_remainDataLen = 0, db_nFlags = 0, db_timeStamp = 0\<rparr>"

definition zero_DATA :: SEC_OMX_DATA where
  "zero_DATA = \<lparr>pr_dataBuffer = None, pr_allocSize = 0, pr_dataLen = 0, pr_usedDataLen = 0,
     pr_remainDataLen = 0, pr_previousDataLen = 0, pr_nFlags = 0, pr_timeStamp = 0\<rparr>"

definition zero_capabilityFlags :: OMXComponentCapabilityFlagsType where
  "zero_capabilityFlags = \<lparr>iIsOMXComponentMultiThreaded = False,
     iOMXComponentSupportsExternalOutputBufferAlloc = False,
     iOMXComponentSupportsExternalInputBufferAlloc = False,
     iOMXComponentSupportsMovableInputBuffers = False, iOMXComponentSupportsPartialFrames = False,
     iOMXComponentUsesNALStartCodes = False, iOMXComponentCanHandleIncompleteFrames = False,
     iOMXComponentUsesFullAVCFrames = False\<rparr>"

definition zero_BASECOMPONENT :: SEC_OMX_BASECOMPONENT where
  "zero_BASECOMPONENT = \<lparr>componentName = [], componentVersion = zero_VERSION,
     specVersion = zero_VERSION, currentState = OMX_StateInvalid,
     transientState = SEC_OMX_TransStateInvalid, codecType = SW_CODEC,
     compPriority = \<lparr>cp_nGroupPriority = 0, cp_nGroupID = 0\<rparr>, propagateMarkType = null_mark,
     compMutex = None, hComponentHandle = None,
     capabilityFlags = zero_capabilityFlags, bExitMessageHandlerThread = False,
     hMessageHandler = None, msgSemaphoreHandle = None, messageQ = zero_QUEUE,
     bExitBufferProcessThread = False, hBufferProcess = None,
     secDataBuffer = replicate 2 zero_DATABUFFER, processData = replicate 2 zero_DATA,
     portParam = \<lparr>nSize = 0, nVersion = zero_VERSION, nPorts = 0, nStartPortNumber = 0\<rparr>,
     pSECPort = [], pauseEvent = None, pauseEventFreed = False, pCallbacks = None, callbackData = None,
     timeStamp = replicate MAX_TIMESTAMP 0,
     checkTimeStamp = \<lparr>needSetStartTimeStamp = False, needCheckStartTimeStamp = False,
                       startTimeStamp = 0, nStartFlags = 0\<rparr>,
     nFlags = replicate MAX_FLAGS 0, getAllDelayBuffer = False, remainOutputData = False,
     reInputData = False, bUseFlagEOF = False, bSaveFlagEOS = False\<rparr>"

section \<open>The environment of a component\<close>

datatype omx_callback =
    EventCmdComplete OMX_COMMANDTYPE u32
  | EventError OMX_ERRORTYPE u32
  | EventMark "ptr option"
  | EventPortSettingsChanged u32
  | EventBufferFlag u32 u32
  | EmptyBufferDone ptr
  | FillBufferDone ptr
  | TunnelEmptyThisBuffer ptr
  | TunnelFillThisBuffer ptr

record omx_env = osal_state +
  hdr_heap :: "ptr \<Rightarrow> OMX_BUFFERHEADERTYPE option"
  cb_trace :: "(ptr \<times> omx_callback) list"

type_synonym comp_state = "SEC_OMX_BASECOMPONENT \<times> omx_env"

definition record_call :: "ptr \<Rightarrow> omx_callback \<Rightarrow> omx_env \<Rightarrow> omx_env" where
  "record_call self cb e = e\<lparr>cb_trace := cb_trace e @ [(self, cb)]\<rparr>"

text \<open>A call through \<open>pSECComponent->pCallbacks\<close>, which the code does not test for NULL.\<close>

definition callback ::
  "ptr \<Rightarrow> omx_callback \<Rightarrow> SEC_OMX_BASECOMPONENT \<Rightarrow> omx_env \<Rightarrow> (unit, comp_state) outcome" where
  "callback self cb c e =
    (case pCallbacks c of None \<Rightarrow> Crash | Some _ \<Rightarrow> Done () (c, record_call self cb e))"

text \<open>\<open>&pSECComponent->pSECPort[i]\<close> followed by a read, and a write back.\<close>

definition port_at :: "SEC_OMX_BASECOMPONENT \<Rightarrow> int \<Rightarrow> SEC_OMX_BASEPORT option" where
  "port_at c i = array_at (pSECPort c) i"

definition set_port :: "int \<Rightarrow> SEC_OMX_BASEPORT \<Rightarrow> SEC_OMX_BASECOMPONENT \<Rightarrow> SEC_OMX_BASECOMPONENT" where
  "set_port i p c = c\<lparr>pSECPort := (pSECPort c)[nat i := p]\<rparr>"

text \<open>
  The prologue of the entry points: a NULL handle, a wrong size or version of the handle,
  and a NULL private part are rejected; otherwise the body runs on the private part.
  \<open>fail\<close> builds the result from the error code (entry points with an out parameter
  return it beside the code).
\<close>

definition entry_with ::
  "(OMX_ERRORTYPE \<Rightarrow> 'r) \<Rightarrow> OMX_COMPONENTTYPE option \<Rightarrow>
   (SEC_OMX_BASECOMPONENT \<Rightarrow> omx_env \<Rightarrow> ('r, comp_state) outcome) \<Rightarrow> omx_env \<Rightarrow>
   ('r, OMX_COMPONENTTYPE option \<times> omx_env) outcome" where
  "entry_with fail hComponent body e =
    (case hComponent of
       None \<Rightarrow> Done (fail OMX_ErrorBadParameter) (hComponent, e)
     | Some oc \<Rightarrow>
         let ret = SEC_OMX_Check_SizeVersion (Some oc) sizeof_OMX_COMPONENTTYPE in
         if ret \<noteq> OMX_ErrorNone then Done (fail ret) (hComponent, e)
         else (case pComponentPrivate oc of
                 None \<Rightarrow> Done (fail OMX_ErrorBadParameter) (hComponent, e)
               | Some c \<Rightarrow> map_state (\<lambda>(c', e'). (Some (oc\<lparr>pComponentPrivate := Some c'\<rparr>), e')) (body c e)))"

definition entry ::
  "OMX_COMPONENTTYPE option \<Rightarrow>
   (SEC_OMX_BASECOMPONENT \<Rightarrow> omx_env \<Rightarrow> (OMX_ERRORTYPE, comp_state) outcome) \<Rightarrow> omx_env \<Rightarrow>
   (OMX_ERRORTYPE, OMX_COMPONENTTYPE option \<times> omx_env) outcome" where
  "entry = entry_with (\<lambda>ret. ret)"

text \<open>
  A search loop \<open>for (; n > 0; i++, n--)\<close> that stops at the first index where the test
  holds. The test is \<open>None\<close> where evaluating it is undefined; then so is the search.
\<close>

primrec scan :: "(nat \<Rightarrow> bool option) \<Rightarrow> nat \<Rightarrow> nat \<Rightarrow> nat option option" where
  "scan P i 0 = Some None"
| "scan P i (Suc n) =
    (case P i of None \<Rightarrow> None
     | Some found \<Rightarrow> if found then Some (Some i) else scan P (Suc i) n)"

section \<open>Installed codec functions\<close>

text \<open>The members \<open>sec_...\<close> of the component that the base code calls.\<close>

record codec_ops =
  sec_mfc_componentInit ::
    "ptr \<Rightarrow> SEC_OMX_BASECOMPONENT \<Rightarrow> omx_env \<Rightarrow> (OMX_ERRORTYPE, comp_state) outcome"
  sec_mfc_componentTerminate ::
    "ptr \<Rightarrow> SEC_OMX_BASECOMPONENT \<Rightarrow> omx_env \<Rightarrow> (OMX_ERRORTYPE, comp_state) outcome"
  sec_AllocateTunnelBuffer :: "SEC_OMX_BASEPORT \<Rightarrow> int \<Rightarrow> OMX_ERRORTYPE \<times> SEC_OMX_BASEPORT"
  sec_FreeTunnelBuffer :: "SEC_OMX_BASEPORT \<Rightarrow> int \<Rightarrow> OMX_ERRORTYPE \<times> SEC_OMX_BASEPORT"
  sec_BufferReset ::
    "int \<Rightarrow> SEC_OMX_BASECOMPONENT \<Rightarrow> omx_env \<Rightarrow> (OMX_ERRORTYPE, comp_state) outcome"
  sec_InputBufferReturn ::
    "ptr \<Rightarrow> SEC_OMX_BASECOMPONENT \<Rightarrow> omx_env \<Rightarrow> (OMX_ERRORTYPE, comp_state) outcome"
  sec_OutputBufferReturn ::
    "ptr \<Rightarrow> SEC_OMX_BASECOMPONENT \<Rightarrow> omx_env \<Rightarrow> (OMX_ERRORTYPE, comp_state) outcome"

section \<open>Facts\<close>

text \<open>A handle that passes the checks.\<close>

definition valid_handle :: "OMX_COMPONENTTYPE \<Rightarrow> SEC_OMX_BASECOMPONENT \<Rightarrow> bool" where
  "valid_handle oc c \<longleftrightarrow>
     SEC_OMX_Check_SizeVersion (Some oc) sizeof_OMX_COMPONENTTYPE = OMX_ErrorNone \<and>
     pComponentPrivate oc = Some c"

lemma entry_with_valid:
  "valid_handle oc c \<Longrightarrow> entry_with fail (Some oc) body e =
     map_state (\<lambda>(c', e'). (Some (oc\<lparr>pComponentPrivate := Some c'\<rparr>), e')) (body c e)"
  by (simp add: entry_with_def valid_handle_def)

lemma entry_valid:
  "valid_handle oc c \<Longrightarrow> entry (Some oc) body e =
     map_state (\<lambda>(c', e'). (Some (oc\<lparr>pComponentPrivate := Some c'\<rparr>), e')) (body c e)"
  by (simp add: entry_def entry_with_valid)

lemma scan_found:
  assumes "\<forall>j<k. P (i + j) = Some False" "P (i + k) = Some True" "k < n"
  shows "scan P i n = Some (Some (i + k))"
  using assms
proof (induction n arbitrary: i k)
  case (Suc n)
  show ?case
  proof (cases k)
    case 0
    with Suc.prems show ?thesis by simp
  next
    case (Suc k')
    have "P i = Some False" using Suc.prems(1) Suc by force
    moreover have "scan P (Suc i) n = Some (Some (Suc i + k'))"
      using Suc.prems Suc by (intro Suc.IH) auto
    ultimately show ?thesis using Suc by simp
  qed
qed simp

lemma scan_not_found: "\<forall>j<n. P (i + j) = Some False \<Longrightarrow> scan P i n = Some None"
proof (induction n arbitrary: i)
  case (Suc n)
  have "P i = Some False" using Suc.prems by force
  moreover have "scan P (Suc i) n = Some None" using Suc.prems by (intro Suc.IH) force
  ultimately show ?case by simp
qed simp

lemma scan_undefined:
  assumes "\<forall>j<k. P (i + j) = Some False" "P (i + k) = None" "k < n"
  shows "scan P i n = None"
  using assms
proof (induction n arbitrary: i k)
  case (Suc n)
  show ?case
  proof (cases k)
    case 0
    with Suc.prems show ?thesis by simp
  next
    case (Suc k')
    have "P i = Some False" using Suc.prems(1) Suc by force
    moreover have "scan P (Suc i) n = None"
      using Suc.prems Suc by (intro Suc.IH [of k']) auto
    ultimately show ?thesis using Suc by simp
  qed
qed simp

lemma scan_SomeD:
  "scan P i n = Some (Some k) \<Longrightarrow>
   i \<le> k \<and> k < i + n \<and> P k = Some True \<and> (\<forall>j. i \<le> j \<and> j < k \<longrightarrow> P j = Some False)"
proof (induction n arbitrary: i)
  case (Suc n)
  show ?case
  proof (cases "P i")
    case (Some b)
    show ?thesis
    proof (cases b)
      case True
      with Some Suc.prems show ?thesis by auto
    next
      case False
      with Some Suc.prems have "scan P (Suc i) n = Some (Some k)" by simp
      from Suc.IH [OF this] have "Suc i \<le> k" "k < Suc i + n" "P k = Some True"
        and "\<And>j. Suc i \<le> j \<Longrightarrow> j < k \<Longrightarrow> P j = Some False" by auto
      then show ?thesis using Some False by (metis Suc_leD Suc_leI add_Suc_shift le_neq_implies_less)
    qed
  qed (use Suc.prems in simp)
qed simp

lemma port_at_set_port [simp]:
  "port_at c i = Some p0 \<Longrightarrow> port_at (set_port i p c) j = (if i = j then Some p else port_at c j)"
  by (auto simp: port_at_def set_port_def array_at_def split: if_splits)

lemma set_port_set_port [simp]: "set_port i p (set_port i p' c) = set_port i p c"
  by (simp add: set_port_def)

lemma set_port_same: "port_at c i = Some p \<Longrightarrow> set_port i p c = c"
  by (auto simp: port_at_def set_port_def array_at_def split: if_splits)

lemma callback_eq: "pCallbacks c = Some cb \<Longrightarrow> callback self ev c e = Done () (c, record_call self ev e)"
  by (simp add: callback_def)

lemma record_call_simps [simp]:
  "cb_trace (record_call self cb e) = cb_trace e @ [(self, cb)]"
  "hdr_heap (record_call self cb e) = hdr_heap e"
  "live_blocks (record_call self cb e) = live_blocks e"
  "sys_answers (record_call self cb e) = sys_answers e"
  by (simp_all add: record_call_def)

section \<open>A sample component\<close>

text \<open>
  A concrete video component with \<open>k\<close> buffer slots on each port, used to show that the
  hypotheses of the theorems can be met.
\<close>

definition sample_port :: "nat \<Rightarrow> ptr \<Rightarrow> SEC_OMX_BASEPORT" where
  "sample_port k a = zero_BASEPORT\<lparr>bufferHeader := replicate MAX_BUFFER_NUM None,
     bufferStateAllocate := replicate MAX_BUFFER_NUM BUFFER_STATE_FREE,
     portDefinition := zero_PORTDEFINITION\<lparr>nBufferCountActual := of_nat k, bEnabled := True\<rparr>,
     bufferSemID := Some 0, loadedResource := Some 0, unloadedResource := Some 0,
     bufferQ := fresh_ring a (a + 1)\<rparr>"

definition sample_component :: "nat \<Rightarrow> SEC_OMX_BASECOMPONENT" where
  "sample_component k = zero_BASECOMPONENT\<lparr>currentState := OMX_StateIdle,
     pSECPort := [sample_port k 100, sample_port k 200],
     portParam := (portParam zero_BASECOMPONENT)\<lparr>nPorts := 2\<rparr>,
     msgSemaphoreHandle := Some 0, messageQ := fresh_ring 300 301,
     pCallbacks := Some 1, pauseEvent := Some False, compMutex := Some 2\<rparr>"

definition sample_handle :: "SEC_OMX_BASECOMPONENT \<Rightarrow> OMX_COMPONENTTYPE" where
  "sample_handle c = \<lparr>nSize = sizeof_OMX_COMPONENTTYPE, nVersion = SEC_VERSION,
     pComponentPrivate = Some c, pApplicationPrivate = None, api = []\<rparr>"

definition sample_env :: omx_env where
  "sample_env = \<lparr>sys_answers = [], mem_cnt = 0, live_blocks = 0, next_addr = 1000,
     hdr_heap = Map.empty, cb_trace = []\<rparr>"

lemmas sample_defs = sample_port_def sample_component_def sample_env_def zero_BASEPORT_def
  zero_PORTDEFINITION_def zero_BASECOMPONENT_def

lemma sample_handle_valid [simp]: "valid_handle (sample_handle c) c"
  by (simp add: valid_handle_def sample_handle_def SEC_OMX_Check_SizeVersion_def SEC_VERSION_def)

lemmas sample_entry [simp] =
  entry_valid [OF sample_handle_valid] entry_with_valid [OF sample_handle_valid]

lemma sample_port_simps [simp]:
  "bufferHeader (sample_port k a) = replicate MAX_BUFFER_NUM None"
  "bufferStateAllocate (sample_port k a) = replicate MAX_BUFFER_NUM BUFFER_STATE_FREE"
  "nBufferCountActual (portDefinition (sample_port k a)) = of_nat k"
  "bEnabled (portDefinition (sample_port k a))"
  "\<not> bPopulated (portDefinition (sample_port k a))"
  "assignedBufferNum (sample_port k a) = 0"
  "bufferSemID (sample_port k a) = Some 0"
  "loadedResource (sample_port k a) = Some 0"
  "unloadedResource (sample_port k a) = Some 0"
  "bufferQ (sample_port k a) = fresh_ring a (a + 1)"
  "portState (sample_port k a) = OMX_StateInvalid"
  "tunnelFlags (sample_port k a) = 0"
  "bIsPortFlushed (sample_port k a) = False"
  "bIsPortDisabled (sample_port k a) = False"
  by (simp_all add: sample_defs)

lemma sample_component_simps [simp]:
  "currentState (sample_component k) = OMX_StateIdle"
  "pSECPort (sample_component k) = [sample_port k 100, sample_port k 200]"
  "nPorts (portParam (sample_component k)) = 2"
  "msgSemaphoreHandle (sample_component k) = Some 0"
  "messageQ (sample_component k) = fresh_ring 300 301"
  "pCallbacks (sample_component k) = Some 1"
  "pauseEvent (sample_component k) = Some False"
  "\<not> pauseEventFreed (sample_component k)"
  "secDataBuffer (sample_component k) = replicate 2 zero_DATABUFFER"
  "processData (sample_component k) = replicate 2 zero_DATA"
  "transientState (sample_component k) = SEC_OMX_TransStateInvalid"
  by (simp_all add: sample_component_def zero_BASECOMPONENT_def)

lemma sample_env_simps [simp]:
  "sys_answers sample_env = []" "live_blocks sample_env = 0" "next_addr sample_env = 1000"
  "hdr_heap sample_env = Map.empty" "cb_trace sample_env = []" "mem_cnt sample_env = 0"
  by (simp_all add: sample_env_def)

lemma sample_port_at [simp]:
  "port_at (sample_component k) 0 = Some (sample_port k 100)"
  "port_at (sample_component k) 1 = Some (sample_port k 200)"
  by (simp_all add: port_at_def array_at_def)

lemma untunneled_simps [simp]:
  "tunnelFlags p = 0 \<Longrightarrow> \<not> CHECK_PORT_TUNNELED p"
  "tunnelFlags p = 0 \<Longrightarrow> \<not> CHECK_PORT_BUFFER_SUPPLIER p"
  by (simp_all add: check_port_defs)

end
