(* ===== verification/SEC_Vdec_Buffers.thy ===== *)
theory SEC_Vdec_Buffers
  imports OMX_Base
begin

text \<open>
  The buffer management a video decoder installs in its component
  (\<open>component/video/dec/SEC_OMX_Vdec.c\<close>): returning the input and the output buffer the
  component holds, taking the next buffer from a port queue, and populating and
  depopulating a port with \<open>UseBuffer\<close>, \<open>AllocateBuffer\<close> and \<open>FreeBuffer\<close>.
\<close>

section \<open>The buffers a component holds\<close>

definition OMX_BUFFERFLAG_EOS :: u32 where "OMX_BUFFERFLAG_EOS = 1"

definition upd_hdr :: "ptr \<Rightarrow> OMX_BUFFERHEADERTYPE \<Rightarrow> omx_env \<Rightarrow> omx_env" where
  "upd_hdr h bh e = e\<lparr>hdr_heap := (hdr_heap e)(h \<mapsto> bh)\<rparr>"

definition reset_dataBuffer :: "SEC_OMX_DATABUFFER \<Rightarrow> SEC_OMX_DATABUFFER" where
  "reset_dataBuffer db = db\<lparr>dataValid := False, db_dataLen := 0, db_remainDataLen := 0,
     db_usedDataLen := 0, db_bufferHeader := None, db_nFlags := 0, db_timeStamp := 0\<rparr>"

definition set_dataBuffer :: "int \<Rightarrow> SEC_OMX_DATABUFFER \<Rightarrow> SEC_OMX_BASECOMPONENT \<Rightarrow> SEC_OMX_BASECOMPONENT" where
  "set_dataBuffer i db c = c\<lparr>secDataBuffer := (secDataBuffer c)[nat i := db]\<rparr>"

definition set_processData :: "int \<Rightarrow> SEC_OMX_DATA \<Rightarrow> SEC_OMX_BASECOMPONENT \<Rightarrow> SEC_OMX_BASECOMPONENT" where
  "set_processData i d c = c\<lparr>processData := (processData c)[nat i := d]\<rparr>"

definition SEC_BufferReset ::
  "int \<Rightarrow> SEC_OMX_BASECOMPONENT \<Rightarrow> omx_env \<Rightarrow> (OMX_ERRORTYPE, comp_state) outcome" where
  "SEC_BufferReset portIndex c e =
    (case array_at (secDataBuffer c) portIndex of
       None \<Rightarrow> Crash
     | Some db \<Rightarrow> Done OMX_ErrorNone (set_dataBuffer portIndex (reset_dataBuffer db) c, e))"

definition SEC_DataReset ::
  "int \<Rightarrow> SEC_OMX_BASECOMPONENT \<Rightarrow> omx_env \<Rightarrow> (OMX_ERRORTYPE, comp_state) outcome" where
  "SEC_DataReset portIndex c e =
    (case array_at (processData c) portIndex of
       None \<Rightarrow> Crash
     | Some d \<Rightarrow> Done OMX_ErrorNone
         (set_processData portIndex (d\<lparr>pr_dataLen := 0, pr_remainDataLen := 0, pr_usedDataLen := 0,
            pr_nFlags := 0, pr_timeStamp := 0\<rparr>) c, e))"

text \<open>
  In the paused state the buffer is given back but the caller is held until the pause
  event is set, unless one of the ports is being flushed.
\<close>

definition pause_wait ::
  "SEC_OMX_BASEPORT \<Rightarrow> SEC_OMX_BASEPORT \<Rightarrow> SEC_OMX_BASECOMPONENT \<Rightarrow> (OMX_ERRORTYPE, event) outcome" where
  "pause_wait pin pout c =
    (if currentState c = OMX_StatePause \<and>
        (\<not> CHECK_PORT_BEING_FLUSHED pin \<and> \<not> CHECK_PORT_BEING_FLUSHED pout)
     then bindO (SEC_OSAL_SignalWait (pauseEvent c) DEF_MAX_WAIT_TIME False)
                (\<lambda>_ ev. Done OMX_ErrorNone (snd (SEC_OSAL_SignalReset ev)))
     else Done OMX_ErrorNone (pauseEvent c))"

text \<open>The mark of the port, if any, is attached to the buffer that goes back.\<close>

definition attach_mark :: "OMX_MARKTYPE \<Rightarrow> OMX_BUFFERHEADERTYPE \<Rightarrow> OMX_BUFFERHEADERTYPE" where
  "attach_mark m bh = (if mark_hMarkTargetComponent m \<noteq> None
     then bh\<lparr>hMarkTargetComponent := mark_hMarkTargetComponent m, pMarkData := mark_pMarkData m\<rparr>
     else bh)"

definition take_mark :: "OMX_MARKTYPE \<Rightarrow> OMX_MARKTYPE" where
  "take_mark m = (if mark_hMarkTargetComponent m \<noteq> None then null_mark else m)"

text \<open>The part of \<open>SEC_InputBufferReturn\<close> that hands the held header \<open>h\<close> back.\<close>

definition input_header_return ::
  "ptr \<Rightarrow> ptr \<Rightarrow> SEC_OMX_BASEPORT \<Rightarrow> SEC_OMX_BASECOMPONENT \<Rightarrow> omx_env \<Rightarrow> (unit, comp_state) outcome" where
  "input_header_return self h pin c e =
    (case hdr_heap e h of
       None \<Rightarrow> Crash
     | Some bh0 \<Rightarrow>
         let bh = attach_mark (markType pin) bh0;
             c1 = set_port INPUT_PORT_INDEX (pin\<lparr>markType := take_mark (markType pin)\<rparr>) c;
             e1 = upd_hdr h bh e in
         bindO (case hMarkTargetComponent bh of
                  None \<Rightarrow> Done () (c1, e1)
                | Some t \<Rightarrow>
                    if t = self then callback self (EventMark (pMarkData bh)) c1 e1
                    else Done () (c1\<lparr>propagateMarkType :=
                           \<lparr>mark_hMarkTargetComponent = Some t, mark_pMarkData = pMarkData bh\<rparr>\<rparr>, e1))
           (\<lambda>_ (c2, e2).
             if CHECK_PORT_TUNNELED pin then Done () (c2, record_call self (TunnelFillThisBuffer h) e2)
             else callback self (EmptyBufferDone h) c2 (upd_hdr h (bh\<lparr>nFilledLen := 0\<rparr>) e2)))"

definition SEC_InputBufferReturn ::
  "ptr \<Rightarrow> SEC_OMX_BASECOMPONENT \<Rightarrow> omx_env \<Rightarrow> (OMX_ERRORTYPE, comp_state) outcome" where
  "SEC_InputBufferReturn self c e =
    (case (port_at c INPUT_PORT_INDEX, port_at c OUTPUT_PORT_INDEX,
           array_at (secDataBuffer c) INPUT_PORT_INDEX) of
       (Some pin, Some pout, Some db) \<Rightarrow>
         bindO (case db_bufferHeader db of
                  None \<Rightarrow> Done () (c, e)
                | Some h \<Rightarrow> input_header_return self h pin c e)
           (\<lambda>_ (c1, e1).
             bindO (pause_wait pin pout c1) (\<lambda>_ ev.
               Done OMX_ErrorNone
                 (set_dataBuffer INPUT_PORT_INDEX (reset_dataBuffer db) (c1\<lparr>pauseEvent := ev\<rparr>), e1)))
     | _ \<Rightarrow> Crash)"

definition output_header_return ::
  "ptr \<Rightarrow> ptr \<Rightarrow> SEC_OMX_DATABUFFER \<Rightarrow> SEC_OMX_BASEPORT \<Rightarrow> SEC_OMX_BASECOMPONENT \<Rightarrow> omx_env \<Rightarrow>
   (unit, comp_state) outcome" where
  "output_header_return self h db pout c e =
    (case hdr_heap e h of
       None \<Rightarrow> Crash
     | Some bh0 \<Rightarrow>
         let bh1 = bh0\<lparr>nFilledLen := db_remainDataLen db, nOffset := 0, hdr_nFlags := db_nFlags db,
                       nTimeStamp := db_timeStamp db\<rparr>;
             bh = attach_mark (propagateMarkType c) bh1;
             c1 = c\<lparr>propagateMarkType := take_mark (propagateMarkType c)\<rparr>;
             e1 = upd_hdr h bh e in
         bindO (if and (hdr_nFlags bh) OMX_BUFFERFLAG_EOS \<noteq> 0
                then callback self (EventBufferFlag (word_of_int OUTPUT_PORT_INDEX) (hdr_nFlags bh)) c1 e1
                else Done () (c1, e1))
           (\<lambda>_ (c2, e2).
             if CHECK_PORT_TUNNELED pout then Done () (c2, record_call self (TunnelEmptyThisBuffer h) e2)
             else callback self (FillBufferDone h) c2 e2))"

definition SEC_OutputBufferReturn ::
  "ptr \<Rightarrow> SEC_OMX_BASECOMPONENT \<Rightarrow> omx_env \<Rightarrow> (OMX_ERRORTYPE, comp_state) outcome" where
  "SEC_OutputBufferReturn self c e =
    (case (port_at c INPUT_PORT_INDEX, port_at c OUTPUT_PORT_INDEX,
           array_at (secDataBuffer c) OUTPUT_PORT_INDEX) of
       (Some pin, Some pout, Some db) \<Rightarrow>
         bindO (case db_bufferHeader db of
                  None \<Rightarrow> Done () (c, e)
                | Some h \<Rightarrow> output_header_return self h db pout c e)
           (\<lambda>_ (c1, e1).
             bindO (pause_wait pin pout c1) (\<lambda>_ ev.
               Done OMX_ErrorNone
                 (set_dataBuffer OUTPUT_PORT_INDEX (reset_dataBuffer db) (c1\<lparr>pauseEvent := ev\<rparr>), e1)))
     | _ \<Rightarrow> Crash)"

section \<open>Taking the next buffer from a port\<close>

text \<open>The header a dequeued item points to; \<open>None\<close> where following the pointers is undefined.\<close>

definition item_header :: "omx_env \<Rightarrow> queue_item \<Rightarrow> (ptr \<times> OMX_BUFFERHEADERTYPE) option" where
  "item_header e item =
    (case item of
       QPort \<Rightarrow> None
     | QMsg m \<Rightarrow>
         (case pCmdData m of
            CmdHeader h \<Rightarrow> map_option (\<lambda>bh. (h, bh)) (hdr_heap e h)
          | _ \<Rightarrow> None))"

definition SEC_InputBufferGetQueue ::
  "SEC_OMX_BASECOMPONENT \<Rightarrow> omx_env \<Rightarrow> (OMX_ERRORTYPE, comp_state) outcome" where
  "SEC_InputBufferGetQueue c e =
    (case (port_at c INPUT_PORT_INDEX, array_at (secDataBuffer c) INPUT_PORT_INDEX) of
       (Some p, Some db) \<Rightarrow>
         if currentState c \<noteq> OMX_StateExecuting then Done OMX_ErrorUndefined (c, e)
         else bindO (SEC_OSAL_SemaphoreWait (bufferSemID p)) (\<lambda>_ sem.
           if dataValid db then Done OMX_ErrorNone (set_port INPUT_PORT_INDEX (p\<lparr>bufferSemID := sem\<rparr>) c, e)
           else bindO (SEC_OSAL_Dequeue (bufferQ p)) (\<lambda>item q.
             let c1 = set_port INPUT_PORT_INDEX (p\<lparr>bufferSemID := sem, bufferQ := q\<rparr>) c in
             case item of
               None \<Rightarrow> Done OMX_ErrorUndefined (c1, e)
             | Some it \<Rightarrow>
                 (case item_header e it of
                    None \<Rightarrow> Crash
                  | Some (h, bh) \<Rightarrow>
                      Done OMX_ErrorNone
                        (set_dataBuffer INPUT_PORT_INDEX
                           (db\<lparr>db_bufferHeader := Some h, db_allocSize := nAllocLen bh,
                               db_dataLen := nFilledLen bh, db_remainDataLen := nFilledLen bh,
                               db_usedDataLen := 0, dataValid := True, db_nFlags := hdr_nFlags bh,
                               db_timeStamp := nTimeStamp bh\<rparr>) c1,
                         SEC_OSAL_Free (Some it) e))))
     | _ \<Rightarrow> Crash)"

definition SEC_OutputBufferGetQueue ::
  "SEC_OMX_BASECOMPONENT \<Rightarrow> omx_env \<Rightarrow> (OMX_ERRORTYPE, comp_state) outcome" where
  "SEC_OutputBufferGetQueue c e =
    (case (port_at c OUTPUT_PORT_INDEX, array_at (secDataBuffer c) OUTPUT_PORT_INDEX,
           array_at (processData c) OUTPUT_PORT_INDEX) of
       (Some p, Some db, Some pd) \<Rightarrow>
         if currentState c \<noteq> OMX_StateExecuting then Done OMX_ErrorUndefined (c, e)
         else bindO (SEC_OSAL_SemaphoreWait (bufferSemID p)) (\<lambda>_ sem.
           if dataValid db then Done OMX_ErrorNone (set_port OUTPUT_PORT_INDEX (p\<lparr>bufferSemID := sem\<rparr>) c, e)
           else bindO (SEC_OSAL_Dequeue (bufferQ p)) (\<lambda>item q.
             let c1 = set_port OUTPUT_PORT_INDEX (p\<lparr>bufferSemID := sem, bufferQ := q\<rparr>) c in
             case item of
               None \<Rightarrow> Done OMX_ErrorUndefined (c1, e)
             | Some it \<Rightarrow>
                 (case item_header e it of
                    None \<Rightarrow> Crash
                  | Some (h, bh) \<Rightarrow>
                      Done OMX_ErrorNone
                        (set_processData OUTPUT_PORT_INDEX
                           (pd\<lparr>pr_dataBuffer := pBuffer bh, pr_allocSize := nAllocLen bh\<rparr>)
                           (set_dataBuffer OUTPUT_PORT_INDEX
                             (db\<lparr>db_bufferHeader := Some h, db_allocSize := nAllocLen bh,
                                 db_dataLen := 0, db_remainDataLen := 0,
                                 db_usedDataLen := 0, dataValid := True\<rparr>) c1),
                         SEC_OSAL_Free (Some it) e))))
     | _ \<Rightarrow> Crash)"

definition SEC_Check_BufferProcess_State :: "SEC_OMX_BASECOMPONENT \<Rightarrow> bool option" where
  "SEC_Check_BufferProcess_State c =
    (case (port_at c INPUT_PORT_INDEX, port_at c OUTPUT_PORT_INDEX) of
       (Some pin, Some pout) \<Rightarrow>
         Some (currentState c = OMX_StateExecuting \<and> portState pin = OMX_StateIdle \<and>
               portState pout = OMX_StateIdle \<and>
               transientState c \<noteq> SEC_OMX_TransStateExecutingToIdle \<and>
               transientState c \<noteq> SEC_OMX_TransStateIdleToExecuting)
     | _ \<Rightarrow> None)"

section \<open>Populating and depopulating a port\<close>

definition zero_BUFFERHEADER :: OMX_BUFFERHEADERTYPE where
  "zero_BUFFERHEADER = \<lparr>nSize = 0, nVersion = zero_VERSION,
     pBuffer = None, nAllocLen = 0, nFilledLen = 0, nOffset = 0, pAppPrivate = None,
     pPlatformPrivate = None, pInputPortPrivate = None, pOutputPortPrivate = None,
     hMarkTargetComponent = None, pMarkData = None, nTickCount = 0, nTimeStamp = 0,
     hdr_nFlags = 0, nOutputPortIndex = 0, nInputPortIndex = 0\<rparr>"

text \<open>The header a client gets for a buffer of port \<open>nPortIndex\<close>.\<close>

definition fresh_header :: "u32 \<Rightarrow> ptr option \<Rightarrow> u32 \<Rightarrow> ptr option \<Rightarrow> OMX_BUFFERHEADERTYPE" where
  "fresh_header nPortIndex appPrivate nSizeBytes buffer =
    (let bh = (INIT_SET_SIZE_VERSION zero_BUFFERHEADER sizeof_OMX_BUFFERHEADERTYPE)
                \<lparr>pBuffer := buffer, nAllocLen := nSizeBytes, pAppPrivate := appPrivate\<rparr>
     in if uint nPortIndex = INPUT_PORT_INDEX
        then bh\<lparr>nInputPortIndex := word_of_int INPUT_PORT_INDEX\<rparr>
        else bh\<lparr>nOutputPortIndex := word_of_int OUTPUT_PORT_INDEX\<rparr>)"

text \<open>The first free slot of a port below its buffer count.\<close>

definition find_free_slot :: "SEC_OMX_BASEPORT \<Rightarrow> nat option option" where
  "find_free_slot p =
    scan (\<lambda>i. map_option (\<lambda>st. st = BUFFER_STATE_FREE) (array_at (bufferStateAllocate p) (int i)))
         0 (unat (nBufferCountActual (portDefinition p)))"

text \<open>
  The common part of \<open>UseBuffer\<close> and \<open>AllocateBuffer\<close>: enter header \<open>h\<close> in slot \<open>i\<close>, count
  it, and when the port is fully populated say so and release who waits for it.
\<close>

definition assign_slot :: "u32 \<Rightarrow> nat \<Rightarrow> ptr \<Rightarrow> SEC_OMX_BASEPORT \<Rightarrow> SEC_OMX_BASEPORT" where
  "assign_slot st i h p =
    (let p1 = p\<lparr>bufferHeader := (bufferHeader p)[i := Some h],
                bufferStateAllocate := (bufferStateAllocate p)[i := st],
                assignedBufferNum := assignedBufferNum p + 1\<rparr>
     in if assignedBufferNum p1 = nBufferCountActual (portDefinition p1)
        then p1\<lparr>portDefinition := (portDefinition p1)\<lparr>bPopulated := True\<rparr>,
                loadedResource := snd (SEC_OSAL_SemaphorePost (loadedResource p1))\<rparr>
        else p1)"

type_synonym buffer_result = "OMX_ERRORTYPE \<times> ptr option"

definition UseBuffer_body ::
  "u32 \<Rightarrow> ptr option \<Rightarrow> u32 \<Rightarrow> ptr option \<Rightarrow> SEC_OMX_BASECOMPONENT \<Rightarrow> omx_env \<Rightarrow>
   (buffer_result, comp_state) outcome" where
  "UseBuffer_body nPortIndex appPrivate nSizeBytes buffer c e =
     (if nPortIndex \<ge> nPorts (portParam c) then Done (OMX_ErrorBadPortIndex, None) (c, e)
      else (case port_at c (uint nPortIndex) of
        None \<Rightarrow> Crash
      | Some p \<Rightarrow>
          if portState p \<noteq> OMX_StateIdle then Done (OMX_ErrorIncorrectStateOperation, None) (c, e)
          else if CHECK_PORT_TUNNELED p \<and> CHECK_PORT_BUFFER_SUPPLIER p
          then Done (OMX_ErrorBadPortIndex, None) (c, e)
          else (case SEC_OSAL_Malloc e of
            (None, e1) \<Rightarrow> Done (OMX_ErrorInsufficientResources, None) (c, e1)
          | (Some h, e1) \<Rightarrow>
              (case find_free_slot p of
                 None \<Rightarrow> Crash
               | Some None \<Rightarrow> Done (OMX_ErrorInsufficientResources, None) (c, SEC_OSAL_Free (Some h) e1)
               | Some (Some i) \<Rightarrow>
                   Done (OMX_ErrorNone, Some h)
                     (set_port (uint nPortIndex)
                        (assign_slot (or BUFFER_STATE_ASSIGNED HEADER_STATE_ALLOCATED) i h p) c,
                      upd_hdr h (fresh_header nPortIndex appPrivate nSizeBytes buffer) e1)))))"

definition SEC_OMX_UseBuffer ::
  "OMX_COMPONENTTYPE option \<Rightarrow> u32 \<Rightarrow> ptr option \<Rightarrow> u32 \<Rightarrow> ptr option \<Rightarrow> omx_env \<Rightarrow>
   (buffer_result, OMX_COMPONENTTYPE option \<times> omx_env) outcome" where
  "SEC_OMX_UseBuffer hComponent nPortIndex appPrivate nSizeBytes buffer =
    entry_with (\<lambda>ret. (ret, None)) hComponent (UseBuffer_body nPortIndex appPrivate nSizeBytes buffer)"

definition AllocateBuffer_body ::
  "u32 \<Rightarrow> ptr option \<Rightarrow> u32 \<Rightarrow> SEC_OMX_BASECOMPONENT \<Rightarrow> omx_env \<Rightarrow>
   (buffer_result, comp_state) outcome" where
  "AllocateBuffer_body nPortIndex appPrivate nSizeBytes c e =
     (if nPortIndex \<ge> nPorts (portParam c) then Done (OMX_ErrorBadPortIndex, None) (c, e)
      else (case port_at c (uint nPortIndex) of
        None \<Rightarrow> Crash
      | Some p \<Rightarrow>
          if CHECK_PORT_TUNNELED p \<and> CHECK_PORT_BUFFER_SUPPLIER p
          then Done (OMX_ErrorBadPortIndex, None) (c, e)
          else (case SEC_OSAL_Malloc e of
            (None, e1) \<Rightarrow> Done (OMX_ErrorInsufficientResources, None) (c, e1)
          | (Some buffer, e1) \<Rightarrow>
              (case SEC_OSAL_Malloc e1 of
                (None, e2) \<Rightarrow>
                  Done (OMX_ErrorInsufficientResources, None) (c, SEC_OSAL_Free (Some buffer) e2)
              | (Some h, e2) \<Rightarrow>
                  (case find_free_slot p of
                     None \<Rightarrow> Crash
                   | Some None \<Rightarrow>
                       Done (OMX_ErrorInsufficientResources, None)
                         (c, SEC_OSAL_Free (Some buffer) (SEC_OSAL_Free (Some h) e2))
                   | Some (Some i) \<Rightarrow>
                       Done (OMX_ErrorNone, Some h)
                         (set_port (uint nPortIndex)
                            (assign_slot (or BUFFER_STATE_ALLOCATED HEADER_STATE_ALLOCATED) i h p) c,
                          upd_hdr h (fresh_header nPortIndex appPrivate nSizeBytes (Some buffer)) e2))))))"

definition SEC_OMX_AllocateBuffer ::
  "OMX_COMPONENTTYPE option \<Rightarrow> u32 \<Rightarrow> ptr option \<Rightarrow> u32 \<Rightarrow> omx_env \<Rightarrow>
   (buffer_result, OMX_COMPONENTTYPE option \<times> omx_env) outcome" where
  "SEC_OMX_AllocateBuffer hComponent nPortIndex appPrivate nSizeBytes =
    entry_with (\<lambda>ret. (ret, None)) hComponent (AllocateBuffer_body nPortIndex appPrivate nSizeBytes)"

text \<open>
  \<open>FreeBuffer\<close> looks for the slot by the address of the data, not of the header, and only
  reads the client's header when it meets an occupied slot.
\<close>

definition slot_matches :: "omx_env \<Rightarrow> SEC_OMX_BASEPORT \<Rightarrow> ptr option \<Rightarrow> nat \<Rightarrow> bool option" where
  "slot_matches e p pBufferHdr i =
    (case (array_at (bufferStateAllocate p) (int i), array_at (bufferHeader p) (int i)) of
       (Some st, Some (Some h)) \<Rightarrow>
         if or st BUFFER_STATE_FREE \<noteq> 0
         then (case (hdr_heap e h, Option.bind pBufferHdr (hdr_heap e)) of
                 (Some bh, Some arg) \<Rightarrow> Some (pBuffer bh = pBuffer arg)
               | _ \<Rightarrow> None)
         else Some False
     | (Some st, Some None) \<Rightarrow> Some False
     | _ \<Rightarrow> None)"

definition release_slot ::
  "nat \<Rightarrow> ptr option \<Rightarrow> SEC_OMX_BASEPORT \<Rightarrow> omx_env \<Rightarrow> SEC_OMX_BASEPORT \<times> omx_env" where
  "release_slot i pBufferHdr p e =
    (let st = bufferStateAllocate p ! i; h = the (bufferHeader p ! i); arg = the pBufferHdr;
         e1 = (if and st BUFFER_STATE_ALLOCATED \<noteq> 0
               then (let e0 = SEC_OSAL_Free (pBuffer (the (hdr_heap e h))) e;
                         e0' = upd_hdr h ((the (hdr_heap e0 h))\<lparr>pBuffer := None\<rparr>) e0
                     in upd_hdr arg ((the (hdr_heap e0' arg))\<lparr>pBuffer := None\<rparr>) e0')
               else e);
         p1 = p\<lparr>assignedBufferNum := assignedBufferNum p - 1\<rparr>;
         (p2, e2) = (if and st HEADER_STATE_ALLOCATED \<noteq> 0
                     then (p1\<lparr>bufferHeader := (bufferHeader p1)[i := None]\<rparr>,
                           (SEC_OSAL_Free (Some h) e1)\<lparr>hdr_heap := (hdr_heap e1)(h := None)\<rparr>)
                     else (p1, e1))
     in (p2\<lparr>bufferStateAllocate := (bufferStateAllocate p2)[i := BUFFER_STATE_FREE]\<rparr>, e2))"

definition free_epilogue :: "SEC_OMX_BASEPORT \<Rightarrow> SEC_OMX_BASEPORT" where
  "free_epilogue p =
    (if assignedBufferNum p = 0
     then p\<lparr>unloadedResource := snd (SEC_OSAL_SemaphorePost (unloadedResource p)),
            portDefinition := (portDefinition p)\<lparr>bPopulated := False\<rparr>\<rparr>
     else p)"

definition FreeBuffer_search ::
  "u32 \<Rightarrow> ptr option \<Rightarrow> SEC_OMX_BASEPORT \<Rightarrow> SEC_OMX_BASECOMPONENT \<Rightarrow> omx_env \<Rightarrow>
   (OMX_ERRORTYPE, comp_state) outcome" where
  "FreeBuffer_search nPortIndex pBufferHdr p c e =
    (case scan (slot_matches e p pBufferHdr) 0 (unat (nBufferCountActual (portDefinition p))) of
       None \<Rightarrow> Crash
     | Some None \<Rightarrow> Done OMX_ErrorNone (set_port (uint nPortIndex) (free_epilogue p) c, e)
     | Some (Some i) \<Rightarrow>
         (case release_slot i pBufferHdr p e of
            (p2, e2) \<Rightarrow> Done OMX_ErrorNone (set_port (uint nPortIndex) (free_epilogue p2) c, e2)))"

definition FreeBuffer_body ::
  "ptr \<Rightarrow> u32 \<Rightarrow> ptr option \<Rightarrow> SEC_OMX_BASECOMPONENT \<Rightarrow> omx_env \<Rightarrow>
   (OMX_ERRORTYPE, comp_state) outcome" where
  "FreeBuffer_body self nPortIndex pBufferHdr c e =
    (case port_at c (uint nPortIndex) of
       None \<Rightarrow> Crash
     | Some p \<Rightarrow>
         if CHECK_PORT_TUNNELED p \<and> CHECK_PORT_BUFFER_SUPPLIER p
         then Done OMX_ErrorBadPortIndex (c, e)
         else bindO (if portState p \<noteq> OMX_StateLoaded \<and> portState p \<noteq> OMX_StateInvalid
                     then callback self (EventError OMX_ErrorPortUnpopulated nPortIndex) c e
                     else Done () (c, e))
           (\<lambda>_ (c1, e1). FreeBuffer_search nPortIndex pBufferHdr p c1 e1))"

definition SEC_OMX_FreeBuffer ::
  "ptr \<Rightarrow> OMX_COMPONENTTYPE option \<Rightarrow> u32 \<Rightarrow> ptr option \<Rightarrow> omx_env \<Rightarrow>
   (OMX_ERRORTYPE, OMX_COMPONENTTYPE option \<times> omx_env) outcome" where
  "SEC_OMX_FreeBuffer self hComponent nPortIndex pBufferHdr =
    entry hComponent (FreeBuffer_body self nPortIndex pBufferHdr)"

section \<open>Tunneling is refused\<close>

definition SEC_OMX_AllocateTunnelBuffer ::
  "SEC_OMX_BASEPORT \<Rightarrow> int \<Rightarrow> OMX_ERRORTYPE \<times> SEC_OMX_BASEPORT" where
  "SEC_OMX_AllocateTunnelBuffer pOMXBasePort nPortIndex = (OMX_ErrorTunnelingUnsupported, pOMXBasePort)"

definition SEC_OMX_FreeTunnelBuffer ::
  "SEC_OMX_BASEPORT \<Rightarrow> int \<Rightarrow> OMX_ERRORTYPE \<times> SEC_OMX_BASEPORT" where
  "SEC_OMX_FreeTunnelBuffer pOMXBasePort nPortIndex = (OMX_ErrorTunnelingUnsupported, pOMXBasePort)"

definition SEC_OMX_ComponentTunnelRequest :: "ptr option \<Rightarrow> u32 \<Rightarrow> ptr option \<Rightarrow> u32 \<Rightarrow> OMX_ERRORTYPE" where
  "SEC_OMX_ComponentTunnelRequest hComp nPort hTunneledComp nTunneledPort = OMX_ErrorTunnelingUnsupported"

text \<open>
  The functions \<open>SEC_OMX_VideoDecodeComponentInit\<close> installs; the two functions of the codec
  itself are parameters.
\<close>

definition vdec_ops ::
  "(ptr \<Rightarrow> SEC_OMX_BASECOMPONENT \<Rightarrow> omx_env \<Rightarrow> (OMX_ERRORTYPE, comp_state) outcome) \<Rightarrow>
   (ptr \<Rightarrow> SEC_OMX_BASECOMPONENT \<Rightarrow> omx_env \<Rightarrow> (OMX_ERRORTYPE, comp_state) outcome) \<Rightarrow> codec_ops" where
  "vdec_ops mfc_init mfc_terminate =
    \<lparr>sec_mfc_componentInit = mfc_init, sec_mfc_componentTerminate = mfc_terminate,
     sec_AllocateTunnelBuffer = SEC_OMX_AllocateTunnelBuffer,
     sec_FreeTunnelBuffer = SEC_OMX_FreeTunnelBuffer,
     sec_BufferReset = SEC_BufferReset,
     sec_InputBufferReturn = SEC_InputBufferReturn,
     sec_OutputBufferReturn = SEC_OutputBufferReturn\<rparr>"

section \<open>Well-formed ports\<close>

definition occupied :: "SEC_OMX_BASEPORT \<Rightarrow> nat" where
  "occupied p = length (filter (\<lambda>st. st \<noteq> BUFFER_STATE_FREE) (bufferStateAllocate p))"

text \<open>
  The slot arrays have their full length; a slot is free exactly when it has no header,
  otherwise its state is one of the two that the buffer functions enter; slots at or above
  the buffer count are free; and \<open>assignedBufferNum\<close> is the number of occupied slots.
\<close>

definition port_wf :: "SEC_OMX_BASEPORT \<Rightarrow> bool" where
  "port_wf p \<longleftrightarrow>
     length (bufferHeader p) = MAX_BUFFER_NUM \<and> length (bufferStateAllocate p) = MAX_BUFFER_NUM \<and>
     (\<forall>i<MAX_BUFFER_NUM.
        bufferStateAllocate p ! i \<in> {BUFFER_STATE_FREE,
          or BUFFER_STATE_ALLOCATED HEADER_STATE_ALLOCATED, or BUFFER_STATE_ASSIGNED HEADER_STATE_ALLOCATED} \<and>
        (bufferStateAllocate p ! i = BUFFER_STATE_FREE \<longleftrightarrow> bufferHeader p ! i = None) \<and>
        (unat (nBufferCountActual (portDefinition p)) \<le> i \<longrightarrow> bufferStateAllocate p ! i = BUFFER_STATE_FREE)) \<and>
     assignedBufferNum p = of_nat (occupied p) \<and>
     unat (nBufferCountActual (portDefinition p)) \<le> MAX_BUFFER_NUM"

lemmas buffer_state_defs =
  BUFFER_STATE_ALLOCATED_def BUFFER_STATE_ASSIGNED_def HEADER_STATE_ALLOCATED_def BUFFER_STATE_FREE_def

lemma find_free_slot_cases:
  assumes "port_wf p"
  obtains i where "find_free_slot p = Some (Some i)" "i < unat (nBufferCountActual (portDefinition p))"
      "bufferStateAllocate p ! i = BUFFER_STATE_FREE" "\<forall>j<i. bufferStateAllocate p ! j \<noteq> BUFFER_STATE_FREE"
    | "find_free_slot p = Some None"
      "\<forall>j<unat (nBufferCountActual (portDefinition p)). bufferStateAllocate p ! j \<noteq> BUFFER_STATE_FREE"
proof -
  let ?n = "unat (nBufferCountActual (portDefinition p))"
  let ?P = "\<lambda>i. map_option (\<lambda>st. st = BUFFER_STATE_FREE) (array_at (bufferStateAllocate p) (int i))"
  have len: "?n \<le> length (bufferStateAllocate p)" using assms by (simp add: port_wf_def)
  show thesis
  proof (cases "\<exists>i<?n. bufferStateAllocate p ! i = BUFFER_STATE_FREE")
    case True
    define k where "k = (LEAST i. i < ?n \<and> bufferStateAllocate p ! i = BUFFER_STATE_FREE)"
    have k: "k < ?n" "bufferStateAllocate p ! k = BUFFER_STATE_FREE"
      using True LeastI_ex [of "\<lambda>i. i < ?n \<and> bufferStateAllocate p ! i = BUFFER_STATE_FREE"]
      by (auto simp: k_def)
    have less: "bufferStateAllocate p ! j \<noteq> BUFFER_STATE_FREE" if "j < k" for j
      using not_less_Least [of j "\<lambda>i. i < ?n \<and> bufferStateAllocate p ! i = BUFFER_STATE_FREE"] that k
      by (auto simp: k_def)
    have "scan ?P 0 ?n = Some (Some (0 + k))"
      using k less len by (intro scan_found) auto
    then show thesis using that(1) [of k] k less by (simp add: find_free_slot_def)
  next
    case False
    then have "scan ?P 0 ?n = Some None" using len by (intro scan_not_found) auto
    then show thesis using that(2) False by (simp add: find_free_slot_def)
  qed
qed

lemma occupied_le: "port_wf p \<Longrightarrow> occupied p \<le> MAX_BUFFER_NUM"
  by (metis length_filter_le occupied_def port_wf_def)

lemma occupied_assign:
  assumes "bufferStateAllocate p ! i = BUFFER_STATE_FREE" "i < length (bufferStateAllocate p)"
    "st \<noteq> BUFFER_STATE_FREE"
  shows "length (filter (\<lambda>st. st \<noteq> BUFFER_STATE_FREE) ((bufferStateAllocate p)[i := st])) = Suc (occupied p)"
  using length_filter_list_update [of i "bufferStateAllocate p" "\<lambda>st. st \<noteq> BUFFER_STATE_FREE" st] assms
  by (simp add: occupied_def)

lemma occupied_release:
  assumes "bufferStateAllocate p ! i \<noteq> BUFFER_STATE_FREE" "i < length (bufferStateAllocate p)"
  shows "Suc (length (filter (\<lambda>st. st \<noteq> BUFFER_STATE_FREE) ((bufferStateAllocate p)[i := BUFFER_STATE_FREE])))
    = occupied p"
  using length_filter_list_update [of i "bufferStateAllocate p" "\<lambda>st. st \<noteq> BUFFER_STATE_FREE" BUFFER_STATE_FREE] assms
  by (simp add: occupied_def)

lemma assign_slot_fields:
  "bufferHeader (assign_slot st i h p) = (bufferHeader p)[i := Some h]"
  "bufferStateAllocate (assign_slot st i h p) = (bufferStateAllocate p)[i := st]"
  "assignedBufferNum (assign_slot st i h p) = assignedBufferNum p + 1"
  "nBufferCountActual (portDefinition (assign_slot st i h p)) = nBufferCountActual (portDefinition p)"
  by (simp_all add: assign_slot_def Let_def)

lemma assign_slot_wf:
  assumes wf: "port_wf p" and i: "i < unat (nBufferCountActual (portDefinition p))"
    "bufferStateAllocate p ! i = BUFFER_STATE_FREE"
    and st: "st \<in> {or BUFFER_STATE_ALLOCATED HEADER_STATE_ALLOCATED, or BUFFER_STATE_ASSIGNED HEADER_STATE_ALLOCATED}"
  shows "port_wf (assign_slot st i h p)"
proof -
  have len: "length (bufferStateAllocate p) = MAX_BUFFER_NUM" "length (bufferHeader p) = MAX_BUFFER_NUM"
    "i < MAX_BUFFER_NUM" using wf i by (auto simp: port_wf_def)
  have nz: "st \<noteq> BUFFER_STATE_FREE" using st by (auto simp: buffer_state_defs)
  have occ: "occupied (assign_slot st i h p) = Suc (occupied p)"
    using occupied_assign [of p i st] i nz len by (simp add: occupied_def assign_slot_fields)
  show ?thesis
    unfolding port_wf_def occ assign_slot_fields
    using wf len nz st i by (auto simp: port_wf_def nth_list_update)
qed

lemma occupied_card:
  assumes "port_wf p"
  shows "occupied p = card {i. i < unat (nBufferCountActual (portDefinition p)) \<and>
                               bufferStateAllocate p ! i \<noteq> BUFFER_STATE_FREE}"
proof -
  let ?n = "unat (nBufferCountActual (portDefinition p))"
  have "occupied p = card {i. i < MAX_BUFFER_NUM \<and> bufferStateAllocate p ! i \<noteq> BUFFER_STATE_FREE}"
    using assms by (simp add: occupied_def length_filter_conv_card port_wf_def)
  moreover have "{i. i < MAX_BUFFER_NUM \<and> bufferStateAllocate p ! i \<noteq> BUFFER_STATE_FREE} =
      {i. i < ?n \<and> bufferStateAllocate p ! i \<noteq> BUFFER_STATE_FREE}"
    using assms unfolding port_wf_def by (auto simp: not_less [symmetric])
  ultimately show ?thesis by simp
qed

lemma occupied_le_count:
  assumes "port_wf p"
  shows "occupied p \<le> unat (nBufferCountActual (portDefinition p))"
proof -
  let ?n = "unat (nBufferCountActual (portDefinition p))"
  have "card {i. i < ?n \<and> bufferStateAllocate p ! i \<noteq> BUFFER_STATE_FREE} \<le> card {..<?n}"
    by (intro card_mono) auto
  then show ?thesis using occupied_card [OF assms] by simp
qed

lemma room_iff_free:
  assumes "port_wf p"
  shows "occupied p < unat (nBufferCountActual (portDefinition p)) \<longleftrightarrow>
    (\<exists>i<unat (nBufferCountActual (portDefinition p)). bufferStateAllocate p ! i = BUFFER_STATE_FREE)"
proof -
  let ?n = "unat (nBufferCountActual (portDefinition p))"
  let ?S = "{i. i < ?n \<and> bufferStateAllocate p ! i \<noteq> BUFFER_STATE_FREE}"
  have sub: "?S \<subseteq> {..<?n}" by auto
  show ?thesis
  proof (cases "?S = {..<?n}")
    case True
    then have "\<forall>i<?n. bufferStateAllocate p ! i \<noteq> BUFFER_STATE_FREE" by blast
    then show ?thesis using occupied_card [OF assms] True by simp
  next
    case False
    with sub have "card ?S < card {..<?n}" by (intro psubset_card_mono) auto
    moreover have "\<exists>i<?n. bufferStateAllocate p ! i = BUFFER_STATE_FREE" using False by blast
    ultimately show ?thesis using occupied_card [OF assms] by simp
  qed
qed

lemma release_slot_fields:
  assumes "release_slot i arg p e = (p', e')"
  shows "bufferStateAllocate p' = (bufferStateAllocate p)[i := BUFFER_STATE_FREE]"
    "bufferHeader p' = (if and (bufferStateAllocate p ! i) HEADER_STATE_ALLOCATED \<noteq> 0
                        then (bufferHeader p)[i := None] else bufferHeader p)"
    "assignedBufferNum p' = assignedBufferNum p - 1" "portDefinition p' = portDefinition p"
  using assms by (auto simp: release_slot_def Let_def split: if_splits)

lemma header_bit:
  assumes "port_wf p" "i < MAX_BUFFER_NUM" "bufferStateAllocate p ! i \<noteq> BUFFER_STATE_FREE"
  shows "and (bufferStateAllocate p ! i) HEADER_STATE_ALLOCATED \<noteq> 0"
proof -
  have "bufferStateAllocate p ! i \<in> {or BUFFER_STATE_ALLOCATED HEADER_STATE_ALLOCATED,
     or BUFFER_STATE_ASSIGNED HEADER_STATE_ALLOCATED}"
    using assms by (auto simp: port_wf_def)
  then show ?thesis by (auto simp: buffer_state_defs)
qed

lemma release_slot_wf:
  assumes wf: "port_wf p" and i: "i < unat (nBufferCountActual (portDefinition p))"
    "bufferStateAllocate p ! i \<noteq> BUFFER_STATE_FREE" and rel: "release_slot i arg p e = (p', e')"
  shows "port_wf p'"
proof -
  have len: "length (bufferStateAllocate p) = MAX_BUFFER_NUM" "length (bufferHeader p) = MAX_BUFFER_NUM"
    "i < MAX_BUFFER_NUM" using wf i by (auto simp: port_wf_def)
  have occ: "Suc (occupied p') = occupied p"
    using occupied_release [of p i] i len by (simp add: occupied_def release_slot_fields [OF rel])
  have hb: "bufferHeader p' = (bufferHeader p)[i := None]"
    using release_slot_fields(2) [OF rel] header_bit [OF wf len(3) i(2)] by simp
  have "assignedBufferNum p' = of_nat (occupied p')"
    using release_slot_fields(3) [OF rel] wf occ [symmetric] by (simp add: port_wf_def)
  then show ?thesis
    using wf len unfolding port_wf_def
    by (auto simp: release_slot_fields(1,4) [OF rel] hb nth_list_update)
qed

lemma free_epilogue_wf: "port_wf (free_epilogue p) = port_wf p"
  by (simp add: free_epilogue_def port_wf_def occupied_def)

section \<open>The entry points keep the ports well-formed\<close>

definition ports_wf :: "SEC_OMX_BASECOMPONENT \<Rightarrow> bool" where
  "ports_wf c \<longleftrightarrow> length (pSECPort c) = ALL_PORT_NUM \<and> (\<forall>p\<in>set (pSECPort c). port_wf p)"

lemma ports_wf_at: "ports_wf c \<Longrightarrow> port_at c i = Some p \<Longrightarrow> port_wf p"
  by (auto simp: ports_wf_def port_at_def dest: array_at_SomeD)

lemma ports_wf_set_port:
  assumes "ports_wf c" "port_wf p" shows "ports_wf (set_port i p c)"
  using assms set_update_subset_insert [of "pSECPort c" "nat i" p]
  by (auto simp: ports_wf_def set_port_def)

lemma valid_handle_update [simp]:
  "valid_handle oc c \<Longrightarrow> valid_handle (oc\<lparr>pComponentPrivate := Some c'\<rparr>) c'"
  by (auto simp: valid_handle_def SEC_OMX_Check_SizeVersion_def split: if_splits)

lemma entry_with_preserves:
  assumes "valid_handle oc c" "entry_with fail (Some oc) body e = Done r (hc', e')"
    "\<And>c' e'. body c e = Done r (c', e') \<Longrightarrow> P c'"
  shows "\<exists>oc' c'. hc' = Some oc' \<and> valid_handle oc' c' \<and> P c'"
  using assms(2,3) valid_handle_update [OF assms(1)]
  by (fastforce simp: entry_with_valid [OF assms(1)] map_state_eq_Done_iff)

lemma slot_matches_occupied:
  "slot_matches e p arg i = Some True \<Longrightarrow> bufferStateAllocate p ! i \<noteq> BUFFER_STATE_FREE"
  by (auto simp: slot_matches_def buffer_state_defs split: option.splits if_splits)

lemma find_free_slot_SomeD:
  "find_free_slot p = Some (Some i) \<Longrightarrow>
   i < unat (nBufferCountActual (portDefinition p)) \<and> bufferStateAllocate p ! i = BUFFER_STATE_FREE"
  unfolding find_free_slot_def by (drule scan_SomeD) (auto split: if_splits)

lemma UseBuffer_body_wf:
  assumes "ports_wf c" "UseBuffer_body n ap sz b c e = Done r (c', e')"
  shows "ports_wf c'"
proof (cases "port_at c (uint n)")
  case None
  then show ?thesis using assms by (auto simp: UseBuffer_body_def split: if_splits)
next
  case (Some p)
  then have wf: "port_wf p" using assms(1) ports_wf_at by blast
  show ?thesis
    using assms Some wf
    by (auto simp: UseBuffer_body_def split: if_splits option.splits prod.splits
        dest!: find_free_slot_SomeD intro!: ports_wf_set_port assign_slot_wf)
qed

lemma AllocateBuffer_body_wf:
  assumes "ports_wf c" "AllocateBuffer_body n ap sz c e = Done r (c', e')"
  shows "ports_wf c'"
proof (cases "port_at c (uint n)")
  case None
  then show ?thesis using assms by (auto simp: AllocateBuffer_body_def split: if_splits)
next
  case (Some p)
  then have wf: "port_wf p" using assms(1) ports_wf_at by blast
  show ?thesis
    using assms Some wf
    by (auto simp: AllocateBuffer_body_def split: if_splits option.splits prod.splits
        dest!: find_free_slot_SomeD intro!: ports_wf_set_port assign_slot_wf)
qed

lemma callback_Done: "callback self cb c e = Done u s \<Longrightarrow> s = (c, record_call self cb e)"
  by (auto simp: callback_def split: option.splits)

lemma FreeBuffer_search_wf:
  assumes "ports_wf c" "port_wf p" "FreeBuffer_search n arg p c e = Done r (c', e')"
  shows "ports_wf c'"
  using assms
  by (auto simp: FreeBuffer_search_def free_epilogue_wf split: option.splits prod.splits
      dest!: scan_SomeD slot_matches_occupied intro!: ports_wf_set_port intro: release_slot_wf)

lemma FreeBuffer_body_wf:
  assumes "ports_wf c" "FreeBuffer_body self n arg c e = Done r (c', e')"
  shows "ports_wf c'"
proof (cases "port_at c (uint n)")
  case None
  then show ?thesis using assms by (auto simp: FreeBuffer_body_def split: if_splits)
next
  case (Some p)
  then have wf: "port_wf p" using assms(1) ports_wf_at by blast
  show ?thesis
    using assms Some FreeBuffer_search_wf [OF assms(1) wf]
    by (auto simp: FreeBuffer_body_def bindO_eq_Done_iff split: if_splits dest!: callback_Done)
qed

section \<open>Properties\<close>

text \<open>C6. \<open>UseBuffer\<close>, \<open>AllocateBuffer\<close> and \<open>FreeBuffer\<close>, called on a valid handle with any
  arguments and whatever the allocator answers, keep every port well-formed whenever they
  return: the slot arrays agree with each other, \<open>assignedBufferNum\<close> counts the occupied
  slots and nothing is entered above the buffer count.\<close>

theorem buffer_entry_points_keep_ports_wf:
  assumes "valid_handle oc c" "ports_wf c"
    and "SEC_OMX_UseBuffer (Some oc) n ap sz b e = Done r1 (hc', e') \<or>
         SEC_OMX_AllocateBuffer (Some oc) n ap sz e = Done r1 (hc', e') \<or>
         SEC_OMX_FreeBuffer self (Some oc) n hdr e = Done r2 (hc', e')"
  shows "\<exists>oc' c'. hc' = Some oc' \<and> valid_handle oc' c' \<and> ports_wf c'"
  using assms(3)
proof (elim disjE)
  assume "SEC_OMX_UseBuffer (Some oc) n ap sz b e = Done r1 (hc', e')"
  then show ?thesis unfolding SEC_OMX_UseBuffer_def
    by (rule entry_with_preserves [OF assms(1)]) (rule UseBuffer_body_wf [OF assms(2)])
next
  assume "SEC_OMX_AllocateBuffer (Some oc) n ap sz e = Done r1 (hc', e')"
  then show ?thesis unfolding SEC_OMX_AllocateBuffer_def
    by (rule entry_with_preserves [OF assms(1)]) (rule AllocateBuffer_body_wf [OF assms(2)])
next
  assume "SEC_OMX_FreeBuffer self (Some oc) n hdr e = Done r2 (hc', e')"
  then show ?thesis unfolding SEC_OMX_FreeBuffer_def entry_def
    by (rule entry_with_preserves [OF assms(1)]) (rule FreeBuffer_body_wf [OF assms(2)])
qed

lemma assigned_full_iff:
  assumes "port_wf p" "occupied p < unat (nBufferCountActual (portDefinition p))"
  shows "assignedBufferNum p + 1 = nBufferCountActual (portDefinition p) \<longleftrightarrow>
    Suc (occupied p) = unat (nBufferCountActual (portDefinition p))"
proof -
  have a: "assignedBufferNum p + 1 = (of_nat (Suc (occupied p)) :: u32)"
    using assms(1) by (simp add: port_wf_def)
  have "Suc (occupied p) \<le> MAX_BUFFER_NUM" using assms by (simp add: port_wf_def)
  then have "Suc (occupied p) < 2 ^ LENGTH(32)" by (simp add: MAX_BUFFER_NUM_def)
  then have "unat (of_nat (Suc (occupied p)) :: u32) = Suc (occupied p)"
    by (simp only: unat_of_nat mod_less)
  then show ?thesis unfolding a word_unat_eq_iff by simp
qed

lemma assign_slot_populates:
  assumes "port_wf p" "i < unat (nBufferCountActual (portDefinition p))"
    "bufferStateAllocate p ! i = BUFFER_STATE_FREE" "st \<noteq> BUFFER_STATE_FREE"
  shows "occupied (assign_slot st i h p) = occupied p + 1"
    "bufferHeader (assign_slot st i h p) ! i = Some h"
    "bufferStateAllocate (assign_slot st i h p) ! i = st"
    "if occupied p + 1 = unat (nBufferCountActual (portDefinition p))
     then bPopulated (portDefinition (assign_slot st i h p)) \<and>
          loadedResource (assign_slot st i h p) = snd (SEC_OSAL_SemaphorePost (loadedResource p))
     else portDefinition (assign_slot st i h p) = portDefinition p \<and>
          loadedResource (assign_slot st i h p) = loadedResource p"
proof -
  have len: "i < length (bufferStateAllocate p)" "i < length (bufferHeader p)"
    using assms(1,2) by (auto simp: port_wf_def)
  show "occupied (assign_slot st i h p) = occupied p + 1"
    using occupied_assign [OF assms(3) len(1) assms(4)] by (simp add: occupied_def assign_slot_fields)
  show "bufferHeader (assign_slot st i h p) ! i = Some h"
    "bufferStateAllocate (assign_slot st i h p) ! i = st"
    using len by (simp_all add: assign_slot_fields)
  have "occupied p < unat (nBufferCountActual (portDefinition p))"
    using room_iff_free [OF assms(1)] assms(2,3) by blast
  from assigned_full_iff [OF assms(1) this]
  show "if occupied p + 1 = unat (nBufferCountActual (portDefinition p))
     then bPopulated (portDefinition (assign_slot st i h p)) \<and>
          loadedResource (assign_slot st i h p) = snd (SEC_OSAL_SemaphorePost (loadedResource p))
     else portDefinition (assign_slot st i h p) = portDefinition p \<and>
          loadedResource (assign_slot st i h p) = loadedResource p"
    by (simp add: assign_slot_def Let_def)
qed

lemma AllocateBuffer_body_memory:
  assumes "n < nPorts (portParam c)" "port_at c (uint n) = Some p" "\<not> CHECK_PORT_TUNNELED p"
    "sys_answers e = []"
  shows "AllocateBuffer_body n ap sz c e =
    (case find_free_slot p of
       None \<Rightarrow> Crash
     | Some None \<Rightarrow> Done (OMX_ErrorInsufficientResources, None) (c, e\<lparr>next_addr := next_addr e + 2\<rparr>)
     | Some (Some i) \<Rightarrow> Done (OMX_ErrorNone, Some (next_addr e + 1))
         (set_port (uint n)
            (assign_slot (or BUFFER_STATE_ALLOCATED HEADER_STATE_ALLOCATED) i (next_addr e + 1) p) c,
          upd_hdr (next_addr e + 1) (fresh_header n ap sz (Some (next_addr e)))
            (e\<lparr>mem_cnt := mem_cnt e + 2, live_blocks := live_blocks e + 2, next_addr := next_addr e + 2\<rparr>)))"
proof -
  let ?e1 = "e\<lparr>mem_cnt := mem_cnt e + 1, live_blocks := live_blocks e + 1, next_addr := next_addr e + 1\<rparr>"
  let ?e2 = "e\<lparr>mem_cnt := mem_cnt e + 2, live_blocks := live_blocks e + 2, next_addr := next_addr e + 2\<rparr>"
  have "SEC_OSAL_Malloc e = (Some (next_addr e), ?e1)" using assms(4) by (simp add: Malloc_ok)
  moreover have "SEC_OSAL_Malloc ?e1 = (Some (next_addr e + 1), ?e2)" using assms(4) by (simp add: Malloc_ok)
  moreover have "SEC_OSAL_Free (Some (next_addr e)) (SEC_OSAL_Free (Some (next_addr e + 1)) ?e2) =
      e\<lparr>next_addr := next_addr e + 2\<rparr>" by simp
  moreover have "\<not> nPorts (portParam c) \<le> n" using assms(1) by simp
  ultimately show ?thesis
    using assms(2,3) unfolding AllocateBuffer_body_def by (simp only: option.case prod.case if_False simp_thms)
qed

text \<open>C4. On a valid handle with well-formed ports and memory available, \<open>AllocateBuffer\<close>
  returns. If the port has room, the first free slot gets a fresh header, initialised for
  that port and owning a data block of its own; the port becomes populated and
  \<open>loadedResource\<close> is posted exactly when the last slot is filled. If the port is full, the
  call fails with \<open>OMX_ErrorInsufficientResources\<close>, nothing changes and both blocks are
  returned.\<close>

theorem AllocateBuffer_fills_first_free_slot:
  assumes vh: "valid_handle oc c" and wf: "ports_wf c" and n: "n < nPorts (portParam c)"
    and p: "port_at c (uint n) = Some p" and nt: "\<not> CHECK_PORT_TUNNELED p" and mem: "sys_answers e = []"
  shows "\<exists>oc' c' p' e' r. SEC_OMX_AllocateBuffer (Some oc) n ap sz e = Done r (Some oc', e') \<and>
    valid_handle oc' c' \<and> port_at c' (uint n) = Some p' \<and>
    (if occupied p < unat (nBufferCountActual (portDefinition p))
     then \<exists>i h buf. r = (OMX_ErrorNone, Some h) \<and>
       i < unat (nBufferCountActual (portDefinition p)) \<and>
       bufferStateAllocate p ! i = BUFFER_STATE_FREE \<and>
       (\<forall>j<i. bufferStateAllocate p ! j \<noteq> BUFFER_STATE_FREE) \<and>
       bufferHeader p' ! i = Some h \<and> bufferStateAllocate p' ! i \<noteq> BUFFER_STATE_FREE \<and>
       occupied p' = occupied p + 1 \<and> live_blocks e' = live_blocks e + 2 \<and>
       hdr_heap e' h = Some (fresh_header n ap sz (Some buf)) \<and>
       (if occupied p' = unat (nBufferCountActual (portDefinition p))
        then bPopulated (portDefinition p') \<and>
             loadedResource p' = snd (SEC_OSAL_SemaphorePost (loadedResource p))
        else portDefinition p' = portDefinition p \<and> loadedResource p' = loadedResource p)
     else r = (OMX_ErrorInsufficientResources, None) \<and> c' = c \<and> live_blocks e' = live_blocks e \<and>
          hdr_heap e' = hdr_heap e)"
proof -
  let ?st = "or BUFFER_STATE_ALLOCATED HEADER_STATE_ALLOCATED"
  have pw: "port_wf p" using wf p ports_wf_at by blast
  note body = AllocateBuffer_body_memory [OF n p nt mem]
  from pw show ?thesis
  proof (cases rule: find_free_slot_cases)
    case (1 i)
    let ?h = "next_addr e + 1"
    let ?p' = "assign_slot ?st i ?h p"
    let ?c' = "set_port (uint n) ?p' c"
    have nz: "?st \<noteq> BUFFER_STATE_FREE" by (simp add: buffer_state_defs)
    note pop = assign_slot_populates [OF pw 1(2,3) nz, of ?h]
    have room: "occupied p < unat (nBufferCountActual (portDefinition p))"
      using room_iff_free [OF pw] 1 by blast
    let ?e' = "upd_hdr ?h (fresh_header n ap sz (Some (next_addr e)))
        (e\<lparr>mem_cnt := mem_cnt e + 2, live_blocks := live_blocks e + 2, next_addr := next_addr e + 2\<rparr>)"
    have eq: "SEC_OMX_AllocateBuffer (Some oc) n ap sz e =
        Done (OMX_ErrorNone, Some ?h) (Some (oc\<lparr>pComponentPrivate := Some ?c'\<rparr>), ?e')"
      unfolding SEC_OMX_AllocateBuffer_def entry_with_valid [OF vh] body 1(1) by simp
    have e': "live_blocks ?e' = live_blocks e + 2"
      "hdr_heap ?e' ?h = Some (fresh_header n ap sz (Some (next_addr e)))"
      by (simp_all add: upd_hdr_def)
    have st: "bufferStateAllocate ?p' ! i \<noteq> BUFFER_STATE_FREE" unfolding pop(3) by (rule nz)
    have at: "port_at ?c' (uint n) = Some ?p'" using p by simp
    show ?thesis
    proof (intro exI conjI)
      show "SEC_OMX_AllocateBuffer (Some oc) n ap sz e =
        Done (OMX_ErrorNone, Some ?h) (Some (oc\<lparr>pComponentPrivate := Some ?c'\<rparr>), ?e')" by (rule eq)
      show "valid_handle (oc\<lparr>pComponentPrivate := Some ?c'\<rparr>) ?c'" by (rule valid_handle_update [OF vh])
      show "port_at ?c' (uint n) = Some ?p'" by (rule at)
    qed (unfold if_P [OF room] pop(1), intro exI conjI, (rule refl 1(2-4) pop(2,4) st e')+)
  next
    case 2
    then have "\<not> occupied p < unat (nBufferCountActual (portDefinition p))"
      using room_iff_free [OF pw] by blast
    then show ?thesis using 2 vh p by (auto simp: SEC_OMX_AllocateBuffer_def body entry_with_valid [OF vh])
  qed
qed

lemma sample_port_wf: "k \<le> MAX_BUFFER_NUM \<Longrightarrow> port_wf (sample_port k a)"
  by (auto simp: port_wf_def sample_defs occupied_def MAX_BUFFER_NUM_def unat_of_nat)

lemma sample_ports_wf: "k \<le> MAX_BUFFER_NUM \<Longrightarrow> ports_wf (sample_component k)"
  using sample_port_wf by (simp add: ports_wf_def sample_component_def ALL_PORT_NUM_def)

theorem AllocateBuffer_fills_first_free_slot_witness:
  "\<exists>oc' e' h. SEC_OMX_AllocateBuffer (Some (sample_handle (sample_component 2))) 0 None 64 sample_env
     = Done (OMX_ErrorNone, Some h) (Some oc', e') \<and> live_blocks e' = 2"
  using AllocateBuffer_fills_first_free_slot [OF sample_handle_valid sample_ports_wf, of 2 0
      "sample_port 2 100" sample_env None 64]
  by (fastforce simp: occupied_def MAX_BUFFER_NUM_def)

theorem buffer_entry_points_keep_ports_wf_witness:
  "\<exists>oc' c' e'. SEC_OMX_FreeBuffer 7 (Some (sample_handle (sample_component 2))) 1 None sample_env
      = Done OMX_ErrorNone (Some oc', e') \<and> valid_handle oc' c' \<and> ports_wf c'"
proof -
  have "scan (slot_matches e (sample_port 2 200) None) 0 2 = Some None" for e
    by (rule scan_not_found) (auto simp: slot_matches_def MAX_BUFFER_NUM_def less_Suc_eq numeral_2_eq_2)
  then have "\<exists>hc' e'. SEC_OMX_FreeBuffer 7 (Some (sample_handle (sample_component 2))) 1 None sample_env
      = Done OMX_ErrorNone (hc', e')"
    by (simp add: SEC_OMX_FreeBuffer_def FreeBuffer_body_def FreeBuffer_search_def)
  then obtain hc' e' where r: "SEC_OMX_FreeBuffer 7 (Some (sample_handle (sample_component 2))) 1 None sample_env
      = Done OMX_ErrorNone (hc', e')" by blast
  then show ?thesis
    using buffer_entry_points_keep_ports_wf [OF sample_handle_valid sample_ports_wf, of 2 1 None 0 None sample_env
        "(OMX_ErrorNone, None)" hc' e' 7 None OMX_ErrorNone]
    by (auto simp: MAX_BUFFER_NUM_def)
qed

text \<open>
  Freeing the buffer in slot \<open>i\<close> when every earlier occupied slot holds a header in memory with a
  different data address: the two blocks go back and the slot is free again.
\<close>

lemma FreeBuffer_search_hit:
  assumes wf: "port_wf p" and i: "i < unat (nBufferCountActual (portDefinition p))"
    and st: "bufferStateAllocate p ! i = or BUFFER_STATE_ALLOCATED HEADER_STATE_ALLOCATED"
    and h: "bufferHeader p ! i = Some h" and bh: "hdr_heap e h = Some bh" "pBuffer bh = Some buf"
    and other: "\<forall>j<i. \<forall>g. bufferHeader p ! j = Some g \<longrightarrow>
                  (\<exists>bg. hdr_heap e g = Some bg \<and> pBuffer bg \<noteq> Some buf)"
  shows "\<exists>p' e'. FreeBuffer_search n (Some h) p c e = Done OMX_ErrorNone (set_port (uint n) (free_epilogue p') c, e') \<and>
    bufferHeader p' = (bufferHeader p)[i := None] \<and>
    bufferStateAllocate p' = (bufferStateAllocate p)[i := BUFFER_STATE_FREE] \<and>
    assignedBufferNum p' = assignedBufferNum p - 1 \<and> portDefinition p' = portDefinition p \<and>
    live_blocks e' = live_blocks e - 2 \<and> hdr_heap e' = (hdr_heap e)(h := None)"
proof -
  let ?n = "unat (nBufferCountActual (portDefinition p))"
  have len: "?n \<le> length (bufferStateAllocate p)" "?n \<le> length (bufferHeader p)"
    using wf by (auto simp: port_wf_def)
  have free: "bufferStateAllocate p ! j = BUFFER_STATE_FREE \<longleftrightarrow> bufferHeader p ! j = None" if "j < ?n" for j
    using wf that by (auto simp: port_wf_def)
  have miss: "slot_matches e p (Some h) (0 + j) = Some False" if lt: "j < i" for j
  proof (cases "bufferHeader p ! j")
    case None
    then show ?thesis using lt len i by (auto simp: slot_matches_def)
  next
    case (Some g)
    then obtain bg where "hdr_heap e g = Some bg" "pBuffer bg \<noteq> Some buf" using other lt by blast
    then show ?thesis using lt len i Some bh by (auto simp: slot_matches_def)
  qed
  have hit: "slot_matches e p (Some h) (0 + i) = Some True"
    using i len h st bh by (simp add: slot_matches_def buffer_state_defs)
  have scan: "scan (slot_matches e p (Some h)) 0 ?n = Some (Some i)"
    using scan_found [of i "slot_matches e p (Some h)" 0 ?n] miss hit i by simp
  obtain p' e' where r: "release_slot i (Some h) p e = (p', e')" by fastforce
  note rf = release_slot_fields [OF r]
  have "bufferHeader p' = (bufferHeader p)[i := None]"
    using rf(2) st by (simp add: buffer_state_defs)
  moreover have "live_blocks e' = live_blocks e - 2" "hdr_heap e' = (hdr_heap e)(h := None)"
    using r st h bh by (auto simp: release_slot_def Let_def buffer_state_defs upd_hdr_def)
  ultimately show ?thesis
    using scan r rf by (auto simp: FreeBuffer_search_def)
qed

lemma free_epilogue_fields [simp]:
  "bufferHeader (free_epilogue p) = bufferHeader p"
  "bufferStateAllocate (free_epilogue p) = bufferStateAllocate p"
  "assignedBufferNum (free_epilogue p) = assignedBufferNum p"
  by (simp_all add: free_epilogue_def)

lemma FreeBuffer_hit:
  assumes vh: "valid_handle oc c" and at: "port_at c (uint n) = Some p"
    and nt: "\<not> CHECK_PORT_TUNNELED p" and cb: "pCallbacks c \<noteq> None"
    and slot: "port_wf p" "i < unat (nBufferCountActual (portDefinition p))"
      "bufferStateAllocate p ! i = or BUFFER_STATE_ALLOCATED HEADER_STATE_ALLOCATED"
      "bufferHeader p ! i = Some h" "hdr_heap e h = Some bh" "pBuffer bh = Some buf"
      "\<forall>j<i. \<forall>g. bufferHeader p ! j = Some g \<longrightarrow> (\<exists>bg. hdr_heap e g = Some bg \<and> pBuffer bg \<noteq> Some buf)"
  shows "\<exists>oc' c' p' e'. SEC_OMX_FreeBuffer self (Some oc) n (Some h) e = Done OMX_ErrorNone (Some oc', e') \<and>
    valid_handle oc' c' \<and> port_at c' (uint n) = Some p' \<and>
    bufferHeader p' = (bufferHeader p)[i := None] \<and>
    bufferStateAllocate p' = (bufferStateAllocate p)[i := BUFFER_STATE_FREE] \<and>
    assignedBufferNum p' = assignedBufferNum p - 1 \<and>
    live_blocks e' = live_blocks e - 2 \<and> hdr_heap e' = (hdr_heap e)(h := None)"
proof -
  define e1 where "e1 = (if portState p \<noteq> OMX_StateLoaded \<and> portState p \<noteq> OMX_StateInvalid
      then record_call self (EventError OMX_ErrorPortUnpopulated n) e else e)"
  have e1: "hdr_heap e1 = hdr_heap e" "live_blocks e1 = live_blocks e" by (simp_all add: e1_def)
  have body: "FreeBuffer_body self n (Some h) c e = FreeBuffer_search n (Some h) p c e1"
    using cb at nt by (auto simp: FreeBuffer_body_def e1_def callback_def)
  obtain p' e' where f: "FreeBuffer_search n (Some h) p c e1 =
      Done OMX_ErrorNone (set_port (uint n) (free_epilogue p') c, e')"
    and p': "bufferHeader p' = (bufferHeader p)[i := None]"
      "bufferStateAllocate p' = (bufferStateAllocate p)[i := BUFFER_STATE_FREE]"
      "assignedBufferNum p' = assignedBufferNum p - 1"
    and e': "live_blocks e' = live_blocks e1 - 2" "hdr_heap e' = (hdr_heap e1)(h := None)"
    using FreeBuffer_search_hit [of p i h e1 bh buf n c] slot by (auto simp: e1)
  let ?c' = "set_port (uint n) (free_epilogue p') c"
  have "SEC_OMX_FreeBuffer self (Some oc) n (Some h) e =
      Done OMX_ErrorNone (Some (oc\<lparr>pComponentPrivate := Some ?c'\<rparr>), e')"
    unfolding SEC_OMX_FreeBuffer_def entry_valid [OF vh] body f by simp
  moreover have "port_at ?c' (uint n) = Some (free_epilogue p')" using at by simp
  ultimately show ?thesis
    using valid_handle_update [OF vh, of ?c'] p' e'
    by (intro exI [of _ "oc\<lparr>pComponentPrivate := Some ?c'\<rparr>"] exI [of _ ?c'] exI [of _ "free_epilogue p'"]
        exI [of _ e']) (simp add: e1)
qed

text \<open>C5. \<open>AllocateBuffer\<close> followed by \<open>FreeBuffer\<close> of the header it returned is a round trip: the
  slot arrays and the number of assigned buffers of the port are as before, both blocks are
  returned, and the header is gone. (The hypotheses on the heap say that the headers of the
  port are in memory and that the allocator does not hand out an address in use.)\<close>

theorem allocate_free_roundtrip:
  assumes vh: "valid_handle oc c" and wf: "ports_wf c" and n: "n < nPorts (portParam c)"
    and p: "port_at c (uint n) = Some p" and nt: "\<not> CHECK_PORT_TUNNELED p" and mem: "sys_answers e = []"
    and room: "occupied p < unat (nBufferCountActual (portDefinition p))" and cb: "pCallbacks c \<noteq> None"
    and live: "\<forall>g. Some g \<in> set (bufferHeader p) \<longrightarrow>
                 (\<exists>bg. hdr_heap e g = Some bg \<and> pBuffer bg \<noteq> Some (next_addr e))"
    and fresh: "hdr_heap e (next_addr e + 1) = None"
  shows "\<exists>h oc1 e1 oc2 c2 p2 e2.
    SEC_OMX_AllocateBuffer (Some oc) n ap sz e = Done (OMX_ErrorNone, Some h) (Some oc1, e1) \<and>
    SEC_OMX_FreeBuffer self (Some oc1) n (Some h) e1 = Done OMX_ErrorNone (Some oc2, e2) \<and>
    valid_handle oc2 c2 \<and> port_at c2 (uint n) = Some p2 \<and>
    bufferHeader p2 = bufferHeader p \<and> bufferStateAllocate p2 = bufferStateAllocate p \<and>
    assignedBufferNum p2 = assignedBufferNum p \<and>
    live_blocks e2 = live_blocks e \<and> hdr_heap e2 = hdr_heap e"
proof -
  let ?st = "or BUFFER_STATE_ALLOCATED HEADER_STATE_ALLOCATED"
  let ?h = "next_addr e + 1"
  let ?e1 = "upd_hdr ?h (fresh_header n ap sz (Some (next_addr e)))
        (e\<lparr>mem_cnt := mem_cnt e + 2, live_blocks := live_blocks e + 2, next_addr := next_addr e + 2\<rparr>)"
  have pw: "port_wf p" using wf p ports_wf_at by blast
  obtain i where i: "find_free_slot p = Some (Some i)" "i < unat (nBufferCountActual (portDefinition p))"
      "bufferStateAllocate p ! i = BUFFER_STATE_FREE" "\<forall>j<i. bufferStateAllocate p ! j \<noteq> BUFFER_STATE_FREE"
    using pw room room_iff_free [OF pw] by (cases rule: find_free_slot_cases) auto
  let ?p1 = "assign_slot ?st i ?h p" and ?c1 = "set_port (uint n) (assign_slot ?st i ?h p) c"
  let ?oc1 = "oc\<lparr>pComponentPrivate := Some ?c1\<rparr>"
  have len: "i < MAX_BUFFER_NUM" "length (bufferHeader p) = MAX_BUFFER_NUM"
    "length (bufferStateAllocate p) = MAX_BUFFER_NUM" using pw i by (auto simp: port_wf_def)
  have nz: "?st \<noteq> BUFFER_STATE_FREE" by (simp add: buffer_state_defs)
  have none: "bufferHeader p ! i = None" using pw i(3) len by (auto simp: port_wf_def)
  have alloc: "SEC_OMX_AllocateBuffer (Some oc) n ap sz e = Done (OMX_ErrorNone, Some ?h) (Some ?oc1, ?e1)"
    unfolding SEC_OMX_AllocateBuffer_def entry_with_valid [OF vh]
      AllocateBuffer_body_memory [OF n p nt mem] i(1) by simp
  have wf1: "port_wf ?p1" using assign_slot_wf [OF pw i(2,3)] by blast
  note pop = assign_slot_populates [OF pw i(2,3) nz, of ?h]
  have heap1: "hdr_heap ?e1 = (hdr_heap e)(?h \<mapsto> fresh_header n ap sz (Some (next_addr e)))"
    "live_blocks ?e1 = live_blocks e + 2" by (auto simp: upd_hdr_def)
  have nt1: "\<not> CHECK_PORT_TUNNELED ?p1"
    using nt by (simp add: assign_slot_def CHECK_PORT_TUNNELED_def Let_def)
  have other: "\<forall>j<i. \<forall>g. bufferHeader ?p1 ! j = Some g \<longrightarrow>
      (\<exists>bg. hdr_heap ?e1 g = Some bg \<and> pBuffer bg \<noteq> Some (next_addr e))"
  proof (intro allI impI)
    fix j g assume "j < i" "bufferHeader ?p1 ! j = Some g"
    then have "Some g \<in> set (bufferHeader p)"
      using len by (auto simp: assign_slot_fields set_conv_nth intro!: exI [of _ j])
    then obtain bg where bg: "hdr_heap e g = Some bg" "pBuffer bg \<noteq> Some (next_addr e)" using live by blast
    then have "g \<noteq> ?h" using fresh by auto
    then show "\<exists>bg. hdr_heap ?e1 g = Some bg \<and> pBuffer bg \<noteq> Some (next_addr e)"
      using bg unfolding heap1 by simp
  qed
  have at1: "port_at ?c1 (uint n) = Some ?p1" using p by simp
  have cb1: "pCallbacks ?c1 \<noteq> None" using cb by (simp add: set_port_def)
  have i1: "i < unat (nBufferCountActual (portDefinition ?p1))" using i(2) by (simp add: assign_slot_fields)
  have hh: "hdr_heap ?e1 ?h = Some (fresh_header n ap sz (Some (next_addr e)))" by (simp add: upd_hdr_def)
  have pb: "pBuffer (fresh_header n ap sz (Some (next_addr e))) = Some (next_addr e)"
    by (simp add: fresh_header_def Let_def)
  obtain oc2 c2 p2 e2 where free: "SEC_OMX_FreeBuffer self (Some ?oc1) n (Some ?h) ?e1 = Done OMX_ErrorNone (Some oc2, e2)"
    "valid_handle oc2 c2" "port_at c2 (uint n) = Some p2"
    and p2: "bufferHeader p2 = (bufferHeader ?p1)[i := None]"
      "bufferStateAllocate p2 = (bufferStateAllocate ?p1)[i := BUFFER_STATE_FREE]"
      "assignedBufferNum p2 = assignedBufferNum ?p1 - 1"
    and e2: "live_blocks e2 = live_blocks ?e1 - 2" "hdr_heap e2 = (hdr_heap ?e1)(?h := None)"
    using FreeBuffer_hit [OF valid_handle_update [OF vh] at1 nt1 cb1 wf1 i1 pop(3,2) hh pb other, of self]
    by blast
  have "bufferHeader p2 = bufferHeader p" "bufferStateAllocate p2 = bufferStateAllocate p"
      "assignedBufferNum p2 = assignedBufferNum p"
    using list_update_id [of "bufferHeader p" i] list_update_id [of "bufferStateAllocate p" i] none i(3)
    by (simp_all add: p2 assign_slot_fields)
  moreover have "live_blocks e2 = live_blocks e" "hdr_heap e2 = hdr_heap e"
    using fresh unfolding e2 heap1 by (simp_all add: fun_upd_idem)
  ultimately show ?thesis using alloc free by blast
qed

theorem allocate_free_roundtrip_witness:
  "\<exists>h oc1 e1 oc2 e2.
    SEC_OMX_AllocateBuffer (Some (sample_handle (sample_component 3))) 1 None 64 sample_env
      = Done (OMX_ErrorNone, Some h) (Some oc1, e1) \<and>
    SEC_OMX_FreeBuffer 7 (Some oc1) 1 (Some h) e1 = Done OMX_ErrorNone (Some oc2, e2) \<and>
    live_blocks e2 = 0"
  using allocate_free_roundtrip [OF sample_handle_valid sample_ports_wf, of 3 1 "sample_port 3 200"
      sample_env None 64 7]
  by (fastforce simp: occupied_def MAX_BUFFER_NUM_def)

text \<open>With more slots announced than the arrays hold and every slot taken, the search runs off the end.\<close>

lemma AllocateBuffer_overrun:
  assumes vh: "valid_handle oc c" and n: "n < nPorts (portParam c)"
    and p: "port_at c (uint n) = Some p" and nt: "\<not> CHECK_PORT_TUNNELED p" and mem: "sys_answers e = []"
    and full: "length (bufferStateAllocate p) = MAX_BUFFER_NUM"
      "\<forall>i<MAX_BUFFER_NUM. bufferStateAllocate p ! i \<noteq> BUFFER_STATE_FREE"
    and count: "MAX_BUFFER_NUM < unat (nBufferCountActual (portDefinition p))"
  shows "SEC_OMX_AllocateBuffer (Some oc) n ap sz e = Crash"
proof -
  have "find_free_slot p = None"
    unfolding find_free_slot_def using full count
    by (intro scan_undefined [where k = MAX_BUFFER_NUM]) auto
  then show ?thesis
    unfolding SEC_OMX_AllocateBuffer_def entry_with_valid [OF vh] AllocateBuffer_body_memory [OF n p nt mem]
    by simp
qed




end
