(* ===== verification/SEC_Port.thy ===== *)
theory SEC_Port
  imports SEC_Vdec_Buffers
begin

text \<open>
  The port operations of \<open>component/common/SEC_OMX_Baseport.c\<close>: flushing, enabling and
  disabling a port, handing a buffer to a port (\<open>EmptyThisBuffer\<close>, \<open>FillThisBuffer\<close>), and
  the construction and destruction of the two ports.

  \<open>self\<close> is the address of the component, which the callbacks carry; port indices are the
  signed \<open>OMX_S32\<close> of the source, and an index outside the port array is a \<open>Crash\<close>.
\<close>

section \<open>Flushing\<close>

text \<open>
  One turn at the semaphore of a port: take a count, after posting one if there is none.
  A NULL handle leaves the local \<open>semValue\<close> at its initial 0, and both calls fail.
\<close>

definition flush_semaphore :: "sema \<Rightarrow> (OMX_ERRORTYPE, sema) outcome" where
  "flush_semaphore sem =
    (let (_, semValue) = SEC_OSAL_Get_SemaphoreCount sem 0;
         sem1 = (if semValue = 0 then snd (SEC_OSAL_SemaphorePost sem) else sem)
     in SEC_OSAL_SemaphoreWait sem1)"

lemma Dequeue_Some_numElem:
  "SEC_OSAL_Dequeue q = Done (Some x) q' \<Longrightarrow> 0 < numElem q \<and> numElem q' = numElem q - 1"
  by (auto simp: SEC_OSAL_Dequeue_def split: option.splits if_splits)

text \<open>
  The loop that returns the queued buffers. When \<open>SEC_OSAL_Dequeue\<close> yields NULL although the
  counter is positive, nothing changes and the loop repeats for ever. The result is
  \<open>None\<close> at the regular end and \<open>Some ret\<close> for \<open>goto EXIT\<close>.
\<close>

function flush_loop ::
  "ptr \<Rightarrow> int \<Rightarrow> SEC_OMX_BASECOMPONENT \<Rightarrow> SEC_OMX_BASEPORT \<Rightarrow> omx_env \<Rightarrow>
   (OMX_ERRORTYPE option, SEC_OMX_BASEPORT \<times> omx_env) outcome" where
  "flush_loop self i c p e =
    (if SEC_OSAL_GetElemNum (bufferQ p) > 0 then
       bindO (flush_semaphore (bufferSemID p)) (\<lambda>_ sem.
       bindO (SEC_OSAL_Dequeue (bufferQ p)) (\<lambda>item q.
         let p1 = p\<lparr>bufferSemID := sem, bufferQ := q\<rparr> in
         case item of
           None \<Rightarrow> Diverges
         | Some it \<Rightarrow>
             (case item_header e it of
                None \<Rightarrow> Crash
              | Some (h, bh) \<Rightarrow>
                  let e1 = upd_hdr h (bh\<lparr>nFilledLen := 0\<rparr>) e in
                  if CHECK_PORT_TUNNELED p1 \<and> \<not> CHECK_PORT_BUFFER_SUPPLIER p1 then
                    flush_loop self i c p1
                      (SEC_OSAL_Free (Some it)
                        (record_call self (if i \<noteq> 0 then TunnelEmptyThisBuffer h
                                           else TunnelFillThisBuffer h) e1))
                  else if CHECK_PORT_TUNNELED p1 \<and> CHECK_PORT_BUFFER_SUPPLIER p1 then
                    bindO (SEC_OSAL_Queue q (Some QPort)) (\<lambda>_ q'.
                      Done (Some OMX_ErrorNotImplemented) (p1\<lparr>bufferQ := q'\<rparr>, e1))
                  else
                    bindO (callback self (if i = OUTPUT_PORT_INDEX then FillBufferDone h
                                          else EmptyBufferDone h) c e1)
                      (\<lambda>_ (_, e2). flush_loop self i c p1 (SEC_OSAL_Free (Some it) e2)))))
     else Done None (p, e))"
  by pat_completeness auto

termination
  by (relation "measure (\<lambda>(self, i, c, p, e). nat (numElem (bufferQ p)))")
    (auto dest: Dequeue_Some_numElem)

declare flush_loop.simps [simp del]

text \<open>The closing loops: drain the semaphore, or (supplier) wait until all buffers are back.\<close>

fun drain_semaphore :: "sema \<Rightarrow> sema" where
  "drain_semaphore None = None"
| "drain_semaphore (Some 0) = Some 0"
| "drain_semaphore (Some (Suc n)) = drain_semaphore (Some n)"

fun supplier_wait :: "'a SEC_QUEUE \<Rightarrow> int \<Rightarrow> sema \<Rightarrow> (unit, sema) outcome" where
  "supplier_wait q n None = (if SEC_OSAL_GetElemNum q < n then Diverges else Done () None)"
| "supplier_wait q n (Some 0) = (if SEC_OSAL_GetElemNum q < n then Blocked else Done () (Some 0))"
| "supplier_wait q n (Some (Suc m)) =
    (if SEC_OSAL_GetElemNum q < n then supplier_wait q n (Some m) else Done () (Some (Suc m)))"

definition flush_settle :: "SEC_OMX_BASEPORT \<Rightarrow> (unit, SEC_OMX_BASEPORT) outcome" where
  "flush_settle p =
    (if CHECK_PORT_TUNNELED p \<and> CHECK_PORT_BUFFER_SUPPLIER p then
       bindO (supplier_wait (bufferQ p) (sint (assignedBufferNum p)) (bufferSemID p)) (\<lambda>_ sem.
         let q = (if SEC_OSAL_GetElemNum (bufferQ p) \<noteq> sint (assignedBufferNum p)
                  then snd (SEC_OSAL_SetElemNum (bufferQ p) (sint (assignedBufferNum p)))
                  else bufferQ p)
         in Done () (p\<lparr>bufferSemID := sem, bufferQ := q\<rparr>))
     else Done () (p\<lparr>bufferSemID := drain_semaphore (bufferSemID p),
                     bufferQ := snd (SEC_OSAL_SetElemNum (bufferQ p) 0)\<rparr>))"

text \<open>The buffer the component is working on goes back too (or, supplier, into the queue).\<close>

definition flush_held ::
  "codec_ops \<Rightarrow> ptr \<Rightarrow> int \<Rightarrow> SEC_OMX_BASEPORT \<Rightarrow> SEC_OMX_DATABUFFER \<Rightarrow>
   SEC_OMX_BASECOMPONENT \<Rightarrow> omx_env \<Rightarrow> (unit, comp_state) outcome" where
  "flush_held ops self i p db c e =
    (if \<not> dataValid db then Done () (c, e)
     else if CHECK_PORT_TUNNELED p \<and> CHECK_PORT_BUFFER_SUPPLIER p then
       (case SEC_OSAL_Malloc e of
          (None, e1) \<Rightarrow> Crash
        | (Some _, e1) \<Rightarrow>
            bindO (SEC_OSAL_Queue (bufferQ p)
                     (Some (QMsg \<lparr>messageType = OMX_CommandStateSet, messageParam = -1,
                        pCmdData = (case db_bufferHeader db of None \<Rightarrow> CmdNull | Some h \<Rightarrow> CmdHeader h)\<rparr>)))
              (\<lambda>_ q. bindO (sec_BufferReset ops i (set_port i (p\<lparr>bufferQ := q\<rparr>) c) e1) (\<lambda>_ s. Done () s)))
     else if i = INPUT_PORT_INDEX then bindO (sec_InputBufferReturn ops self c e) (\<lambda>_ s. Done () s)
     else if i = OUTPUT_PORT_INDEX then bindO (sec_OutputBufferReturn ops self c e) (\<lambda>_ s. Done () s)
     else Done () (c, e))"

definition SEC_OMX_FlushPort ::
  "codec_ops \<Rightarrow> ptr \<Rightarrow> int \<Rightarrow> SEC_OMX_BASECOMPONENT \<Rightarrow> omx_env \<Rightarrow> (OMX_ERRORTYPE, comp_state) outcome" where
  "SEC_OMX_FlushPort ops self portIndex c e =
    (case port_at c portIndex of
       None \<Rightarrow> Crash
     | Some p \<Rightarrow>
         bindO (flush_loop self portIndex c p e) (\<lambda>r (p1, e1).
           let c1 = set_port portIndex p1 c in
           case r of
             Some ret \<Rightarrow> Done ret (c1, e1)
           | None \<Rightarrow>
               (case array_at (secDataBuffer c1) portIndex of
                  None \<Rightarrow> Crash
                | Some db \<Rightarrow>
                    bindO (flush_held ops self portIndex p1 db c1 e1) (\<lambda>_ (c2, e2).
                      case (port_at c2 portIndex, array_at (processData c2) portIndex) of
                        (Some p2, Some pd) \<Rightarrow>
                          bindO (flush_settle p2) (\<lambda>_ p3.
                            Done OMX_ErrorNone
                              (set_processData portIndex
                                 (pd\<lparr>pr_dataLen := 0, pr_nFlags := 0, pr_remainDataLen := 0,
                                     pr_timeStamp := 0, pr_usedDataLen := 0\<rparr>)
                                 (set_port portIndex p3 c2), e2))
                      | _ \<Rightarrow> Crash))))"

section \<open>Flush, enable and disable commands\<close>

definition modify_port ::
  "int \<Rightarrow> (SEC_OMX_BASEPORT \<Rightarrow> SEC_OMX_BASEPORT) \<Rightarrow> SEC_OMX_BASECOMPONENT \<Rightarrow> SEC_OMX_BASECOMPONENT option" where
  "modify_port i f c = map_option (\<lambda>p. set_port i (f p) c) (port_at c i)"

text \<open>The ports a command addresses, in the order of its loop.\<close>

definition command_ports :: "int \<Rightarrow> int list" where
  "command_ports nPortIndex =
    (if nPortIndex = ALL_PORT_INDEX then map int [0..<ALL_PORT_NUM] else [nPortIndex])"

text \<open>The loop over these ports; \<open>ret\<close> keeps the result of the last one.\<close>

primrec for_ports ::
  "(int \<Rightarrow> SEC_OMX_BASECOMPONENT \<Rightarrow> omx_env \<Rightarrow> (OMX_ERRORTYPE, comp_state) outcome) \<Rightarrow> OMX_ERRORTYPE \<Rightarrow>
   int list \<Rightarrow> SEC_OMX_BASECOMPONENT \<Rightarrow> omx_env \<Rightarrow> (OMX_ERRORTYPE, comp_state) outcome" where
  "for_ports f ret [] c e = Done ret (c, e)"
| "for_ports f ret (i # is) c e = bindO (f i c e) (\<lambda>ret' (c', e'). for_ports f ret' is c' e')"

text \<open>The common exit: an error is also reported to the client.\<close>

definition report_error ::
  "ptr \<Rightarrow> OMX_ERRORTYPE \<Rightarrow> SEC_OMX_BASECOMPONENT \<Rightarrow> omx_env \<Rightarrow> (OMX_ERRORTYPE, comp_state) outcome" where
  "report_error self ret c e =
    (if ret \<noteq> OMX_ErrorNone then bindO (callback self (EventError ret 0) c e) (\<lambda>_ s. Done ret s)
     else Done ret (c, e))"

definition after_flush :: "bool \<Rightarrow> int \<Rightarrow> SEC_OMX_BASECOMPONENT \<Rightarrow> SEC_OMX_BASECOMPONENT" where
  "after_flush clear_remain i c =
    (if i = INPUT_PORT_INDEX then
       c\<lparr>checkTimeStamp := (checkTimeStamp c)\<lparr>needSetStartTimeStamp := True, needCheckStartTimeStamp := False\<rparr>,
         timeStamp := SEC_OSAL_Memset_ticks (-19771003) MAX_TIMESTAMP,
         nFlags := replicate MAX_FLAGS 0, getAllDelayBuffer := False, bSaveFlagEOS := False,
         remainOutputData := (if clear_remain then False else remainOutputData c),
         reInputData := False\<rparr>
     else if i = OUTPUT_PORT_INDEX then c\<lparr>remainOutputData := False\<rparr>
     else c)"

text \<open>\<open>SEC_OSAL_SignalSet(pSECComponent->pauseEvent)\<close>.\<close>

definition signal_pause :: "SEC_OMX_BASECOMPONENT \<Rightarrow> (OMX_ERRORTYPE, SEC_OMX_BASECOMPONENT) outcome" where
  "signal_pause c =
    (if pauseEventFreed c then Crash
     else (case SEC_OSAL_SignalSet (pauseEvent c) of (ret, ev) \<Rightarrow> Done ret (c\<lparr>pauseEvent := ev\<rparr>)))"

definition flush_process_port ::
  "codec_ops \<Rightarrow> ptr \<Rightarrow> int \<Rightarrow> SEC_OMX_BASECOMPONENT \<Rightarrow> omx_env \<Rightarrow> (OMX_ERRORTYPE, comp_state) outcome" where
  "flush_process_port ops self i c e =
    bindO (bindO (signal_pause c) (\<lambda>_ c0. SEC_OMX_FlushPort ops self i c0 e))
      (\<lambda>ret (c1, e1).
        case modify_port i (\<lambda>p. p\<lparr>bIsPortFlushed := False\<rparr>) c1 of
          None \<Rightarrow> Crash
        | Some c2 \<Rightarrow>
            bindO (if ret = OMX_ErrorNone
                   then callback self (EventCmdComplete OMX_CommandFlush (word_of_int i)) c2 e1
                   else Done () (c2, e1))
              (\<lambda>_ (c3, e3). Done ret (after_flush False i c3, e3)))"

definition SEC_OMX_BufferFlushProcess ::
  "codec_ops \<Rightarrow> ptr \<Rightarrow> OMX_COMPONENTTYPE option \<Rightarrow> int \<Rightarrow> omx_env \<Rightarrow>
   (OMX_ERRORTYPE, OMX_COMPONENTTYPE option \<times> omx_env) outcome" where
  "SEC_OMX_BufferFlushProcess ops self pOMXComponent nPortIndex =
    entry pOMXComponent (\<lambda>c e.
      bindO (for_ports (flush_process_port ops self) OMX_ErrorNone (command_ports nPortIndex) c e)
        (\<lambda>ret (c1, e1). report_error self ret c1 e1))"

definition flush_noevent_port ::
  "codec_ops \<Rightarrow> ptr \<Rightarrow> int \<Rightarrow> SEC_OMX_BASECOMPONENT \<Rightarrow> omx_env \<Rightarrow> (OMX_ERRORTYPE, comp_state) outcome" where
  "flush_noevent_port ops self i c e =
    (case modify_port i (\<lambda>p. p\<lparr>bIsPortFlushed := True\<rparr>) c of
       None \<Rightarrow> Crash
     | Some c0 \<Rightarrow>
         bindO (bindO (signal_pause c0) (\<lambda>_ c1. SEC_OMX_FlushPort ops self i c1 e))
           (\<lambda>ret (c1, e1).
             case modify_port i (\<lambda>p. p\<lparr>bIsPortFlushed := False\<rparr>) c1 of
               None \<Rightarrow> Crash
             | Some c2 \<Rightarrow> Done ret (after_flush True i c2, e1)))"

definition BufferFlushProcessNoEvent_body ::
  "codec_ops \<Rightarrow> ptr \<Rightarrow> int \<Rightarrow> SEC_OMX_BASECOMPONENT \<Rightarrow> omx_env \<Rightarrow> (OMX_ERRORTYPE, comp_state) outcome" where
  "BufferFlushProcessNoEvent_body ops self nPortIndex c e =
    bindO (for_ports (flush_noevent_port ops self) OMX_ErrorNone (command_ports nPortIndex) c e)
      (\<lambda>ret (c1, e1). report_error self ret c1 e1)"

definition SEC_OMX_BufferFlushProcessNoEvent ::
  "codec_ops \<Rightarrow> ptr \<Rightarrow> OMX_COMPONENTTYPE option \<Rightarrow> int \<Rightarrow> omx_env \<Rightarrow>
   (OMX_ERRORTYPE, OMX_COMPONENTTYPE option \<times> omx_env) outcome" where
  "SEC_OMX_BufferFlushProcessNoEvent ops self pOMXComponent nPortIndex =
    entry pOMXComponent (BufferFlushProcessNoEvent_body ops self nPortIndex)"

text \<open>
  \<open>SEC_OMX_EnablePort\<close>: unless the component is still loaded or waits for resources, the call
  returns only after the client has populated the port (\<open>loadedResource\<close>).
\<close>

definition SEC_OMX_EnablePort ::
  "codec_ops \<Rightarrow> int \<Rightarrow> SEC_OMX_BASECOMPONENT \<Rightarrow> omx_env \<Rightarrow> (OMX_ERRORTYPE, comp_state) outcome" where
  "SEC_OMX_EnablePort ops portIndex c e =
    (case port_at c portIndex of
       None \<Rightarrow> Crash
     | Some p \<Rightarrow>
         let p1 = p\<lparr>portDefinition := (portDefinition p)\<lparr>bEnabled := True\<rparr>\<rparr> in
         if CHECK_PORT_TUNNELED p1 \<and> CHECK_PORT_BUFFER_SUPPLIER p1 then
           (case sec_AllocateTunnelBuffer ops p1 portIndex of (ret, p2) \<Rightarrow>
              if ret \<noteq> OMX_ErrorNone then Done ret (set_port portIndex p2 c, e)
              else (let p3 = p2\<lparr>portDefinition := (portDefinition p2)\<lparr>bPopulated := True\<rparr>\<rparr>;
                        p4 = (if currentState c = OMX_StateExecuting
                              then p3\<lparr>bufferSemID := ((\<lambda>s. snd (SEC_OSAL_SemaphorePost s)) ^^
                                      unat (tunnelBufferNum p3)) (bufferSemID p3)\<rparr>
                              else p3)
                    in Done OMX_ErrorNone (set_port portIndex p4 c, e)))
         else if currentState c \<noteq> OMX_StateLoaded \<and> currentState c \<noteq> OMX_StateWaitForResources then
           bindO (SEC_OSAL_SemaphoreWait (loadedResource p1)) (\<lambda>_ sem.
             Done OMX_ErrorNone
               (set_port portIndex (p1\<lparr>loadedResource := sem,
                  portDefinition := (portDefinition p1)\<lparr>bPopulated := True\<rparr>\<rparr>) c, e))
         else Done OMX_ErrorNone (set_port portIndex p1 c, e))"

definition enable_process_port ::
  "codec_ops \<Rightarrow> ptr \<Rightarrow> int \<Rightarrow> SEC_OMX_BASECOMPONENT \<Rightarrow> omx_env \<Rightarrow> (OMX_ERRORTYPE, comp_state) outcome" where
  "enable_process_port ops self i c e =
    bindO (SEC_OMX_EnablePort ops i c e) (\<lambda>ret (c1, e1).
      if ret = OMX_ErrorNone
      then bindO (callback self (EventCmdComplete OMX_CommandPortEnable (word_of_int i)) c1 e1) (\<lambda>_ s. Done ret s)
      else Done ret (c1, e1))"

definition SEC_OMX_PortEnableProcess ::
  "codec_ops \<Rightarrow> ptr \<Rightarrow> OMX_COMPONENTTYPE option \<Rightarrow> int \<Rightarrow> omx_env \<Rightarrow>
   (OMX_ERRORTYPE, OMX_COMPONENTTYPE option \<times> omx_env) outcome" where
  "SEC_OMX_PortEnableProcess ops self pOMXComponent nPortIndex =
    entry pOMXComponent (\<lambda>c e.
      bindO (for_ports (enable_process_port ops self) OMX_ErrorNone (command_ports nPortIndex) c e)
        (\<lambda>ret (c1, e1). report_error self ret c1 e1))"

text \<open>\<open>while (SEC_OSAL_GetElemNum(&bufferQ) > 0)\<close>: dequeue and free the message.\<close>

function drain_queue :: "'a SEC_QUEUE \<Rightarrow> omx_env \<Rightarrow> (unit, 'a SEC_QUEUE \<times> omx_env) outcome" where
  "drain_queue q e =
    (if SEC_OSAL_GetElemNum q > 0 then
       bindO (SEC_OSAL_Dequeue q) (\<lambda>item q1.
         case item of
           None \<Rightarrow> Diverges
         | Some it \<Rightarrow> drain_queue q1 (SEC_OSAL_Free (Some it) e))
     else Done () (q, e))"
  by pat_completeness auto

termination
  by (relation "measure (\<lambda>(q, e). nat (numElem q))") (auto dest: Dequeue_Some_numElem)

declare drain_queue.simps [simp del]

text \<open>
  \<open>SEC_OMX_DisablePort\<close>: in any state but Loaded the call returns only after the client has
  taken all buffers back (\<open>unloadedResource\<close>).
\<close>

definition SEC_OMX_DisablePort ::
  "codec_ops \<Rightarrow> int \<Rightarrow> SEC_OMX_BASECOMPONENT \<Rightarrow> omx_env \<Rightarrow> (OMX_ERRORTYPE, comp_state) outcome" where
  "SEC_OMX_DisablePort ops portIndex c e =
    (case port_at c portIndex of
       None \<Rightarrow> Crash
     | Some p \<Rightarrow>
         let disable = (\<lambda>p'. p'\<lparr>portDefinition := (portDefinition p')\<lparr>bEnabled := False\<rparr>\<rparr>);
             depopulate = (\<lambda>p'. p'\<lparr>portDefinition := (portDefinition p')\<lparr>bPopulated := False\<rparr>\<rparr>) in
         if \<not> CHECK_PORT_ENABLED p then Done OMX_ErrorNone (c, e)
         else if currentState c = OMX_StateLoaded then Done OMX_ErrorNone (set_port portIndex (disable p) c, e)
         else if CHECK_PORT_TUNNELED p \<and> CHECK_PORT_BUFFER_SUPPLIER p then
           bindO (drain_queue (bufferQ p) e) (\<lambda>_ (q, e1).
             case sec_FreeTunnelBuffer ops (p\<lparr>bufferQ := q\<rparr>) portIndex of (ret, p1) \<Rightarrow>
               if ret \<noteq> OMX_ErrorNone then Done ret (set_port portIndex p1 c, e1)
               else Done OMX_ErrorNone (set_port portIndex (disable (depopulate p1)) c, e1))
         else
           bindO (if \<not> CHECK_PORT_TUNNELED p \<and> CHECK_PORT_BUFFER_SUPPLIER p
                  then drain_queue (bufferQ p) e else Done () (bufferQ p, e)) (\<lambda>_ (q, e1).
             bindO (SEC_OSAL_SemaphoreWait (unloadedResource p)) (\<lambda>_ sem.
               Done OMX_ErrorNone
                 (set_port portIndex (disable (depopulate (p\<lparr>bufferQ := q, unloadedResource := sem\<rparr>))) c, e1))))"

definition disable_flush_port ::
  "codec_ops \<Rightarrow> ptr \<Rightarrow> int \<Rightarrow> SEC_OMX_BASECOMPONENT \<Rightarrow> omx_env \<Rightarrow> (OMX_ERRORTYPE, comp_state) outcome" where
  "disable_flush_port ops self i c e =
    (case modify_port i (\<lambda>p. p\<lparr>bIsPortFlushed := True\<rparr>) c of
       None \<Rightarrow> Crash
     | Some c0 \<Rightarrow>
         bindO (SEC_OMX_FlushPort ops self i c0 e) (\<lambda>ret (c1, e1).
           case modify_port i (\<lambda>p. p\<lparr>bIsPortFlushed := False\<rparr>) c1 of
             None \<Rightarrow> Crash
           | Some c2 \<Rightarrow> Done ret (after_flush False i c2, e1)))"

definition disable_process_port ::
  "codec_ops \<Rightarrow> ptr \<Rightarrow> int \<Rightarrow> SEC_OMX_BASECOMPONENT \<Rightarrow> omx_env \<Rightarrow> (OMX_ERRORTYPE, comp_state) outcome" where
  "disable_process_port ops self i c e =
    bindO (SEC_OMX_DisablePort ops i c e) (\<lambda>ret (c1, e1).
      case modify_port i (\<lambda>p. p\<lparr>bIsPortDisabled := False\<rparr>) c1 of
        None \<Rightarrow> Crash
      | Some c2 \<Rightarrow>
          if ret = OMX_ErrorNone
          then bindO (callback self (EventCmdComplete OMX_CommandPortDisable (word_of_int i)) c2 e1)
                 (\<lambda>_ s. Done ret s)
          else Done ret (c2, e1))"

definition SEC_OMX_PortDisableProcess ::
  "codec_ops \<Rightarrow> ptr \<Rightarrow> OMX_COMPONENTTYPE option \<Rightarrow> int \<Rightarrow> omx_env \<Rightarrow>
   (OMX_ERRORTYPE, OMX_COMPONENTTYPE option \<times> omx_env) outcome" where
  "SEC_OMX_PortDisableProcess ops self pOMXComponent nPortIndex =
    entry pOMXComponent (\<lambda>c e.
      bindO (for_ports (disable_flush_port ops self) OMX_ErrorNone (command_ports nPortIndex) c e)
        (\<lambda>ret1 (c1, e1).
          bindO (for_ports (disable_process_port ops self) ret1 (command_ports nPortIndex) c1 e1)
            (\<lambda>ret (c2, e2). report_error self ret c2 e2)))"

section \<open>Handing a buffer to a port\<close>

definition buffer_refused :: "SEC_OMX_BASECOMPONENT \<Rightarrow> SEC_OMX_BASEPORT \<Rightarrow> bool" where
  "buffer_refused c p \<longleftrightarrow>
     \<not> CHECK_PORT_ENABLED p \<or>
     ((CHECK_PORT_BEING_FLUSHED p \<or> CHECK_PORT_BEING_DISABLED p) \<and>
      (\<not> CHECK_PORT_TUNNELED p \<or> \<not> CHECK_PORT_BUFFER_SUPPLIER p)) \<or>
     (transientState c = SEC_OMX_TransStateExecutingToIdle \<and>
      (CHECK_PORT_TUNNELED p \<and> \<not> CHECK_PORT_BUFFER_SUPPLIER p))"

definition find_buffer :: "SEC_OMX_BASEPORT \<Rightarrow> ptr \<Rightarrow> nat option option" where
  "find_buffer p h =
    scan (\<lambda>i. map_option (\<lambda>x. x = Some h) (array_at (bufferHeader p) (int i)))
         0 (unat (nBufferCountActual (portDefinition p)))"

text \<open>
  The body the two functions share; they differ in the port index member they compare,
  the port and the message type.
\<close>

definition ThisBuffer_body ::
  "(OMX_BUFFERHEADERTYPE \<Rightarrow> u32) \<Rightarrow> int \<Rightarrow> OMX_COMMANDTYPE \<Rightarrow> ptr option \<Rightarrow>
   SEC_OMX_BASECOMPONENT \<Rightarrow> omx_env \<Rightarrow> (OMX_ERRORTYPE, comp_state) outcome" where
  "ThisBuffer_body index_of i cmd buffer c e =
    (if currentState c = OMX_StateInvalid then Done OMX_ErrorInvalidState (c, e)
     else (case buffer of
       None \<Rightarrow> Done OMX_ErrorBadParameter (c, e)
     | Some h \<Rightarrow>
         (case hdr_heap e h of
            None \<Rightarrow> Crash
          | Some bh \<Rightarrow>
              if uint (index_of bh) \<noteq> i then Done OMX_ErrorBadPortIndex (c, e)
              else let ret = SEC_OMX_Check_SizeVersion (Some bh) sizeof_OMX_BUFFERHEADERTYPE in
              if ret \<noteq> OMX_ErrorNone then Done ret (c, e)
              else if currentState c \<noteq> OMX_StateIdle \<and> currentState c \<noteq> OMX_StateExecuting \<and>
                      currentState c \<noteq> OMX_StatePause
              then Done OMX_ErrorIncorrectStateOperation (c, e)
              else (case port_at c i of
                None \<Rightarrow> Crash
              | Some p \<Rightarrow>
                  if buffer_refused c p then Done OMX_ErrorIncorrectStateOperation (c, e)
                  else (case find_buffer p h of
                    None \<Rightarrow> Crash
                  | Some None \<Rightarrow> Done OMX_ErrorBadParameter (c, e)
                  | Some (Some k) \<Rightarrow>
                      (case SEC_OSAL_Malloc e of
                         (None, e1) \<Rightarrow> Done OMX_ErrorInsufficientResources (c, e1)
                       | (Some _, e1) \<Rightarrow>
                           bindO (SEC_OSAL_Queue (bufferQ p)
                                    (Some (QMsg \<lparr>messageType = cmd, messageParam = of_nat k, pCmdData = CmdHeader h\<rparr>)))
                             (\<lambda>r q.
                               if r \<noteq> 0 then Done OMX_ErrorUndefined (set_port i (p\<lparr>bufferQ := q\<rparr>) c, e1)
                               else (case SEC_OSAL_SemaphorePost (bufferSemID p) of (ret, sem) \<Rightarrow>
                                  Done ret (set_port i (p\<lparr>bufferQ := q, bufferSemID := sem\<rparr>) c, e1)))))))))"

definition SEC_OMX_EmptyThisBuffer ::
  "OMX_COMPONENTTYPE option \<Rightarrow> ptr option \<Rightarrow> omx_env \<Rightarrow>
   (OMX_ERRORTYPE, OMX_COMPONENTTYPE option \<times> omx_env) outcome" where
  "SEC_OMX_EmptyThisBuffer hComponent buffer =
    entry hComponent (ThisBuffer_body nInputPortIndex INPUT_PORT_INDEX SEC_OMX_CommandEmptyBuffer buffer)"

definition SEC_OMX_FillThisBuffer ::
  "OMX_COMPONENTTYPE option \<Rightarrow> ptr option \<Rightarrow> omx_env \<Rightarrow>
   (OMX_ERRORTYPE, OMX_COMPONENTTYPE option \<times> omx_env) outcome" where
  "SEC_OMX_FillThisBuffer hComponent buffer =
    entry hComponent (ThisBuffer_body nOutputPortIndex OUTPUT_PORT_INDEX SEC_OMX_CommandFillBuffer buffer)"

section \<open>Construction and destruction of the ports\<close>

text \<open>
  One port. The result of \<open>SEC_OSAL_QueueCreate\<close> is not looked at. On failure the blocks
  of this port made so far are released (but not the queue).
\<close>

definition init_port_fields :: "OMX_DIRTYPE \<Rightarrow> int \<Rightarrow> SEC_OMX_BASEPORT \<Rightarrow> SEC_OMX_BASEPORT" where
  "init_port_fields dir i p = p\<lparr>
     portDefinition := (INIT_SET_SIZE_VERSION zero_PORTDEFINITION sizeof_OMX_PARAM_PORTDEFINITIONTYPE)
       \<lparr>pd_nPortIndex := word_of_int i, eDir := dir, nBufferCountActual := 0, nBufferCountMin := 0,
        nBufferSize := 0, bEnabled := False, bPopulated := False, eDomain := OMX_PortDomainMax,
        bBuffersContiguous := False, nBufferAlignment := 0\<rparr>,
     markType := null_mark\<rparr>"

definition construct_port ::
  "OMX_DIRTYPE \<Rightarrow> int \<Rightarrow> SEC_OMX_BASEPORT \<Rightarrow> omx_env \<Rightarrow> (OMX_ERRORTYPE, SEC_OMX_BASEPORT \<times> omx_env) outcome" where
  "construct_port dir i p0 e0 =
    bindO (SEC_OSAL_QueueCreate (bufferQ p0) e0) (\<lambda>_ (q, e1).
      let p1 = p0\<lparr>bufferQ := q\<rparr> in
      case SEC_OSAL_Malloc e1 of
        (None, e2) \<Rightarrow> Done OMX_ErrorInsufficientResources (p1, e2)
      | (Some hdrs, e2) \<Rightarrow>
          (case SEC_OSAL_Malloc e2 of
             (None, e3) \<Rightarrow> Done OMX_ErrorInsufficientResources (p1, SEC_OSAL_Free (Some hdrs) e3)
           | (Some states, e3) \<Rightarrow>
               let p2 = p1\<lparr>bufferHeader := replicate MAX_BUFFER_NUM None,
                           bufferStateAllocate := replicate MAX_BUFFER_NUM 0,
                           bufferSemID := None, assignedBufferNum := 0, portState := OMX_StateMax,
                           bIsPortFlushed := False, bIsPortDisabled := False, tunneledComponent := None,
                           tunneledPort := 0, tunnelBufferNum := 0,
                           bufferSupplier := OMX_BufferSupplyUnspecified, tunnelFlags := 0\<rparr> in
               (case SEC_OSAL_SemaphoreCreate (loadedResource p2) e3 of (ret, loaded, e4) \<Rightarrow>
                  if ret \<noteq> OMX_ErrorNone
                  then Done ret (p2\<lparr>bufferHeader := [], bufferStateAllocate := []\<rparr>,
                                 SEC_OSAL_Free (Some hdrs) (SEC_OSAL_Free (Some states) e4))
                  else
                    (case SEC_OSAL_SemaphoreCreate (unloadedResource p2) e4 of (ret', unloaded, e5) \<Rightarrow>
                       if ret' \<noteq> OMX_ErrorNone
                       then Done ret' (p2\<lparr>bufferHeader := [], bufferStateAllocate := []\<rparr>,
                              SEC_OSAL_Free (Some hdrs) (SEC_OSAL_Free (Some states)
                                (snd (SEC_OSAL_SemaphoreTerminate loaded e5))))
                       else Done OMX_ErrorNone
                              (init_port_fields dir i (p2\<lparr>loadedResource := loaded, unloadedResource := unloaded\<rparr>), e5)))))"

definition release_input_port :: "SEC_OMX_BASEPORT \<Rightarrow> omx_env \<Rightarrow> omx_env" where
  "release_input_port p e =
    SEC_OSAL_Free (Some (bufferHeader p)) (SEC_OSAL_Free (Some (bufferStateAllocate p))
      (snd (SEC_OSAL_SemaphoreTerminate (loadedResource p)
        (snd (SEC_OSAL_SemaphoreTerminate (unloadedResource p) e)))))"

text \<open>
  After a failure \<open>pSECPort\<close> of the component still points to the freed array; the empty
  list stands for it, so that using it is a crash.
\<close>

definition Port_Constructor_body ::
  "SEC_OMX_BASECOMPONENT \<Rightarrow> omx_env \<Rightarrow> (OMX_ERRORTYPE, comp_state) outcome" where
  "Port_Constructor_body c e =
    (let c1 = c\<lparr>portParam := (INIT_SET_SIZE_VERSION (portParam zero_BASECOMPONENT) sizeof_OMX_PORT_PARAM_TYPE)
                  \<lparr>nPorts := of_nat ALL_PORT_NUM, nStartPortNumber := word_of_int INPUT_PORT_INDEX\<rparr>\<rparr> in
     case SEC_OSAL_Malloc e of
       (None, e1) \<Rightarrow> Done OMX_ErrorInsufficientResources (c1, e1)
     | (Some ports, e1) \<Rightarrow>
         bindO (construct_port OMX_DirInput INPUT_PORT_INDEX zero_BASEPORT e1) (\<lambda>ret (pin, e2).
           if ret \<noteq> OMX_ErrorNone then Done ret (c1\<lparr>pSECPort := []\<rparr>, SEC_OSAL_Free (Some ports) e2)
           else bindO (construct_port OMX_DirOutput OUTPUT_PORT_INDEX zero_BASEPORT e2) (\<lambda>ret' (pout, e3).
             if ret' \<noteq> OMX_ErrorNone
             then Done ret' (c1\<lparr>pSECPort := []\<rparr>, SEC_OSAL_Free (Some ports) (release_input_port pin e3))
             else Done OMX_ErrorNone
                    (c1\<lparr>pSECPort := [pin, pout],
                        checkTimeStamp := \<lparr>needSetStartTimeStamp = False, needCheckStartTimeStamp = False,
                                          startTimeStamp = 0, nStartFlags = 0\<rparr>\<rparr>, e3))))"

definition SEC_OMX_Port_Constructor ::
  "OMX_COMPONENTTYPE option \<Rightarrow> omx_env \<Rightarrow> (OMX_ERRORTYPE, OMX_COMPONENTTYPE option \<times> omx_env) outcome" where
  "SEC_OMX_Port_Constructor hComponent e =
    bindO (entry hComponent Port_Constructor_body e) (\<lambda>ret (hc, e1).
      Done ret (if ret = OMX_ErrorNone
                then map_option (\<lambda>oc. oc\<lparr>api := M_EmptyThisBuffer # M_FillThisBuffer # api oc\<rparr>) hc
                else hc, e1))"

text \<open>The address of an array, NULL for the empty list.\<close>

definition array_ptr :: "'a list \<Rightarrow> unit option" where
  "array_ptr xs = (if xs = [] then None else Some ())"

definition destruct_port ::
  "SEC_OMX_BASEPORT \<Rightarrow> omx_env \<Rightarrow> (unit, SEC_OMX_BASEPORT \<times> omx_env) outcome" where
  "destruct_port p e =
    (let e1 = snd (SEC_OSAL_SemaphoreTerminate (loadedResource p) e);
         e2 = snd (SEC_OSAL_SemaphoreTerminate (unloadedResource p) e1);
         e3 = SEC_OSAL_Free (array_ptr (bufferStateAllocate p)) e2;
         e4 = SEC_OSAL_Free (array_ptr (bufferHeader p)) e3
     in bindO (SEC_OSAL_QueueTerminate (bufferQ p) e4) (\<lambda>_ (q, e5).
          Done () (p\<lparr>loadedResource := None, unloadedResource := None, bufferStateAllocate := [],
                     bufferHeader := [], bufferQ := q\<rparr>, e5)))"

definition Port_Destructor_body ::
  "SEC_OMX_BASECOMPONENT \<Rightarrow> omx_env \<Rightarrow> (OMX_ERRORTYPE, comp_state) outcome" where
  "Port_Destructor_body c e =
    (case (port_at c INPUT_PORT_INDEX, port_at c OUTPUT_PORT_INDEX) of
       (Some pin, Some pout) \<Rightarrow>
         bindO (destruct_port pin e) (\<lambda>_ (_, e1).
         bindO (destruct_port pout e1) (\<lambda>_ (_, e2).
           Done OMX_ErrorNone (c\<lparr>pSECPort := []\<rparr>, SEC_OSAL_Free (array_ptr (pSECPort c)) e2)))
     | _ \<Rightarrow> Crash)"

definition SEC_OMX_Port_Destructor ::
  "OMX_COMPONENTTYPE option \<Rightarrow> omx_env \<Rightarrow> (OMX_ERRORTYPE, OMX_COMPONENTTYPE option \<times> omx_env) outcome" where
  "SEC_OMX_Port_Destructor hComponent = entry hComponent Port_Destructor_body"

section \<open>Flushing returns every buffer\<close>

definition done_cb :: "int \<Rightarrow> ptr \<Rightarrow> omx_callback" where
  "done_cb i h = (if i = OUTPUT_PORT_INDEX then FillBufferDone h else EmptyBufferDone h)"

fun item_ptr :: "queue_item \<Rightarrow> ptr" where
  "item_ptr (QMsg m) = (case pCmdData m of CmdHeader h \<Rightarrow> h | _ \<Rightarrow> 0)"
| "item_ptr QPort = 0"

lemma item_header_iff:
  "(\<exists>x. item_header e it = Some x) \<longleftrightarrow> (\<exists>m h. it = QMsg m \<and> pCmdData m = CmdHeader h \<and> h \<in> dom (hdr_heap e))"
  by (auto simp: item_header_def split: queue_item.splits cmd_data.splits)

lemma item_headerD: "item_header e it = Some (h, bh) \<Longrightarrow> item_ptr it = h \<and> hdr_heap e h = Some bh"
  by (auto simp: item_header_def split: queue_item.splits cmd_data.splits)

lemma flush_semaphore_Done:
  "\<exists>r sem'. flush_semaphore sem = Done r sem' \<and> (sem' = None \<longleftrightarrow> sem = None)"
proof (cases sem)
  case None
  then show ?thesis
    by (simp add: flush_semaphore_def SEC_OSAL_Get_SemaphoreCount_def SEC_OSAL_SemaphorePost_def)
next
  case (Some n)
  then show ?thesis
    by (cases n) (simp_all add: flush_semaphore_def SEC_OSAL_Get_SemaphoreCount_def
        SEC_OSAL_SemaphorePost_def SEM_VALUE_MAX_def)
qed

lemma flush_loop_returns:
  assumes "queue_wf (bufferQ p)" "\<forall>it\<in>set (queue_elems (bufferQ p)). \<exists>x. item_header e it = Some x"
    "tunnelFlags p = 0" "pCallbacks c = Some cb"
  shows "\<exists>q sem e'. flush_loop self i c p e = Done None (p\<lparr>bufferQ := q, bufferSemID := sem\<rparr>, e') \<and>
    queue_wf q \<and> queue_elems q = [] \<and> (sem = None \<longleftrightarrow> bufferSemID p = None) \<and>
    cb_trace e' = cb_trace e @ map (\<lambda>it. (self, done_cb i (item_ptr it))) (queue_elems (bufferQ p)) \<and>
    live_blocks e' = live_blocks e - int (length (queue_elems (bufferQ p))) \<and>
    dom (hdr_heap e') = dom (hdr_heap e) \<and> sys_answers e' = sys_answers e"
  using assms
proof (induction "queue_elems (bufferQ p)" arbitrary: p e)
  case Nil
  then have "SEC_OSAL_GetElemNum (bufferQ p) = 0" by (simp add: ring.elem_num)
  then have "flush_loop self i c p e = Done None (p, e)" by (subst flush_loop.simps) simp
  then show ?case using Nil by (intro exI [of _ "bufferQ p"] exI [of _ "bufferSemID p"] exI [of _ e]) simp
next
  case (Cons it its)
  obtain q1 where q1: "SEC_OSAL_Dequeue (bufferQ p) = Done (Some it) q1" "queue_wf q1" "queue_elems q1 = its"
    using ring.deq_some [OF Cons.prems(1) Cons.hyps(2) [symmetric]] by blast
  obtain r sem1 where s: "flush_semaphore (bufferSemID p) = Done r sem1" "sem1 = None \<longleftrightarrow> bufferSemID p = None"
    using flush_semaphore_Done [of "bufferSemID p"] by (elim exE conjE)
  obtain h bh where h: "item_header e it = Some (h, bh)"
    using Cons.prems(2) unfolding Cons.hyps(2) [symmetric] by auto
  note hd = item_headerD [OF h]
  let ?p1 = "p\<lparr>bufferSemID := sem1, bufferQ := q1\<rparr>"
  let ?e1 = "SEC_OSAL_Free (Some it) (record_call self (done_cb i h) (upd_hdr h (bh\<lparr>nFilledLen := 0\<rparr>) e))"
  have e1: "dom (hdr_heap ?e1) = dom (hdr_heap e)" "live_blocks ?e1 = live_blocks e - 1"
    "cb_trace ?e1 = cb_trace e @ [(self, done_cb i h)]" "sys_answers ?e1 = sys_answers e"
    using hd by (auto simp: upd_hdr_def record_call_def)
  have "SEC_OSAL_GetElemNum (bufferQ p) > 0"
    by (simp add: ring.elem_num [OF Cons.prems(1)] Cons.hyps(2) [symmetric])
  then have step: "flush_loop self i c p e = flush_loop self i c ?p1 ?e1"
    using q1(1) s(1) h Cons.prems(3,4)
    by (subst flush_loop.simps) (simp add: callback_def done_cb_def Let_def)
  have "\<exists>q sem e'. flush_loop self i c ?p1 ?e1 = Done None (?p1\<lparr>bufferQ := q, bufferSemID := sem\<rparr>, e') \<and>
    queue_wf q \<and> queue_elems q = [] \<and> (sem = None \<longleftrightarrow> bufferSemID ?p1 = None) \<and>
    cb_trace e' = cb_trace ?e1 @ map (\<lambda>it. (self, done_cb i (item_ptr it))) (queue_elems (bufferQ ?p1)) \<and>
    live_blocks e' = live_blocks ?e1 - int (length (queue_elems (bufferQ ?p1))) \<and>
    dom (hdr_heap e') = dom (hdr_heap ?e1) \<and> sys_answers e' = sys_answers ?e1"
  proof (rule Cons.hyps(1))
    show "its = queue_elems (bufferQ ?p1)" using q1 by simp
    show "\<forall>it\<in>set (queue_elems (bufferQ ?p1)). \<exists>x. item_header ?e1 it = Some x"
      using Cons.prems(2) Cons.hyps(2) [symmetric] q1(3) unfolding item_header_iff e1(1) by simp
  qed (use q1 Cons.prems in simp_all)
  then show ?case
    unfolding step e1 using q1(3) s(2) hd Cons.hyps(2) [symmetric]
    by (elim exE conjE) (simp, intro exI conjI, rule refl, simp_all)
qed

section \<open>The contract of the functions that return the held buffer\<close>

text \<open>
  The component has its two ports, no tunnel, a client, and holds on port \<open>i\<close> the header \<open>h\<close>;
  when it is paused, a flush is going on or the pause event is set.
\<close>

definition can_return :: "SEC_OMX_BASECOMPONENT \<Rightarrow> omx_env \<Rightarrow> int \<Rightarrow> ptr \<Rightarrow> bool" where
  "can_return c e i h \<longleftrightarrow>
     length (pSECPort c) = ALL_PORT_NUM \<and> (\<forall>p\<in>set (pSECPort c). tunnelFlags p = 0) \<and>
     length (secDataBuffer c) = ALL_PORT_NUM \<and> db_bufferHeader (secDataBuffer c ! nat i) = Some h \<and>
     h \<in> dom (hdr_heap e) \<and> pCallbacks c \<noteq> None \<and>
     (currentState c = OMX_StatePause \<longrightarrow>
        (\<exists>p\<in>set (pSECPort c). bIsPortFlushed p) \<or> pauseEvent c = Some True)"

text \<open>Queues, semaphores and tunnel flags of the ports are the same.\<close>

definition same_queues :: "SEC_OMX_BASECOMPONENT \<Rightarrow> SEC_OMX_BASECOMPONENT \<Rightarrow> bool" where
  "same_queues c c' \<longleftrightarrow> map (\<lambda>p. (bufferQ p, bufferSemID p, tunnelFlags p)) (pSECPort c') =
                         map (\<lambda>p. (bufferQ p, bufferSemID p, tunnelFlags p)) (pSECPort c)"

definition is_event :: "omx_callback \<Rightarrow> bool" where
  "is_event cb \<longleftrightarrow> (\<exists>x. cb = EventMark x) \<or> (\<exists>x y. cb = EventBufferFlag x y)"

locale buffer_return =
  fixes give_back :: "ptr \<Rightarrow> SEC_OMX_BASECOMPONENT \<Rightarrow> omx_env \<Rightarrow> (OMX_ERRORTYPE, comp_state) outcome"
    and idx :: int
  assumes gives_back: "can_return c e idx h \<Longrightarrow>
    \<exists>c' e' evs. give_back self c e = Done OMX_ErrorNone (c', e') \<and> same_queues c c' \<and>
      secDataBuffer c' = (secDataBuffer c)[nat idx := reset_dataBuffer (secDataBuffer c ! nat idx)] \<and>
      processData c' = processData c \<and> currentState c' = currentState c \<and>
      cb_trace e' = cb_trace e @ evs @ [(self, done_cb idx h)] \<and> (\<forall>x\<in>set evs. is_event (snd x)) \<and>
      live_blocks e' = live_blocks e"
    and idx_port: "idx = INPUT_PORT_INDEX \<or> idx = OUTPUT_PORT_INDEX"

lemma two_ports:
  assumes "length (pSECPort c) = ALL_PORT_NUM"
  obtains pin pout where "pSECPort c = [pin, pout]" "port_at c INPUT_PORT_INDEX = Some pin"
    "port_at c OUTPUT_PORT_INDEX = Some pout"
proof -
  obtain pin pout where "pSECPort c = [pin, pout]"
    using assms by (auto simp: ALL_PORT_NUM_def length_Suc_conv numeral_2_eq_2)
  then show thesis using that by (simp add: port_at_def array_at_def port_index_defs)
qed

lemma pause_wait_Done:
  assumes "currentState c = OMX_StatePause \<longrightarrow>
      CHECK_PORT_BEING_FLUSHED pin \<or> CHECK_PORT_BEING_FLUSHED pout \<or> pauseEvent c = Some True"
  shows "\<exists>ev. pause_wait pin pout c = Done OMX_ErrorNone ev"
  using assms by (auto simp: pause_wait_def SEC_OSAL_SignalWait_def DEF_MAX_WAIT_TIME_def)

lemma set_dataBuffer_simps [simp]:
  "pSECPort (set_dataBuffer i db c) = pSECPort c"
  "processData (set_dataBuffer i db c) = processData c"
  "currentState (set_dataBuffer i db c) = currentState c"
  "secDataBuffer (set_dataBuffer i db c) = (secDataBuffer c)[nat i := db]"
  by (simp_all add: set_dataBuffer_def)

lemma input_header_return_Done:
  assumes ports: "pSECPort c = [pin, pout]" and nt: "tunnelFlags pin = 0" and h: "hdr_heap e h = Some bh"
    and cb: "pCallbacks c = Some x"
  shows "\<exists>c' e' evs. input_header_return self h pin c e = Done () (c', e') \<and> same_queues c c' \<and>
    secDataBuffer c' = secDataBuffer c \<and> processData c' = processData c \<and> currentState c' = currentState c \<and>
    pauseEvent c' = pauseEvent c \<and>
    cb_trace e' = cb_trace e @ evs @ [(self, EmptyBufferDone h)] \<and> (\<forall>x\<in>set evs. is_event (snd x)) \<and>
    live_blocks e' = live_blocks e"
proof -
  let ?bh = "attach_mark (markType pin) bh"
  show ?thesis
  proof (cases "hMarkTargetComponent ?bh")
    case None
    then show ?thesis
      using assms
      by (simp add: input_header_return_def Let_def callback_def same_queues_def set_port_def
          INPUT_PORT_INDEX_def upd_hdr_def)
  next
    case (Some t)
    then show ?thesis
      using assms
      by (cases "t = self")
        (auto simp: input_header_return_def Let_def callback_def same_queues_def set_port_def
          INPUT_PORT_INDEX_def upd_hdr_def is_event_def)
  qed
qed

lemma output_header_return_Done:
  assumes ports: "pSECPort c = [pin, pout]" and nt: "tunnelFlags pout = 0" and h: "hdr_heap e h = Some bh"
    and cb: "pCallbacks c = Some x"
  shows "\<exists>c' e' evs. output_header_return self h db pout c e = Done () (c', e') \<and> same_queues c c' \<and>
    secDataBuffer c' = secDataBuffer c \<and> processData c' = processData c \<and> currentState c' = currentState c \<and>
    pauseEvent c' = pauseEvent c \<and>
    cb_trace e' = cb_trace e @ evs @ [(self, FillBufferDone h)] \<and> (\<forall>x\<in>set evs. is_event (snd x)) \<and>
    live_blocks e' = live_blocks e"
  using assms
  by (auto simp: output_header_return_def Let_def callback_def same_queues_def upd_hdr_def is_event_def)

lemma InputBufferReturn_gives_back:
  assumes cr: "can_return c e INPUT_PORT_INDEX h"
  shows "\<exists>c' e' evs. SEC_InputBufferReturn self c e = Done OMX_ErrorNone (c', e') \<and> same_queues c c' \<and>
      secDataBuffer c' = (secDataBuffer c)[nat INPUT_PORT_INDEX := reset_dataBuffer (secDataBuffer c ! nat INPUT_PORT_INDEX)] \<and>
      processData c' = processData c \<and> currentState c' = currentState c \<and>
      cb_trace e' = cb_trace e @ evs @ [(self, done_cb INPUT_PORT_INDEX h)] \<and> (\<forall>x\<in>set evs. is_event (snd x)) \<and>
      live_blocks e' = live_blocks e"
proof -
  obtain pin pout where p: "pSECPort c = [pin, pout]" "port_at c INPUT_PORT_INDEX = Some pin"
    "port_at c OUTPUT_PORT_INDEX = Some pout" using cr two_ports by (auto simp: can_return_def)
  let ?db = "secDataBuffer c ! nat INPUT_PORT_INDEX"
  have db: "array_at (secDataBuffer c) INPUT_PORT_INDEX = Some ?db" "db_bufferHeader ?db = Some h"
    using cr by (simp_all add: can_return_def array_at_def INPUT_PORT_INDEX_def ALL_PORT_NUM_def)
  have nt: "tunnelFlags pin = 0" "tunnelFlags pout = 0" using cr p(1) by (auto simp: can_return_def)
  obtain bh x where h: "hdr_heap e h = Some bh" "pCallbacks c = Some x" using cr by (auto simp: can_return_def)
  obtain c1 e1 evs where r: "input_header_return self h pin c e = Done () (c1, e1)" "same_queues c c1"
    "secDataBuffer c1 = secDataBuffer c" "processData c1 = processData c" "currentState c1 = currentState c"
    "pauseEvent c1 = pauseEvent c" "cb_trace e1 = cb_trace e @ evs @ [(self, EmptyBufferDone h)]"
    "\<forall>x\<in>set evs. is_event (snd x)" "live_blocks e1 = live_blocks e"
    using input_header_return_Done [OF p(1) nt(1) h, of self] by blast
  obtain ev where ev: "pause_wait pin pout c1 = Done OMX_ErrorNone ev"
    using pause_wait_Done [of c1 pin pout] cr p(1) r by (auto simp: can_return_def CHECK_PORT_BEING_FLUSHED_def)
  have "SEC_InputBufferReturn self c e = Done OMX_ErrorNone
      (set_dataBuffer INPUT_PORT_INDEX (reset_dataBuffer ?db) (c1\<lparr>pauseEvent := ev\<rparr>), e1)"
    using p db r(1) ev by (simp add: SEC_InputBufferReturn_def)
  then show ?thesis using r
    by (simp add: same_queues_def done_cb_def port_index_defs)
qed

lemma OutputBufferReturn_gives_back:
  assumes cr: "can_return c e OUTPUT_PORT_INDEX h"
  shows "\<exists>c' e' evs. SEC_OutputBufferReturn self c e = Done OMX_ErrorNone (c', e') \<and> same_queues c c' \<and>
      secDataBuffer c' = (secDataBuffer c)[nat OUTPUT_PORT_INDEX := reset_dataBuffer (secDataBuffer c ! nat OUTPUT_PORT_INDEX)] \<and>
      processData c' = processData c \<and> currentState c' = currentState c \<and>
      cb_trace e' = cb_trace e @ evs @ [(self, done_cb OUTPUT_PORT_INDEX h)] \<and> (\<forall>x\<in>set evs. is_event (snd x)) \<and>
      live_blocks e' = live_blocks e"
proof -
  obtain pin pout where p: "pSECPort c = [pin, pout]" "port_at c INPUT_PORT_INDEX = Some pin"
    "port_at c OUTPUT_PORT_INDEX = Some pout" using cr two_ports by (auto simp: can_return_def)
  let ?db = "secDataBuffer c ! nat OUTPUT_PORT_INDEX"
  have db: "array_at (secDataBuffer c) OUTPUT_PORT_INDEX = Some ?db" "db_bufferHeader ?db = Some h"
    using cr by (simp_all add: can_return_def array_at_def OUTPUT_PORT_INDEX_def ALL_PORT_NUM_def)
  have nt: "tunnelFlags pin = 0" "tunnelFlags pout = 0" using cr p(1) by (auto simp: can_return_def)
  obtain bh x where h: "hdr_heap e h = Some bh" "pCallbacks c = Some x" using cr by (auto simp: can_return_def)
  obtain c1 e1 evs where r: "output_header_return self h ?db pout c e = Done () (c1, e1)" "same_queues c c1"
    "secDataBuffer c1 = secDataBuffer c" "processData c1 = processData c" "currentState c1 = currentState c"
    "pauseEvent c1 = pauseEvent c" "cb_trace e1 = cb_trace e @ evs @ [(self, FillBufferDone h)]"
    "\<forall>x\<in>set evs. is_event (snd x)" "live_blocks e1 = live_blocks e"
    using output_header_return_Done [OF p(1) nt(2) h, of self ?db] by blast
  obtain ev where ev: "pause_wait pin pout c1 = Done OMX_ErrorNone ev"
    using pause_wait_Done [of c1 pin pout] cr p(1) r by (auto simp: can_return_def CHECK_PORT_BEING_FLUSHED_def)
  have "SEC_OutputBufferReturn self c e = Done OMX_ErrorNone
      (set_dataBuffer OUTPUT_PORT_INDEX (reset_dataBuffer ?db) (c1\<lparr>pauseEvent := ev\<rparr>), e1)"
    using p db r(1) ev by (simp add: SEC_OutputBufferReturn_def)
  then show ?thesis using r
    by (simp add: same_queues_def done_cb_def)
qed

interpretation vdec_in: buffer_return SEC_InputBufferReturn INPUT_PORT_INDEX
  by unfold_locales (erule InputBufferReturn_gives_back, simp)

interpretation vdec_out: buffer_return SEC_OutputBufferReturn OUTPUT_PORT_INDEX
  by unfold_locales (erule OutputBufferReturn_gives_back, simp)

text \<open>What the client lemma of the contract gives: the flush hands the held buffer back.\<close>

context buffer_return
begin

lemma held_returned:
  assumes "can_return c e idx h"
  shows "\<exists>c' e' evs. bindO (give_back self c e) (\<lambda>_ s. Done () s) = Done () (c', e') \<and>
      same_queues c c' \<and> \<not> dataValid (secDataBuffer c' ! nat idx) \<and>
      length (secDataBuffer c') = length (secDataBuffer c) \<and> processData c' = processData c \<and>
      cb_trace e' = cb_trace e @ evs @ [(self, done_cb idx h)] \<and> (\<forall>x\<in>set evs. is_event (snd x)) \<and>
      live_blocks e' = live_blocks e"
proof -
  obtain c' e' evs where r: "give_back self c e = Done OMX_ErrorNone (c', e')" "same_queues c c'"
    "secDataBuffer c' = (secDataBuffer c)[nat idx := reset_dataBuffer (secDataBuffer c ! nat idx)]"
    "processData c' = processData c"
    "cb_trace e' = cb_trace e @ evs @ [(self, done_cb idx h)]" "\<forall>x\<in>set evs. is_event (snd x)"
    "live_blocks e' = live_blocks e"
    using gives_back [OF assms, of self] by blast
  moreover have "nat idx < length (secDataBuffer c)"
    using assms idx_port by (auto simp: can_return_def port_index_defs)
  ultimately show ?thesis
    by (intro exI [of _ c'] exI [of _ e'] exI [of _ evs]) (simp add: reset_dataBuffer_def)
qed

end

text \<open>The headers a piece of the trace gives back on port \<open>i\<close>, in order.\<close>

definition returned :: "int \<Rightarrow> (ptr \<times> omx_callback) list \<Rightarrow> ptr list" where
  "returned i tr = List.map_filter (\<lambda>(s, cb). case cb of
      EmptyBufferDone h \<Rightarrow> if i = INPUT_PORT_INDEX then Some h else None
    | FillBufferDone h \<Rightarrow> if i = OUTPUT_PORT_INDEX then Some h else None
    | _ \<Rightarrow> None) tr"

lemma returned_append [simp]: "returned i (xs @ ys) = returned i xs @ returned i ys"
  by (simp add: returned_def map_filter_def)

lemma returned_done:
  "i = INPUT_PORT_INDEX \<or> i = OUTPUT_PORT_INDEX \<Longrightarrow> returned i [(s, done_cb i h)] = [h]"
  by (auto simp: returned_def done_cb_def map_filter_def port_index_defs)

lemma returned_dones:
  "i = INPUT_PORT_INDEX \<or> i = OUTPUT_PORT_INDEX \<Longrightarrow>
   returned i (map (\<lambda>x. (s, done_cb i (f x))) xs) = map f xs"
proof (induction xs)
  case (Cons x xs)
  then show ?case
    using returned_append [of i "[(s, done_cb i (f x))]"] by (simp add: returned_done)
qed (simp add: returned_def map_filter_def)

lemma returned_events: "\<forall>x\<in>set evs. is_event (snd x) \<Longrightarrow> returned i evs = []"
proof (induction evs)
  case (Cons x evs)
  then have "returned i [x] = []" by (cases x) (auto simp: returned_def map_filter_def is_event_def)
  then show ?case using Cons returned_append [of i "[x]" evs] by simp
qed (simp add: returned_def map_filter_def)

lemma flush_settle_Done:
  assumes "tunnelFlags p = 0" "queue_wf (bufferQ p)" "queue_elems (bufferQ p) = []" "bufferSemID p = Some n"
  shows "flush_settle p = Done () (p\<lparr>bufferSemID := Some 0\<rparr>)"
proof -
  have "numElem (bufferQ p) = 0"
    using ring.elem_num [OF assms(2)] assms(3) by (simp add: SEC_OSAL_GetElemNum_def)
  then have "(bufferQ p)\<lparr>numElem := 0\<rparr> = bufferQ p" by simp
  moreover have "drain_semaphore (Some n) = Some 0" by (induction n) simp_all
  ultimately show ?thesis using assms(1,4) by (simp add: flush_settle_def SEC_OSAL_SetElemNum_def)
qed

text \<open>
  A component whose port \<open>i\<close> can be flushed: two ports without tunnels, a client, a well-formed
  queue of messages whose headers are in memory, a semaphore, and either no held buffer or
  one that can be returned.
\<close>

definition flushable :: "SEC_OMX_BASECOMPONENT \<Rightarrow> omx_env \<Rightarrow> int \<Rightarrow> bool" where
  "flushable c e i \<longleftrightarrow>
     (i = INPUT_PORT_INDEX \<or> i = OUTPUT_PORT_INDEX) \<and>
     length (pSECPort c) = ALL_PORT_NUM \<and> (\<forall>p\<in>set (pSECPort c). tunnelFlags p = 0) \<and>
     length (secDataBuffer c) = ALL_PORT_NUM \<and> length (processData c) = ALL_PORT_NUM \<and>
     pCallbacks c \<noteq> None \<and>
     (let p = pSECPort c ! nat i; db = secDataBuffer c ! nat i in
        queue_wf (bufferQ p) \<and> bufferSemID p \<noteq> None \<and>
        (\<forall>it\<in>set (queue_elems (bufferQ p)). item_header e it \<noteq> None) \<and>
        (dataValid db \<longrightarrow> (\<exists>h\<in>dom (hdr_heap e). db_bufferHeader db = Some h) \<and>
           (currentState c = OMX_StatePause \<longrightarrow>
              (\<exists>p\<in>set (pSECPort c). bIsPortFlushed p) \<or> pauseEvent c = Some True)))"

definition held_headers :: "SEC_OMX_BASECOMPONENT \<Rightarrow> int \<Rightarrow> ptr list" where
  "held_headers c i = (let db = secDataBuffer c ! nat i in
     if dataValid db then (case db_bufferHeader db of None \<Rightarrow> [] | Some h \<Rightarrow> [h]) else [])"

lemma same_queues_at:
  assumes "same_queues c c'" "port_at c i = Some p"
  shows "\<exists>p'. port_at c' i = Some p' \<and> bufferQ p' = bufferQ p \<and> bufferSemID p' = bufferSemID p \<and>
    tunnelFlags p' = tunnelFlags p"
proof -
  let ?f = "\<lambda>p. (bufferQ p, bufferSemID p, tunnelFlags p)"
  have eq: "map ?f (pSECPort c') = map ?f (pSECPort c)" using assms(1) by (simp add: same_queues_def)
  have len: "length (pSECPort c') = length (pSECPort c)" using arg_cong [OF eq, of length] by simp
  have i: "0 \<le> i" "nat i < length (pSECPort c)" "p = pSECPort c ! nat i"
    using array_at_SomeD [of "pSECPort c" i p] assms(2) by (simp_all add: port_at_def)
  have "?f (pSECPort c' ! nat i) = ?f (pSECPort c ! nat i)"
    using arg_cong [OF eq, of "\<lambda>xs. xs ! nat i"] i(2) len by simp
  then show ?thesis using i len by (auto simp: port_at_def array_at_def)
qed

lemma flush_held_vdec:
  assumes fl: "flushable c e i" and at: "port_at c i = Some p" and db: "db = secDataBuffer c ! nat i"
  shows "\<exists>c' e' tr. flush_held (vdec_ops mi mt) self i p db c e = Done () (c', e') \<and> same_queues c c' \<and>
    \<not> dataValid (secDataBuffer c' ! nat i) \<and> processData c' = processData c \<and>
    cb_trace e' = cb_trace e @ tr \<and> returned i tr = held_headers c i \<and> live_blocks e' = live_blocks e"
proof (cases "dataValid db")
  case False
  then show ?thesis
    using db by (simp add: flush_held_def same_queues_def held_headers_def returned_def map_filter_def)
next
  case True
  have nt: "tunnelFlags p = 0"
    using fl at by (auto simp: flushable_def port_at_def dest!: array_at_SomeD)
  obtain h where h: "db_bufferHeader db = Some h" "can_return c e i h"
    using fl True db by (auto simp: flushable_def can_return_def Let_def)
  have idx: "i = INPUT_PORT_INDEX \<or> i = OUTPUT_PORT_INDEX" using fl by (simp add: flushable_def)
  have held: "held_headers c i = [h]" using True h db by (simp add: held_headers_def)
  have "\<exists>c' e' evs. flush_held (vdec_ops mi mt) self i p db c e = Done () (c', e') \<and> same_queues c c' \<and>
      \<not> dataValid (secDataBuffer c' ! nat i) \<and> processData c' = processData c \<and>
      cb_trace e' = cb_trace e @ evs @ [(self, done_cb i h)] \<and> (\<forall>x\<in>set evs. is_event (snd x)) \<and>
      live_blocks e' = live_blocks e"
  proof (cases "i = INPUT_PORT_INDEX")
    case True
    then have "flush_held (vdec_ops mi mt) self i p db c e =
        bindO (SEC_InputBufferReturn self c e) (\<lambda>_ s. Done () s)"
      using \<open>dataValid db\<close> nt by (simp add: flush_held_def vdec_ops_def)
    then show ?thesis using vdec_in.held_returned [of c e h self] h True by auto
  next
    case False
    with idx have "i = OUTPUT_PORT_INDEX" by simp
    then have "flush_held (vdec_ops mi mt) self i p db c e =
        bindO (SEC_OutputBufferReturn self c e) (\<lambda>_ s. Done () s)"
      using \<open>dataValid db\<close> nt False by (simp add: flush_held_def vdec_ops_def)
    then show ?thesis using vdec_out.held_returned [of c e h self] h \<open>i = OUTPUT_PORT_INDEX\<close> by auto
  qed
  then show ?thesis
    using held idx by (elim exE conjE) (auto simp: returned_events returned_done)
qed

lemma flushable_flushed:
  assumes fl: "flushable c e i" and dom: "dom (hdr_heap e') = dom (hdr_heap e)"
    and q: "queue_wf q" "queue_elems q = []" "sm \<noteq> None"
  shows "flushable (set_port i ((pSECPort c ! nat i)\<lparr>bufferQ := q, bufferSemID := sm\<rparr>) c) e' i"
proof -
  have len: "length (pSECPort c) = ALL_PORT_NUM" and idx: "i = INPUT_PORT_INDEX \<or> i = OUTPUT_PORT_INDEX"
    using fl by (simp_all add: flushable_def)
  obtain pin pout where p: "pSECPort c = [pin, pout]" using two_ports [OF len] by blast
  show ?thesis
    using fl q p idx by (elim disjE) (simp_all add: flushable_def set_port_def Let_def dom port_index_defs)
qed

text \<open>C12. \<open>SEC_OMX_FlushPort\<close> of a video decoder, on a port that can be flushed, always returns with
  \<open>OMX_ErrorNone\<close>. Every queued buffer is given back to the client exactly once and in the
  order it was queued, then the buffer the component held; the queue is empty and
  well-formed, its semaphore is down to zero, nothing is held any more, and the messages of
  the queued buffers are freed.\<close>

theorem FlushPort_returns_all_buffers:
  assumes fl: "flushable c e i"
  shows "\<exists>c' e' p' tr. SEC_OMX_FlushPort (vdec_ops mi mt) self i c e = Done OMX_ErrorNone (c', e') \<and>
    port_at c' i = Some p' \<and> queue_wf (bufferQ p') \<and> queue_elems (bufferQ p') = [] \<and>
    bufferSemID p' = Some 0 \<and> \<not> dataValid (secDataBuffer c' ! nat i) \<and>
    cb_trace e' = cb_trace e @ tr \<and>
    returned i tr = map item_ptr (queue_elems (bufferQ (pSECPort c ! nat i))) @ held_headers c i \<and>
    live_blocks e' = live_blocks e - int (length (queue_elems (bufferQ (pSECPort c ! nat i))))"
proof -
  let ?p = "pSECPort c ! nat i"
  have idx: "i = INPUT_PORT_INDEX \<or> i = OUTPUT_PORT_INDEX" using fl by (simp add: flushable_def)
  have at: "port_at c i = Some ?p" using fl by (auto simp: flushable_def port_at_def array_at_def port_index_defs)
  have nt: "tunnelFlags ?p = 0" using fl by (auto simp: flushable_def port_index_defs)
  obtain cb where cb: "pCallbacks c = Some cb" using fl by (auto simp: flushable_def)
  have its: "\<forall>it\<in>set (queue_elems (bufferQ ?p)). \<exists>x. item_header e it = Some x"
    using fl by (auto simp: flushable_def Let_def)
  have wf: "queue_wf (bufferQ ?p)" and sem: "bufferSemID ?p \<noteq> None" using fl by (simp_all add: flushable_def Let_def)
  obtain q sm e1 where loop: "flush_loop self i c ?p e = Done None (?p\<lparr>bufferQ := q, bufferSemID := sm\<rparr>, e1)"
    "queue_wf q" "queue_elems q = []" "sm = None \<longleftrightarrow> bufferSemID ?p = None"
    "cb_trace e1 = cb_trace e @ map (\<lambda>it. (self, done_cb i (item_ptr it))) (queue_elems (bufferQ ?p))"
    "live_blocks e1 = live_blocks e - int (length (queue_elems (bufferQ ?p)))"
    "dom (hdr_heap e1) = dom (hdr_heap e)"
    using flush_loop_returns [OF wf its nt cb, of self i] by (elim exE conjE) (rule that, assumption+)
  let ?p1 = "?p\<lparr>bufferQ := q, bufferSemID := sm\<rparr>" and ?db = "secDataBuffer c ! nat i"
  let ?c1 = "set_port i ?p1 c"
  have at1: "port_at ?c1 i = Some ?p1" using at by simp
  have fl1: "flushable ?c1 e1 i"
    using flushable_flushed [OF fl loop(7) loop(2,3)] loop(4) sem by simp
  obtain c2 e2 tr where held: "flush_held (vdec_ops mi mt) self i ?p1 ?db ?c1 e1 = Done () (c2, e2)"
    "same_queues ?c1 c2" "\<not> dataValid (secDataBuffer c2 ! nat i)" "processData c2 = processData ?c1"
    "cb_trace e2 = cb_trace e1 @ tr" "returned i tr = held_headers ?c1 i" "live_blocks e2 = live_blocks e1"
    using flush_held_vdec [OF fl1 at1, of ?db mi mt self] by (auto simp: set_port_def)
  obtain p2 where p2: "port_at c2 i = Some p2" "bufferQ p2 = q" "bufferSemID p2 = sm" "tunnelFlags p2 = 0"
    using same_queues_at [OF held(2) at1] nt by auto
  obtain n where n: "sm = Some n" using loop(4) sem by auto
  have settle: "flush_settle p2 = Done () (p2\<lparr>bufferSemID := Some 0\<rparr>)"
    using flush_settle_Done [of p2 n] p2 loop(2,3) n by simp
  let ?pd = "processData c ! nat i"
  let ?c3 = "set_processData i (?pd\<lparr>pr_dataLen := 0, pr_nFlags := 0, pr_remainDataLen := 0,
      pr_timeStamp := 0, pr_usedDataLen := 0\<rparr>) (set_port i (p2\<lparr>bufferSemID := Some 0\<rparr>) c2)"
  have arr: "array_at (secDataBuffer ?c1) i = Some ?db" "array_at (processData c2) i = Some ?pd"
    using fl held(4) by (auto simp: flushable_def array_at_def port_index_defs set_port_def)
  have eq: "SEC_OMX_FlushPort (vdec_ops mi mt) self i c e = Done OMX_ErrorNone (?c3, e2)"
    using at loop(1) arr held(1) p2(1) settle by (simp add: SEC_OMX_FlushPort_def Let_def)
  have tr: "cb_trace e2 = cb_trace e @ (map (\<lambda>it. (self, done_cb i (item_ptr it))) (queue_elems (bufferQ ?p)) @ tr)"
    "returned i (map (\<lambda>it. (self, done_cb i (item_ptr it))) (queue_elems (bufferQ ?p)) @ tr) =
       map item_ptr (queue_elems (bufferQ ?p)) @ held_headers c i"
    using held(5,6) loop(5) idx by (simp_all add: returned_dones held_headers_def set_port_def)
  have "port_at ?c3 i = Some (p2\<lparr>bufferSemID := Some 0\<rparr>)" "\<not> dataValid (secDataBuffer ?c3 ! nat i)"
    using p2(1) held(3) port_at_set_port [OF p2(1), of "p2\<lparr>bufferSemID := Some 0\<rparr>" i]
    by (simp_all add: set_processData_def port_at_def set_port_def)
  then show ?thesis
    using eq tr loop(2,3,6) held(7) p2(2)
    by (intro exI [of _ ?c3] exI [of _ e2] exI [of _ "p2\<lparr>bufferSemID := Some 0\<rparr>"] exI) (auto intro: tr)
qed

text \<open>A queue with one element more, and the sample component with one buffer queued for input.\<close>

definition enqueued :: "'a SEC_QUEUE \<Rightarrow> 'a \<Rightarrow> 'a SEC_QUEUE" where
  "enqueued q x = (case SEC_OSAL_Queue q (Some x) of Done _ q' \<Rightarrow> q' | _ \<Rightarrow> q)"

lemma enqueued_room:
  assumes "queue_wf q" "length (queue_elems q) < RING_SIZE"
  shows "queue_wf (enqueued q x)" "queue_elems (enqueued q x) = queue_elems q @ [x]"
  using ring.enq_room [OF assms, of x] by (auto simp: enqueued_def)

definition sample_message :: "OMX_COMMANDTYPE \<Rightarrow> ptr \<Rightarrow> SEC_OMX_MESSAGE" where
  "sample_message cmd h = \<lparr>messageType = cmd, messageParam = 0, pCmdData = CmdHeader h\<rparr>"

definition sample_queued :: "nat \<Rightarrow> SEC_OMX_BASECOMPONENT" where
  "sample_queued k = set_port 0 ((sample_port k 100)
     \<lparr>bufferQ := enqueued (fresh_ring 100 101) (QMsg (sample_message SEC_OMX_CommandEmptyBuffer 900))\<rparr>)
     (sample_component k)"

definition sample_env_hdr :: omx_env where
  "sample_env_hdr = sample_env\<lparr>hdr_heap := [900 \<mapsto> fresh_header 0 None 64 (Some 901)], live_blocks := 1\<rparr>"

lemma sample_queued_elems:
  "queue_wf (enqueued (fresh_ring m b) (x :: 'a))" "queue_elems (enqueued (fresh_ring m b) x) = [x]"
  using enqueued_room [of "fresh_ring m b :: 'a SEC_QUEUE" x] by (simp_all add: RING_SIZE_def)

lemma sample_queued_flushable: "flushable (sample_queued k) sample_env_hdr 0"
  by (simp add: flushable_def sample_queued_def set_port_def port_index_defs sample_queued_elems Let_def
      sample_env_hdr_def item_header_def sample_message_def zero_DATABUFFER_def)

theorem FlushPort_returns_all_buffers_witness:
  "\<exists>c' e' tr. SEC_OMX_FlushPort (vdec_ops (\<lambda>_ c e. Done OMX_ErrorNone (c, e)) (\<lambda>_ c e. Done OMX_ErrorNone (c, e)))
      7 0 (sample_queued 2) sample_env_hdr = Done OMX_ErrorNone (c', e') \<and>
    cb_trace e' = tr \<and> returned 0 tr = [900] \<and> live_blocks e' = 0"
  using FlushPort_returns_all_buffers [OF sample_queued_flushable [of 2], of
      "\<lambda>_ c e. Done OMX_ErrorNone (c, e)" "\<lambda>_ c e. Done OMX_ErrorNone (c, e)" 7]
  by (auto simp: sample_queued_def set_port_def sample_queued_elems held_headers_def zero_DATABUFFER_def
      sample_message_def sample_env_hdr_def)

section \<open>Buffers in and out of a port\<close>

text \<open>
  The semaphore of a port counts its queued buffers, and every queued item is a message
  for a header in memory.
\<close>

definition port_synced :: "omx_env \<Rightarrow> SEC_OMX_BASEPORT \<Rightarrow> bool" where
  "port_synced e p \<longleftrightarrow> queue_wf (bufferQ p) \<and> bufferSemID p = Some (length (queue_elems (bufferQ p))) \<and>
     (\<forall>it\<in>set (queue_elems (bufferQ p)). item_header e it \<noteq> None)"

text \<open>The conditions under which a port takes header \<open>h\<close> from the client.\<close>

definition accepts :: "(OMX_BUFFERHEADERTYPE \<Rightarrow> u32) \<Rightarrow> int \<Rightarrow> SEC_OMX_BASECOMPONENT \<Rightarrow> omx_env \<Rightarrow>
   SEC_OMX_BASEPORT \<Rightarrow> ptr \<Rightarrow> bool" where
  "accepts index_of i c e p h \<longleftrightarrow>
     currentState c \<in> {OMX_StateIdle, OMX_StateExecuting, OMX_StatePause} \<and>
     (\<exists>bh. hdr_heap e h = Some bh \<and> uint (index_of bh) = i \<and>
        SEC_OMX_Check_SizeVersion (Some bh) sizeof_OMX_BUFFERHEADERTYPE = OMX_ErrorNone) \<and>
     port_at c i = Some p \<and> tunnelFlags p = 0 \<and> CHECK_PORT_ENABLED p \<and>
     \<not> CHECK_PORT_BEING_FLUSHED p \<and> \<not> CHECK_PORT_BEING_DISABLED p \<and>
     Some h \<in> set (take (unat (nBufferCountActual (portDefinition p))) (bufferHeader p)) \<and>
     unat (nBufferCountActual (portDefinition p)) \<le> length (bufferHeader p)"

lemma find_buffer_hit:
  assumes "Some h \<in> set (take (unat (nBufferCountActual (portDefinition p))) (bufferHeader p))"
    "unat (nBufferCountActual (portDefinition p)) \<le> length (bufferHeader p)"
  shows "\<exists>k. find_buffer p h = Some (Some k) \<and> k < length (bufferHeader p) \<and> bufferHeader p ! k = Some h"
proof -
  let ?n = "unat (nBufferCountActual (portDefinition p))"
  let ?P = "\<lambda>i. map_option (\<lambda>x. x = Some h) (array_at (bufferHeader p) (int i))"
  have "\<exists>k<?n. bufferHeader p ! k = Some h" using assms by (auto simp: in_set_conv_nth)
  then obtain k where k: "k < ?n" "bufferHeader p ! k = Some h"
    and least: "\<forall>j<k. \<not> (j < ?n \<and> bufferHeader p ! j = Some h)"
    using exists_least_iff [of "\<lambda>k. k < ?n \<and> bufferHeader p ! k = Some h"] by blast
  have "scan ?P 0 ?n = Some (Some (0 + k))"
    using k least assms(2) by (intro scan_found) auto
  then show ?thesis using k assms(2) by (intro exI [of _ k]) (simp add: find_buffer_def)
qed

lemma ThisBuffer_body_accepts:
  assumes acc: "accepts index_of i c e p h" and mem: "sys_answers e = []"
  shows "\<exists>k. ThisBuffer_body index_of i cmd (Some h) c e =
    bindO (SEC_OSAL_Queue (bufferQ p)
            (Some (QMsg \<lparr>messageType = cmd, messageParam = of_nat k, pCmdData = CmdHeader h\<rparr>)))
      (\<lambda>r q. if r \<noteq> 0 then Done OMX_ErrorUndefined (set_port i (p\<lparr>bufferQ := q\<rparr>) c, snd (SEC_OSAL_Malloc e))
             else (case SEC_OSAL_SemaphorePost (bufferSemID p) of (ret, sem) \<Rightarrow>
                Done ret (set_port i (p\<lparr>bufferQ := q, bufferSemID := sem\<rparr>) c, snd (SEC_OSAL_Malloc e)))) \<and>
    k < length (bufferHeader p) \<and> bufferHeader p ! k = Some h"
proof -
  obtain bh where bh: "hdr_heap e h = Some bh" "uint (index_of bh) = i"
      "SEC_OMX_Check_SizeVersion (Some bh) sizeof_OMX_BUFFERHEADERTYPE = OMX_ErrorNone"
    using acc by (auto simp: accepts_def)
  obtain k where k: "find_buffer p h = Some (Some k)" "k < length (bufferHeader p)" "bufferHeader p ! k = Some h"
    using find_buffer_hit [of h p] acc by (auto simp: accepts_def)
  have st: "currentState c \<noteq> OMX_StateInvalid" "currentState c = OMX_StateIdle \<or>
      currentState c = OMX_StateExecuting \<or> currentState c = OMX_StatePause"
    using acc by (auto simp: accepts_def)
  have nr: "\<not> buffer_refused c p" "port_at c i = Some p" using acc by (auto simp: accepts_def buffer_refused_def)
  show ?thesis
    using k nr st bh mem by (intro exI [of _ k]) (auto simp: ThisBuffer_body_def Malloc_ok cong: if_cong)
qed

lemma item_header_mono: "dom (hdr_heap e) \<subseteq> dom (hdr_heap e') \<Longrightarrow> item_header e it \<noteq> None \<Longrightarrow> item_header e' it \<noteq> None"
  unfolding not_None_eq item_header_iff by blast

lemma ThisBuffer_body_room:
  assumes acc: "accepts index_of i c e p h" and mem: "sys_answers e = []"
    and sync: "port_synced e p" and room: "length (queue_elems (bufferQ p)) < RING_SIZE"
  shows "\<exists>c' e' p' m. ThisBuffer_body index_of i cmd (Some h) c e = Done OMX_ErrorNone (c', e') \<and>
    port_at c' i = Some p' \<and> port_synced e' p' \<and> messageType m = cmd \<and> pCmdData m = CmdHeader h \<and>
    queue_elems (bufferQ p') = queue_elems (bufferQ p) @ [QMsg m] \<and> live_blocks e' = live_blocks e + 1"
proof -
  let ?e = "snd (SEC_OSAL_Malloc e)"
  obtain k where body: "ThisBuffer_body index_of i cmd (Some h) c e =
    bindO (SEC_OSAL_Queue (bufferQ p)
            (Some (QMsg \<lparr>messageType = cmd, messageParam = of_nat k, pCmdData = CmdHeader h\<rparr>)))
      (\<lambda>r q. if r \<noteq> 0 then Done OMX_ErrorUndefined (set_port i (p\<lparr>bufferQ := q\<rparr>) c, ?e)
             else (case SEC_OSAL_SemaphorePost (bufferSemID p) of (ret, sem) \<Rightarrow>
                Done ret (set_port i (p\<lparr>bufferQ := q, bufferSemID := sem\<rparr>) c, ?e)))"
    using ThisBuffer_body_accepts [OF acc mem] by blast
  let ?m = "\<lparr>messageType = cmd, messageParam = of_nat k, pCmdData = CmdHeader h\<rparr>"
  obtain q where q: "SEC_OSAL_Queue (bufferQ p) (Some (QMsg ?m)) = Done 0 q" "queue_wf q"
      "queue_elems q = queue_elems (bufferQ p) @ [QMsg ?m]"
    using ring.enq_room [of "bufferQ p" "QMsg ?m"] sync room by (auto simp: port_synced_def)
  let ?n = "length (queue_elems (bufferQ p))"
  have post: "SEC_OSAL_SemaphorePost (bufferSemID p) = (OMX_ErrorNone, Some (Suc ?n))"
    using sync room by (simp add: port_synced_def SEC_OSAL_SemaphorePost_def SEM_VALUE_MAX_def RING_SIZE_def)
  let ?p' = "p\<lparr>bufferQ := q, bufferSemID := Some (Suc ?n)\<rparr>"
  have e: "hdr_heap ?e = hdr_heap e" "live_blocks ?e = live_blocks e + 1" using mem by (simp_all add: Malloc_ok)
  have h: "h \<in> dom (hdr_heap e)" using acc by (auto simp: accepts_def)
  have "port_synced ?e ?p'"
    using sync q h item_header_mono [of e ?e] e by (auto simp: port_synced_def item_header_def)
  moreover have "port_at (set_port i ?p' c) i = Some ?p'" using acc by (simp add: accepts_def)
  ultimately show ?thesis
    using body q post e(2)
    by (intro exI [of _ "set_port i ?p' c"] exI [of _ ?e] exI [of _ ?p'] exI [of _ ?m]) simp
qed

lemma GetQueue_takes_first:
  assumes ex: "currentState c = OMX_StateExecuting" and at: "port_at c INPUT_PORT_INDEX = Some p"
    and db: "array_at (secDataBuffer c) INPUT_PORT_INDEX = Some db" "\<not> dataValid db"
    and sync: "port_synced e p" and ne: "queue_elems (bufferQ p) = it # its"
  shows "\<exists>c' e' p' db'. SEC_InputBufferGetQueue c e = Done OMX_ErrorNone (c', e') \<and>
    port_at c' INPUT_PORT_INDEX = Some p' \<and> port_synced e' p' \<and> queue_elems (bufferQ p') = its \<and>
    array_at (secDataBuffer c') INPUT_PORT_INDEX = Some db' \<and> dataValid db' \<and>
    db_bufferHeader db' = Some (item_ptr it) \<and> live_blocks e' = live_blocks e - 1"
proof -
  obtain q where q: "SEC_OSAL_Dequeue (bufferQ p) = Done (Some it) q" "queue_wf q" "queue_elems q = its"
    using ring.deq_some [of "bufferQ p" it its] sync ne by (auto simp: port_synced_def)
  obtain h bh where h: "item_header e it = Some (h, bh)" using sync ne by (auto simp: port_synced_def)
  have sem: "bufferSemID p = Some (Suc (length its))" using sync ne by (simp add: port_synced_def)
  let ?p' = "p\<lparr>bufferSemID := Some (length its), bufferQ := q\<rparr>"
  let ?e' = "SEC_OSAL_Free (Some it) e"
  let ?db' = "db\<lparr>db_bufferHeader := Some h, db_allocSize := nAllocLen bh, db_dataLen := nFilledLen bh,
      db_remainDataLen := nFilledLen bh, db_usedDataLen := 0, dataValid := True, db_nFlags := hdr_nFlags bh,
      db_timeStamp := nTimeStamp bh\<rparr>"
  let ?c' = "set_dataBuffer INPUT_PORT_INDEX ?db' (set_port INPUT_PORT_INDEX ?p' c)"
  have "SEC_InputBufferGetQueue c e = Done OMX_ErrorNone (?c', ?e')"
    using ex at db sem q(1) h by (simp add: SEC_InputBufferGetQueue_def Let_def)
  moreover have "port_synced ?e' ?p'"
    using sync ne q item_header_mono [of e ?e'] by (auto simp: port_synced_def)
  moreover have "port_at ?c' INPUT_PORT_INDEX = Some ?p'"
    using port_at_set_port [OF at, of ?p' INPUT_PORT_INDEX] by (simp add: port_at_def)
  moreover have "array_at (secDataBuffer ?c') INPUT_PORT_INDEX = Some ?db'"
    using db by (auto simp: array_at_def set_port_def split: if_splits)
  ultimately show ?thesis
    using q(3) item_headerD [OF h]
    by (intro exI [of _ ?c'] exI [of _ ?e'] exI [of _ ?p'] exI [of _ ?db']) simp
qed

text \<open>C8. \<open>EmptyThisBuffer\<close> and \<open>FillThisBuffer\<close> keep the semaphore and the queue of their port in
  step. When the port accepts the buffer (right component state, header of that port, port
  enabled and neither being flushed nor disabled), fewer than nine buffers are queued and
  there is memory for the message, the call returns \<open>OMX_ErrorNone\<close>, the buffer is last in
  the queue and the semaphore has one count more.\<close>

theorem buffer_queued_in_step:
  assumes f: "(f, index_of, i, cmd) \<in>
      {(SEC_OMX_EmptyThisBuffer, nInputPortIndex, INPUT_PORT_INDEX, SEC_OMX_CommandEmptyBuffer),
       (SEC_OMX_FillThisBuffer, nOutputPortIndex, OUTPUT_PORT_INDEX, SEC_OMX_CommandFillBuffer)}"
    and vh: "valid_handle oc c" and acc: "accepts index_of i c e p h" and mem: "sys_answers e = []"
    and sync: "port_synced e p" and room: "length (queue_elems (bufferQ p)) < RING_SIZE"
  shows "\<exists>oc' c' e' p' m. f (Some oc) (Some h) e = Done OMX_ErrorNone (Some oc', e') \<and>
    valid_handle oc' c' \<and> port_at c' i = Some p' \<and> port_synced e' p' \<and>
    bufferSemID p' = map_option Suc (bufferSemID p) \<and>
    messageType m = cmd \<and> pCmdData m = CmdHeader h \<and>
    queue_elems (bufferQ p') = queue_elems (bufferQ p) @ [QMsg m] \<and> live_blocks e' = live_blocks e + 1"
proof -
  have fe: "f (Some oc) (Some h) e = entry (Some oc) (ThisBuffer_body index_of i cmd (Some h)) e"
    using f by (auto simp: SEC_OMX_EmptyThisBuffer_def SEC_OMX_FillThisBuffer_def)
  obtain c' e' p' m where r: "ThisBuffer_body index_of i cmd (Some h) c e = Done OMX_ErrorNone (c', e')"
    "port_at c' i = Some p'" "port_synced e' p'" "messageType m = cmd" "pCmdData m = CmdHeader h"
    "queue_elems (bufferQ p') = queue_elems (bufferQ p) @ [QMsg m]" "live_blocks e' = live_blocks e + 1"
    using ThisBuffer_body_room [OF acc mem sync room] by blast
  have "f (Some oc) (Some h) e = Done OMX_ErrorNone (Some (oc\<lparr>pComponentPrivate := Some c'\<rparr>), e')"
    unfolding fe entry_valid [OF vh] r(1) by simp
  moreover have "bufferSemID p' = map_option Suc (bufferSemID p)"
    using r(3,6) sync by (simp add: port_synced_def)
  ultimately show ?thesis using r valid_handle_update [OF vh] by blast
qed

definition sample_populated_port :: "queue_item SEC_QUEUE \<Rightarrow> SEC_OMX_BASEPORT" where
  "sample_populated_port q = (sample_port 1 100)
     \<lparr>bufferHeader := (replicate MAX_BUFFER_NUM None)[0 := Some 900], bufferQ := q\<rparr>"

definition sample_populated :: "queue_item SEC_QUEUE \<Rightarrow> SEC_OMX_BASECOMPONENT" where
  "sample_populated q = set_port 0 (sample_populated_port q) (sample_component 1)"

lemma sample_populated_accepts:
  "accepts nInputPortIndex INPUT_PORT_INDEX (sample_populated q) sample_env_hdr (sample_populated_port q) 900"
proof -
  have "SEC_OMX_Check_SizeVersion (Some (fresh_header 0 None 64 (Some 901))) sizeof_OMX_BUFFERHEADERTYPE = OMX_ErrorNone"
    by (simp add: SEC_OMX_Check_SizeVersion_def fresh_header_def INIT_SET_SIZE_VERSION_def SEC_VERSION_def Let_def)
  moreover have "nInputPortIndex (fresh_header 0 None 64 (Some 901)) = 0"
    by (simp add: fresh_header_def INPUT_PORT_INDEX_def Let_def)
  moreover have "port_at (sample_populated q) 0 = Some (sample_populated_port q)"
    by (simp add: sample_populated_def)
  moreover have "currentState (sample_populated q) = OMX_StateIdle" by (simp add: sample_populated_def set_port_def)
  ultimately show ?thesis
    by (simp add: accepts_def sample_env_hdr_def check_port_defs INPUT_PORT_INDEX_def MAX_BUFFER_NUM_def
        sample_populated_port_def take_Cons' numeral_eq_Suc)
qed

theorem buffer_queued_in_step_witness:
  "\<exists>oc' c' e' p'. SEC_OMX_EmptyThisBuffer (Some (sample_handle (sample_populated (fresh_ring 100 101))))
        (Some 900) sample_env_hdr = Done OMX_ErrorNone (Some oc', e') \<and>
     valid_handle oc' c' \<and> port_at c' 0 = Some p' \<and> bufferSemID p' = Some 1"
  using buffer_queued_in_step [OF _ sample_handle_valid sample_populated_accepts, of SEC_OMX_EmptyThisBuffer
      SEC_OMX_CommandEmptyBuffer "fresh_ring 100 101"]
  by (auto simp: port_synced_def RING_SIZE_def sample_env_hdr_def INPUT_PORT_INDEX_def sample_populated_port_def)

text \<open>C9. In the Executing state, with nothing held and a queue and semaphore in step, a queued buffer
  is delivered: \<open>SEC_InputBufferGetQueue\<close> neither blocks nor fails, takes exactly the buffer
  that was queued first, leaves the others in order and in step with the semaphore, and
  frees the message.\<close>

theorem InputBufferGetQueue_delivers_in_order:
  assumes "currentState c = OMX_StateExecuting" "port_at c INPUT_PORT_INDEX = Some p"
    "array_at (secDataBuffer c) INPUT_PORT_INDEX = Some db" "\<not> dataValid db"
    "port_synced e p" "queue_elems (bufferQ p) = it # its"
  shows "\<exists>c' e' p' db'. SEC_InputBufferGetQueue c e = Done OMX_ErrorNone (c', e') \<and>
    port_at c' INPUT_PORT_INDEX = Some p' \<and> port_synced e' p' \<and> queue_elems (bufferQ p') = its \<and>
    array_at (secDataBuffer c') INPUT_PORT_INDEX = Some db' \<and> dataValid db' \<and>
    db_bufferHeader db' = Some (item_ptr it) \<and> live_blocks e' = live_blocks e - 1"
  by (rule GetQueue_takes_first [OF assms])

theorem InputBufferGetQueue_delivers_in_order_witness:
  "\<exists>c' e' db'. SEC_InputBufferGetQueue ((sample_queued 2)\<lparr>currentState := OMX_StateExecuting,
        pSECPort := [(pSECPort (sample_queued 2) ! 0)\<lparr>bufferSemID := Some 1\<rparr>]\<rparr>) sample_env_hdr
      = Done OMX_ErrorNone (c', e') \<and>
    array_at (secDataBuffer c') 0 = Some db' \<and> db_bufferHeader db' = Some 900"
  using InputBufferGetQueue_delivers_in_order [of "(sample_queued 2)\<lparr>currentState := OMX_StateExecuting,
        pSECPort := [(pSECPort (sample_queued 2) ! 0)\<lparr>bufferSemID := Some 1\<rparr>]\<rparr>"
      "(pSECPort (sample_queued 2) ! 0)\<lparr>bufferSemID := Some 1\<rparr>" zero_DATABUFFER sample_env_hdr
      "QMsg (sample_message SEC_OMX_CommandEmptyBuffer 900)" "[]"]
  by (fastforce simp: port_at_def array_at_def sample_queued_def set_port_def INPUT_PORT_INDEX_def port_synced_def
      sample_queued_elems item_header_def sample_message_def sample_env_hdr_def zero_DATABUFFER_def)

text \<open>C10. A tenth buffer does not fit: although a port may have up to twenty buffers, the call that
  queues a buffer when nine are queued fails with \<open>OMX_ErrorUndefined\<close>, leaves the queue
  unchanged, and the block of its message is never released.\<close>

theorem tenth_buffer_refused_and_message_leaked:
  assumes f: "(f, index_of, i, cmd) \<in>
      {(SEC_OMX_EmptyThisBuffer, nInputPortIndex, INPUT_PORT_INDEX, SEC_OMX_CommandEmptyBuffer),
       (SEC_OMX_FillThisBuffer, nOutputPortIndex, OUTPUT_PORT_INDEX, SEC_OMX_CommandFillBuffer)}"
    and vh: "valid_handle oc c" and acc: "accepts index_of i c e p h" and mem: "sys_answers e = []"
    and wf: "queue_wf (bufferQ p)" and full: "length (queue_elems (bufferQ p)) = RING_SIZE"
  shows "\<exists>oc' c' e'. f (Some oc) (Some h) e = Done OMX_ErrorUndefined (Some oc', e') \<and>
    valid_handle oc' c' \<and> port_at c' i = Some p \<and> live_blocks e' = live_blocks e + 1"
proof -
  let ?e = "snd (SEC_OSAL_Malloc e)"
  have fe: "f (Some oc) (Some h) e = entry (Some oc) (ThisBuffer_body index_of i cmd (Some h)) e"
    using f by (auto simp: SEC_OMX_EmptyThisBuffer_def SEC_OMX_FillThisBuffer_def)
  have same: "p\<lparr>bufferQ := bufferQ p\<rparr> = p" by simp
  have body: "ThisBuffer_body index_of i cmd (Some h) c e = Done OMX_ErrorUndefined (set_port i p c, ?e)"
    using ThisBuffer_body_accepts [OF acc mem, of cmd] ring.enq_full [OF wf full] same by auto
  have "f (Some oc) (Some h) e =
      Done OMX_ErrorUndefined (Some (oc\<lparr>pComponentPrivate := Some (set_port i p c)\<rparr>), ?e)"
    unfolding fe entry_valid [OF vh] body by simp
  moreover have "port_at (set_port i p c) i = Some p" using acc by (simp add: accepts_def)
  moreover have "live_blocks ?e = live_blocks e + 1" using mem by (simp add: Malloc_ok)
  ultimately show ?thesis using valid_handle_update [OF vh] by blast
qed

lemma enqueued_list:
  "queue_wf q \<Longrightarrow> length (queue_elems q) + length xs \<le> RING_SIZE \<Longrightarrow>
   queue_wf (foldl enqueued q xs) \<and> queue_elems (foldl enqueued q xs) = queue_elems q @ xs"
proof (induction xs arbitrary: q)
  case (Cons x xs)
  then show ?case using enqueued_room [of q x] Cons.IH [of "enqueued q x"] by simp
qed simp

theorem tenth_buffer_refused_and_message_leaked_witness:
  "\<exists>oc' e'. SEC_OMX_EmptyThisBuffer
      (Some (sample_handle (sample_populated (foldl enqueued (fresh_ring 100 101)
         (replicate 9 (QMsg (sample_message SEC_OMX_CommandEmptyBuffer 900)))))))
      (Some 900) sample_env_hdr = Done OMX_ErrorUndefined (Some oc', e') \<and> live_blocks e' = 2"
  using tenth_buffer_refused_and_message_leaked [OF _ sample_handle_valid sample_populated_accepts,
      of SEC_OMX_EmptyThisBuffer SEC_OMX_CommandEmptyBuffer]
    enqueued_list [of "fresh_ring 100 101" "replicate 9 (QMsg (sample_message SEC_OMX_CommandEmptyBuffer 900))"]
  by (fastforce simp: RING_SIZE_def sample_env_hdr_def sample_populated_port_def)

section \<open>Life and death of the ports\<close>

definition constructed_port :: "OMX_DIRTYPE \<Rightarrow> int \<Rightarrow> queue_item SEC_QUEUE \<Rightarrow> SEC_OMX_BASEPORT" where
  "constructed_port dir i q = init_port_fields dir i (zero_BASEPORT\<lparr>bufferQ := q,
     bufferHeader := replicate MAX_BUFFER_NUM None, bufferStateAllocate := replicate MAX_BUFFER_NUM 0,
     portState := OMX_StateMax, loadedResource := Some 0, unloadedResource := Some 0\<rparr>)"

lemma SemaphoreCreate_ok [osal_rules]:
  "sys_answers os = [] \<Longrightarrow> SEC_OSAL_SemaphoreCreate s os = (OMX_ErrorNone, Some 0,
     os\<lparr>mem_cnt := mem_cnt os + 1, live_blocks := live_blocks os + 1, next_addr := next_addr os + 1\<rparr>)"
  by (simp add: SEC_OSAL_SemaphoreCreate_def Malloc_ok sys_call_ok)

text \<open>What is left of the constructor of a port once its queue is made and nothing fails any more.\<close>

lemma construct_port_tail:
  assumes q: "SEC_OSAL_QueueCreate (bufferQ zero_BASEPORT) e = Done r (q, e1)" and ok: "sys_answers e1 = []"
  shows "construct_port dir i zero_BASEPORT e = Done OMX_ErrorNone (constructed_port dir i q,
     e1\<lparr>mem_cnt := mem_cnt e1 + 4, live_blocks := live_blocks e1 + 4, next_addr := next_addr e1 + 4\<rparr>)"
proof -
  have z: "zero_BASEPORT\<lparr>bufferQ := q, bufferHeader := replicate MAX_BUFFER_NUM None,
      bufferStateAllocate := replicate MAX_BUFFER_NUM 0, bufferSemID := None, assignedBufferNum := 0,
      portState := OMX_StateMax, bIsPortFlushed := False, bIsPortDisabled := False, tunneledComponent := None,
      tunneledPort := 0, tunnelBufferNum := 0, bufferSupplier := OMX_BufferSupplyUnspecified, tunnelFlags := 0,
      loadedResource := Some 0, unloadedResource := Some 0\<rparr> =
    zero_BASEPORT\<lparr>bufferQ := q, bufferHeader := replicate MAX_BUFFER_NUM None,
      bufferStateAllocate := replicate MAX_BUFFER_NUM 0, portState := OMX_StateMax,
      loadedResource := Some 0, unloadedResource := Some 0\<rparr>"
    by (simp add: zero_BASEPORT_def)
  show ?thesis
    unfolding construct_port_def q
    by (simp add: ok Malloc_ok SemaphoreCreate_ok Let_def z constructed_port_def)
qed

lemma construct_port_ok:
  assumes "sys_answers e = []"
  shows "construct_port dir i zero_BASEPORT e = Done OMX_ErrorNone
    (constructed_port dir i (fresh_ring (next_addr e) (next_addr e + 1)),
     e\<lparr>mem_cnt := mem_cnt e + 14, live_blocks := live_blocks e + 14, next_addr := next_addr e + 14\<rparr>)"
  using construct_port_tail [OF QueueCreate_ok [OF assms]] assms by simp

lemma constructed_port_fields [simp]:
  "bufferQ (constructed_port dir i q) = q"
  "loadedResource (constructed_port dir i q) = Some 0"
  "unloadedResource (constructed_port dir i q) = Some 0"
  "bufferStateAllocate (constructed_port dir i q) = replicate MAX_BUFFER_NUM 0"
  "bufferHeader (constructed_port dir i q) = replicate MAX_BUFFER_NUM None"
  "assignedBufferNum (constructed_port dir i q) = 0"
  "nBufferCountActual (portDefinition (constructed_port dir i q)) = 0"
  "tunnelFlags (constructed_port dir i q) = 0"
  by (simp_all add: constructed_port_def init_port_fields_def zero_BASEPORT_def INIT_SET_SIZE_VERSION_def)

lemma constructed_port_wf: "port_wf (constructed_port dir i q)"
  by (simp add: port_wf_def occupied_def BUFFER_STATE_FREE_def)

lemma valid_handle_update_api:
  "valid_handle oc c \<Longrightarrow> valid_handle (oc\<lparr>pComponentPrivate := Some c', api := ms\<rparr>) c'"
  by (auto simp: valid_handle_def SEC_OMX_Check_SizeVersion_def split: if_splits)

lemma Port_Constructor_ports:
  assumes "SEC_OSAL_Malloc e = (Some a, e1)"
    "construct_port OMX_DirInput INPUT_PORT_INDEX zero_BASEPORT e1 = Done OMX_ErrorNone (pin, e2)"
    "construct_port OMX_DirOutput OUTPUT_PORT_INDEX zero_BASEPORT e2 = Done OMX_ErrorNone (pout, e3)"
  obtains c1 where "Port_Constructor_body c e = Done OMX_ErrorNone (c1, e3)" "pSECPort c1 = [pin, pout]"
  using assms by (simp add: Port_Constructor_body_def Let_def)

lemma Port_Constructor_ok:
  assumes "sys_answers e = []"
  obtains c1 e1 m b m' b' where "Port_Constructor_body c e = Done OMX_ErrorNone (c1, e1)"
    "pSECPort c1 = [constructed_port OMX_DirInput INPUT_PORT_INDEX (fresh_ring m b),
                    constructed_port OMX_DirOutput OUTPUT_PORT_INDEX (fresh_ring m' b')]"
    "live_blocks e1 = live_blocks e + 29" "sys_answers e1 = []"
proof -
  let ?e1 = "snd (SEC_OSAL_Malloc e)"
  have m: "SEC_OSAL_Malloc e = (Some (next_addr e), ?e1)" and s1: "sys_answers ?e1 = []"
    and l1: "live_blocks ?e1 = live_blocks e + 1"
    using assms by (simp_all add: Malloc_ok)
  note pin = construct_port_ok [OF s1, of OMX_DirInput INPUT_PORT_INDEX]
  let ?e2 = "?e1\<lparr>mem_cnt := mem_cnt ?e1 + 14, live_blocks := live_blocks ?e1 + 14, next_addr := next_addr ?e1 + 14\<rparr>"
  have s2: "sys_answers ?e2 = []" using s1 by simp
  note pout = construct_port_ok [OF s2, of OMX_DirOutput OUTPUT_PORT_INDEX]
  show thesis
    by (rule Port_Constructor_ports [OF m pin pout], erule that, assumption) (use s1 l1 in simp_all)
qed

lemma destruct_port_blocks:
  assumes "queue_rel (bufferQ p) xs" "loadedResource p = Some m" "unloadedResource p = Some n"
    "bufferStateAllocate p \<noteq> []" "bufferHeader p \<noteq> []"
  shows "\<exists>p' e'. destruct_port p e = Done () (p', e') \<and> live_blocks e' = live_blocks e - 14"
proof -
  let ?e = "SEC_OSAL_Free (array_ptr (bufferHeader p)) (SEC_OSAL_Free (array_ptr (bufferStateAllocate p))
     (snd (SEC_OSAL_SemaphoreTerminate (unloadedResource p) (snd (SEC_OSAL_SemaphoreTerminate (loadedResource p) e)))))"
  have live: "live_blocks ?e = live_blocks e - 4"
    using assms by (simp add: SEC_OSAL_SemaphoreTerminate_def array_ptr_def)
  obtain q' e' where "SEC_OSAL_QueueTerminate (bufferQ p) ?e = Done OMX_ErrorNone (q', e')"
    "live_blocks e' = live_blocks ?e - 10"
    using QueueTerminate_rel [OF assms(1), of ?e] by (auto simp: RING_SIZE_def)
  then show ?thesis using live by (simp add: destruct_port_def Let_def)
qed

text \<open>C11. Construction and destruction of the ports balance. When no allocation fails,
  \<open>SEC_OMX_Port_Constructor\<close> returns \<open>OMX_ErrorNone\<close> with two well-formed ports whose queues
  are empty rings, registers the two buffer entry points, and
  \<open>SEC_OMX_Port_Destructor\<close> then returns every block.\<close>

theorem port_constructor_destructor_balance:
  assumes vh: "valid_handle oc c" and mem: "sys_answers e = []"
  shows "\<exists>oc1 c1 e1 oc2 e2.
    SEC_OMX_Port_Constructor (Some oc) e = Done OMX_ErrorNone (Some oc1, e1) \<and>
    valid_handle oc1 c1 \<and> ports_wf c1 \<and> (\<forall>p\<in>set (pSECPort c1). queue_rel (bufferQ p) []) \<and>
    {M_EmptyThisBuffer, M_FillThisBuffer} \<subseteq> set (api oc1) \<and>
    SEC_OMX_Port_Destructor (Some oc1) e1 = Done OMX_ErrorNone (Some oc2, e2) \<and>
    live_blocks e2 = live_blocks e"
proof -
  obtain c1 e1 m b m' b' where con: "Port_Constructor_body c e = Done OMX_ErrorNone (c1, e1)"
    and ps: "pSECPort c1 = [constructed_port OMX_DirInput INPUT_PORT_INDEX (fresh_ring m b),
                    constructed_port OMX_DirOutput OUTPUT_PORT_INDEX (fresh_ring m' b')]"
    and live: "live_blocks e1 = live_blocks e + 29"
    by (rule Port_Constructor_ok [OF mem])
  let ?pin = "constructed_port OMX_DirInput INPUT_PORT_INDEX (fresh_ring m b)"
  let ?pout = "constructed_port OMX_DirOutput OUTPUT_PORT_INDEX (fresh_ring m' b')"
  let ?oc1 = "oc\<lparr>pComponentPrivate := Some c1, api := M_EmptyThisBuffer # M_FillThisBuffer # api oc\<rparr>"
  have vh1: "valid_handle ?oc1 c1"
    by (rule valid_handle_update_api [OF vh])
  have c: "SEC_OMX_Port_Constructor (Some oc) e = Done OMX_ErrorNone (Some ?oc1, e1)"
    by (simp add: SEC_OMX_Port_Constructor_def entry_valid [OF vh] con)
  obtain p1 e2 where d1: "destruct_port ?pin e1 = Done () (p1, e2)" and l1: "live_blocks e2 = live_blocks e1 - 14"
    using destruct_port_blocks [of ?pin "[]" 0 0 e1] by (auto simp: fresh_ring_rel MAX_BUFFER_NUM_def)
  obtain p2 e3 where d2: "destruct_port ?pout e2 = Done () (p2, e3)" and l2: "live_blocks e3 = live_blocks e2 - 14"
    using destruct_port_blocks [of ?pout "[]" 0 0 e2] by (auto simp: fresh_ring_rel MAX_BUFFER_NUM_def)
  have d: "SEC_OMX_Port_Destructor (Some ?oc1) e1 = Done OMX_ErrorNone
      (Some (?oc1\<lparr>pComponentPrivate := Some (c1\<lparr>pSECPort := []\<rparr>)\<rparr>), SEC_OSAL_Free (Some ()) e3)"
    by (simp add: SEC_OMX_Port_Destructor_def entry_valid [OF vh1] Port_Destructor_body_def port_at_def
        array_at_def port_index_defs ps d1 [unfolded port_index_defs] d2 [unfolded port_index_defs] array_ptr_def)
  have "ports_wf c1" "\<forall>p\<in>set (pSECPort c1). queue_rel (bufferQ p) []"
    by (simp_all add: ports_wf_def ps constructed_port_wf fresh_ring_rel ALL_PORT_NUM_def)
  moreover have "live_blocks (SEC_OSAL_Free (Some ()) e3) = live_blocks e" using live l1 l2 by simp
  ultimately show ?thesis
    by (intro exI conjI) (rule c, rule vh1, assumption+, simp, rule d, assumption)
qed

theorem port_constructor_destructor_balance_witness:
  "\<exists>oc1 c1 e1 oc2 e2.
    SEC_OMX_Port_Constructor (Some (sample_handle zero_BASECOMPONENT)) sample_env = Done OMX_ErrorNone (Some oc1, e1) \<and>
    valid_handle oc1 c1 \<and> ports_wf c1 \<and> (\<forall>p\<in>set (pSECPort c1). queue_rel (bufferQ p) []) \<and>
    {M_EmptyThisBuffer, M_FillThisBuffer} \<subseteq> set (api oc1) \<and>
    SEC_OMX_Port_Destructor (Some oc1) e1 = Done OMX_ErrorNone (Some oc2, e2) \<and>
    live_blocks e2 = live_blocks sample_env"
  by (rule port_constructor_destructor_balance [OF sample_handle_valid]) simp



end
