(* ===== verification/SEC_Command.thy ===== *)
theory SEC_Command
  imports SEC_Port
begin

text \<open>
  The client side of the command path in \<open>SEC_OMX_Basecomponent.c\<close>: \<open>SEC_OMX_SendCommand\<close> with
  the checks it makes before a command is queued, and the small entry points
  (\<open>SEC_OMX_GetState\<close>, \<open>SEC_OMX_SetCallbacks\<close> and others). The parameter entry points are in
  \<open>SEC_Param\<close>; the handler thread that executes the queued commands is in \<open>SEC_StateMachine\<close>.
\<close>

section \<open>Sending a command\<close>

text \<open>A loop that updates the ports with the given indices in order.\<close>

primrec modify_ports ::
  "(SEC_OMX_BASEPORT \<Rightarrow> SEC_OMX_BASEPORT) \<Rightarrow> int list \<Rightarrow> SEC_OMX_BASECOMPONENT \<Rightarrow> SEC_OMX_BASECOMPONENT option" where
  "modify_ports f [] c = Some c"
| "modify_ports f (i # is) c = (case modify_port i f c of None \<Rightarrow> None | Some c' \<Rightarrow> modify_ports f is c')"

definition port_range :: "SEC_OMX_BASECOMPONENT \<Rightarrow> int list" where
  "port_range c = map int [0..<unat (nPorts (portParam c))]"

definition set_portStates ::
  "OMX_STATETYPE \<Rightarrow> SEC_OMX_BASECOMPONENT \<Rightarrow> (OMX_ERRORTYPE, SEC_OMX_BASECOMPONENT) outcome" where
  "set_portStates s c =
    (case modify_ports (\<lambda>p. p\<lparr>portState := s\<rparr>) (port_range c) c of
       None \<Rightarrow> Crash | Some c' \<Rightarrow> Done OMX_ErrorNone c')"

definition SEC_StateSet :: "SEC_OMX_BASECOMPONENT \<Rightarrow> u32 \<Rightarrow> (OMX_ERRORTYPE, SEC_OMX_BASECOMPONENT) outcome" where
  "SEC_StateSet c nParam =
    (let destState = state_of_u32 nParam in
     if destState = OMX_StateIdle \<and> currentState c = OMX_StateLoaded then
       set_portStates OMX_StateIdle (c\<lparr>transientState := SEC_OMX_TransStateLoadedToIdle\<rparr>)
     else if destState = OMX_StateLoaded \<and> currentState c = OMX_StateIdle then
       set_portStates OMX_StateLoaded (c\<lparr>transientState := SEC_OMX_TransStateIdleToLoaded\<rparr>)
     else if destState = OMX_StateIdle \<and> currentState c = OMX_StateExecuting then
       Done OMX_ErrorNone (c\<lparr>transientState := SEC_OMX_TransStateExecutingToIdle\<rparr>)
     else if destState = OMX_StateExecuting \<and> currentState c = OMX_StateIdle then
       Done OMX_ErrorNone (c\<lparr>transientState := SEC_OMX_TransStateIdleToExecuting\<rparr>)
     else if destState = OMX_StateInvalid then set_portStates OMX_StateInvalid c
     else Done OMX_ErrorNone c)"

text \<open>
  The port index of a command is a signed word. The test against the number of ports lets
  every negative index pass; \<open>SEC_SetPortFlush\<close> also cuts the index to 16 bits.
\<close>

definition command_index :: "u32 \<Rightarrow> int" where
  "command_index nParam = sint nParam"

definition bad_port_index :: "SEC_OMX_BASECOMPONENT \<Rightarrow> int \<Rightarrow> bool" where
  "bad_port_index c portIndex \<longleftrightarrow> portIndex \<noteq> ALL_PORT_INDEX \<and> portIndex \<ge> sint (nPorts (portParam c))"

definition SEC_SetPortFlush :: "SEC_OMX_BASECOMPONENT \<Rightarrow> u32 \<Rightarrow> (OMX_ERRORTYPE, SEC_OMX_BASECOMPONENT) outcome" where
  "SEC_SetPortFlush c nParam =
    (let portIndex = command_index nParam in
     if currentState c = OMX_StateExecuting \<or> currentState c = OMX_StatePause then
       if bad_port_index c portIndex then Done OMX_ErrorBadPortIndex c
       else (case modify_ports (\<lambda>p. p\<lparr>bIsPortFlushed := True\<rparr>)
                    (if portIndex = ALL_PORT_INDEX then map int [0..<ALL_PORT_NUM] else [uint (ucast nParam :: u16)]) c of
               None \<Rightarrow> Crash | Some c' \<Rightarrow> Done OMX_ErrorNone c')
     else Done OMX_ErrorIncorrectStateOperation c)"

text \<open>The loops stop at the first port that is in the wrong state, keeping what they did before.\<close>

primrec enable_ports :: "int list \<Rightarrow> SEC_OMX_BASECOMPONENT \<Rightarrow> (OMX_ERRORTYPE, SEC_OMX_BASECOMPONENT) outcome" where
  "enable_ports [] c = Done OMX_ErrorNone c"
| "enable_ports (i # is) c =
    (case port_at c i of
       None \<Rightarrow> Crash
     | Some p \<Rightarrow>
         if CHECK_PORT_ENABLED p then Done OMX_ErrorIncorrectStateOperation c
         else enable_ports is (set_port i (p\<lparr>portState := OMX_StateIdle\<rparr>) c))"

definition SEC_SetPortEnable :: "SEC_OMX_BASECOMPONENT \<Rightarrow> u32 \<Rightarrow> (OMX_ERRORTYPE, SEC_OMX_BASECOMPONENT) outcome" where
  "SEC_SetPortEnable c nParam =
    (let portIndex = command_index nParam in
     if bad_port_index c portIndex then Done OMX_ErrorBadPortIndex c
     else if portIndex = ALL_PORT_INDEX then enable_ports (port_range c) c
     else enable_ports [portIndex] c)"

primrec disable_ports :: "int list \<Rightarrow> SEC_OMX_BASECOMPONENT \<Rightarrow> (OMX_ERRORTYPE, SEC_OMX_BASECOMPONENT) outcome" where
  "disable_ports [] c = Done OMX_ErrorNone c"
| "disable_ports (i # is) c =
    (case port_at c i of
       None \<Rightarrow> Crash
     | Some p \<Rightarrow>
         if \<not> CHECK_PORT_ENABLED p then Done OMX_ErrorIncorrectStateOperation c
         else disable_ports is (set_port i (p\<lparr>portState := OMX_StateLoaded, bIsPortDisabled := True\<rparr>) c))"

definition SEC_SetPortDisable :: "SEC_OMX_BASECOMPONENT \<Rightarrow> u32 \<Rightarrow> (OMX_ERRORTYPE, SEC_OMX_BASECOMPONENT) outcome" where
  "SEC_SetPortDisable c nParam =
    (let portIndex = command_index nParam in
     if bad_port_index c portIndex then Done OMX_ErrorBadPortIndex c
     else if portIndex = ALL_PORT_INDEX then disable_ports (port_range c) c
     else (case modify_port portIndex (\<lambda>p. p\<lparr>portState := OMX_StateLoaded, bIsPortDisabled := True\<rparr>) c of
             None \<Rightarrow> Crash | Some c' \<Rightarrow> Done OMX_ErrorNone c'))"

definition SEC_SetMarkBuffer :: "SEC_OMX_BASECOMPONENT \<Rightarrow> u32 \<Rightarrow> OMX_ERRORTYPE" where
  "SEC_SetMarkBuffer c nParam =
    (if nParam \<ge> nPorts (portParam c) then OMX_ErrorBadPortIndex
     else if currentState c = OMX_StateExecuting \<or> currentState c = OMX_StatePause then OMX_ErrorNone
     else OMX_ErrorIncorrectStateOperation)"

definition SEC_OMX_CommandQueue ::
  "OMX_COMMANDTYPE \<Rightarrow> u32 \<Rightarrow> cmd_data \<Rightarrow> SEC_OMX_BASECOMPONENT \<Rightarrow> omx_env \<Rightarrow> (OMX_ERRORTYPE, comp_state) outcome" where
  "SEC_OMX_CommandQueue Cmd nParam cmdData c e =
    (case SEC_OSAL_Malloc e of
       (None, e1) \<Rightarrow> Done OMX_ErrorInsufficientResources (c, e1)
     | (Some _, e1) \<Rightarrow>
         bindO (SEC_OSAL_Queue (messageQ c)
                  (Some (QMsg \<lparr>messageType = Cmd, messageParam = nParam, pCmdData = cmdData\<rparr>)))
           (\<lambda>r q.
             if r \<noteq> 0 then Done OMX_ErrorUndefined (c\<lparr>messageQ := q\<rparr>, e1)
             else (case SEC_OSAL_SemaphorePost (msgSemaphoreHandle c) of (ret, sem) \<Rightarrow>
                Done ret (c\<lparr>messageQ := q, msgSemaphoreHandle := sem\<rparr>, e1))))"

text \<open>The checks of a command; the result of \<open>SEC_StateSet\<close> is not looked at.\<close>

definition command_check ::
  "OMX_COMMANDTYPE \<Rightarrow> u32 \<Rightarrow> SEC_OMX_BASECOMPONENT \<Rightarrow> (OMX_ERRORTYPE, SEC_OMX_BASECOMPONENT) outcome" where
  "command_check Cmd nParam c =
    (case Cmd of
       OMX_CommandStateSet \<Rightarrow> bindO (SEC_StateSet c nParam) (\<lambda>_ c'. Done OMX_ErrorNone c')
     | OMX_CommandFlush \<Rightarrow> SEC_SetPortFlush c nParam
     | OMX_CommandPortDisable \<Rightarrow> SEC_SetPortDisable c nParam
     | OMX_CommandPortEnable \<Rightarrow> SEC_SetPortEnable c nParam
     | OMX_CommandMarkBuffer \<Rightarrow> Done (SEC_SetMarkBuffer c nParam) c
     | _ \<Rightarrow> Done OMX_ErrorNone c)"

definition SendCommand_body ::
  "OMX_COMMANDTYPE \<Rightarrow> u32 \<Rightarrow> cmd_data \<Rightarrow> SEC_OMX_BASECOMPONENT \<Rightarrow> omx_env \<Rightarrow> (OMX_ERRORTYPE, comp_state) outcome" where
  "SendCommand_body Cmd nParam cmdData c e =
    (if currentState c = OMX_StateInvalid then Done OMX_ErrorInvalidState (c, e)
     else bindO (command_check Cmd nParam c) (\<lambda>ret c1.
            if ret \<noteq> OMX_ErrorNone then Done ret (c1, e)
            else SEC_OMX_CommandQueue Cmd nParam cmdData c1 e))"

definition SEC_OMX_SendCommand ::
  "OMX_COMPONENTTYPE option \<Rightarrow> OMX_COMMANDTYPE \<Rightarrow> u32 \<Rightarrow> cmd_data \<Rightarrow> omx_env \<Rightarrow>
   (OMX_ERRORTYPE, OMX_COMPONENTTYPE option \<times> omx_env) outcome" where
  "SEC_OMX_SendCommand hComponent Cmd nParam cmdData =
    entry hComponent (SendCommand_body Cmd nParam cmdData)"

section \<open>State, version and callbacks\<close>

text \<open>An out parameter that is not NULL is part of the result.\<close>

definition SEC_OMX_GetState ::
  "OMX_COMPONENTTYPE option \<Rightarrow> bool \<Rightarrow> omx_env \<Rightarrow>
   (OMX_ERRORTYPE \<times> OMX_STATETYPE option, OMX_COMPONENTTYPE option \<times> omx_env) outcome" where
  "SEC_OMX_GetState hComponent pState_given e =
    (if hComponent = None \<or> \<not> pState_given then Done (OMX_ErrorBadParameter, None) (hComponent, e)
     else entry_with (\<lambda>ret. (ret, None)) hComponent
            (\<lambda>c e. Done (OMX_ErrorNone, Some (currentState c)) (c, e)) e)"

text \<open>
  The unique identifier consists of the address of the handle and the process and user
  numbers, which the operating system gives.
\<close>

record component_version =
  cv_name :: string
  cv_version :: OMX_VERSIONTYPE
  cv_specVersion :: OMX_VERSIONTYPE
  cv_uuid :: "ptr \<times> u32 \<times> u32"

definition SEC_OMX_GetComponentVersion ::
  "u32 \<Rightarrow> u32 \<Rightarrow> ptr \<Rightarrow> OMX_COMPONENTTYPE option \<Rightarrow> bool \<Rightarrow> omx_env \<Rightarrow>
   (OMX_ERRORTYPE \<times> component_version option, OMX_COMPONENTTYPE option \<times> omx_env) outcome" where
  "SEC_OMX_GetComponentVersion pid uid self hComponent outs_given e =
    (if hComponent = None \<or> \<not> outs_given then Done (OMX_ErrorBadParameter, None) (hComponent, e)
     else entry_with (\<lambda>ret. (ret, None)) hComponent
            (\<lambda>c e. if currentState c = OMX_StateInvalid then Done (OMX_ErrorInvalidState, None) (c, e)
                   else Done (OMX_ErrorNone, Some \<lparr>cv_name = componentName c, cv_version = componentVersion c,
                          cv_specVersion = specVersion c, cv_uuid = (self, pid, uid)\<rparr>) (c, e)) e)"

definition SEC_OMX_SetCallbacks ::
  "OMX_COMPONENTTYPE option \<Rightarrow> ptr option \<Rightarrow> ptr option \<Rightarrow> omx_env \<Rightarrow>
   (OMX_ERRORTYPE, OMX_COMPONENTTYPE option \<times> omx_env) outcome" where
  "SEC_OMX_SetCallbacks hComponent callbacks pAppData =
    entry hComponent (\<lambda>c e.
      if callbacks = None then Done OMX_ErrorBadParameter (c, e)
      else if currentState c = OMX_StateInvalid then Done OMX_ErrorInvalidState (c, e)
      else if currentState c \<noteq> OMX_StateLoaded then Done OMX_ErrorIncorrectStateOperation (c, e)
      else Done OMX_ErrorNone (c\<lparr>pCallbacks := callbacks, callbackData := pAppData\<rparr>, e))"

definition SEC_OMX_UseEGLImage :: OMX_ERRORTYPE where
  "SEC_OMX_UseEGLImage = OMX_ErrorNotImplemented"

section \<open>Commands arrive in order\<close>

text \<open>The message semaphore counts the queued messages.\<close>

definition msg_synced :: "SEC_OMX_BASECOMPONENT \<Rightarrow> bool" where
  "msg_synced c \<longleftrightarrow> queue_wf (messageQ c) \<and> msgSemaphoreHandle c = Some (length (queue_elems (messageQ c)))"

lemma CommandQueue_room:
  assumes sync: "msg_synced c" and room: "length (queue_elems (messageQ c)) < RING_SIZE" and mem: "sys_answers e = []"
  shows "\<exists>c' e'. SEC_OMX_CommandQueue Cmd nParam d c e = Done OMX_ErrorNone (c', e') \<and> msg_synced c' \<and>
    queue_elems (messageQ c') = queue_elems (messageQ c)
      @ [QMsg \<lparr>messageType = Cmd, messageParam = nParam, pCmdData = d\<rparr>] \<and>
    c' = c\<lparr>messageQ := messageQ c', msgSemaphoreHandle := msgSemaphoreHandle c'\<rparr> \<and>
    live_blocks e' = live_blocks e + 1 \<and> sys_answers e' = [] \<and> cb_trace e' = cb_trace e"
proof -
  let ?m = "QMsg \<lparr>messageType = Cmd, messageParam = nParam, pCmdData = d\<rparr>"
  obtain q where q: "SEC_OSAL_Queue (messageQ c) (Some ?m) = Done 0 q" "queue_wf q"
      "queue_elems q = queue_elems (messageQ c) @ [?m]"
    using ring.enq_room [of "messageQ c" ?m] sync room by (auto simp: msg_synced_def)
  let ?n = "length (queue_elems (messageQ c))"
  have post: "SEC_OSAL_SemaphorePost (msgSemaphoreHandle c) = (OMX_ErrorNone, Some (Suc ?n))"
    using sync room by (simp add: msg_synced_def SEC_OSAL_SemaphorePost_def SEM_VALUE_MAX_def RING_SIZE_def)
  let ?c' = "c\<lparr>messageQ := q, msgSemaphoreHandle := Some (Suc ?n)\<rparr>"
  show ?thesis
    using q post mem
    by (intro exI [of _ ?c'] exI [of _ "snd (SEC_OSAL_Malloc e)"])
      (simp add: SEC_OMX_CommandQueue_def Malloc_ok msg_synced_def)
qed

text \<open>The checks leave everything but the ports and the transient state alone.\<close>

definition same_but_ports :: "SEC_OMX_BASECOMPONENT \<Rightarrow> SEC_OMX_BASECOMPONENT \<Rightarrow> bool" where
  "same_but_ports c c' \<longleftrightarrow>
     c'\<lparr>pSECPort := [], transientState := SEC_OMX_TransStateInvalid\<rparr>
     = c\<lparr>pSECPort := [], transientState := SEC_OMX_TransStateInvalid\<rparr> \<and>
     length (pSECPort c') = length (pSECPort c)"

lemma same_but_ports_refl [simp]: "same_but_ports c c"
  by (simp add: same_but_ports_def)

lemma same_but_ports_set_port [simp]: "same_but_ports c (set_port i p c)"
  by (simp add: same_but_ports_def set_port_def)

lemma same_but_ports_trans: "same_but_ports a b \<Longrightarrow> same_but_ports b c \<Longrightarrow> same_but_ports a c"
  by (simp add: same_but_ports_def)

lemma same_but_ports_fields:
  assumes "same_but_ports c c'"
  shows "messageQ c' = messageQ c" "msgSemaphoreHandle c' = msgSemaphoreHandle c"
    "currentState c' = currentState c" "portParam c' = portParam c" "pCallbacks c' = pCallbacks c"
  using assms unfolding same_but_ports_def by (cases c; cases c'; simp)+

lemma modify_ports_same: "modify_ports f is c = Some c' \<Longrightarrow> same_but_ports c c'"
proof (induction "is" arbitrary: c)
  case (Cons i "is")
  then obtain p where "modify_ports f is (set_port i (f p) c) = Some c'"
    by (auto simp: modify_port_def split: option.splits)
  then show ?case
    using Cons.IH [of "set_port i (f p) c"] same_but_ports_trans [OF same_but_ports_set_port] by blast
qed simp

lemma enable_ports_same: "enable_ports is c = Done r c' \<Longrightarrow> same_but_ports c c'"
proof (induction "is" arbitrary: c)
  case (Cons i "is")
  from Cons.prems show ?case
    using Cons.IH same_but_ports_trans [OF same_but_ports_set_port]
    by (auto split: option.splits if_splits) blast
qed simp

lemma disable_ports_same: "disable_ports is c = Done r c' \<Longrightarrow> same_but_ports c c'"
proof (induction "is" arbitrary: c)
  case (Cons i "is")
  from Cons.prems show ?case
    using Cons.IH same_but_ports_trans [OF same_but_ports_set_port]
    by (auto split: option.splits if_splits) blast
qed simp

lemma set_portStates_same: "set_portStates s c = Done r c' \<Longrightarrow> same_but_ports c c'"
  by (auto simp: set_portStates_def split: option.splits dest: modify_ports_same)

lemma StateSet_same:
  assumes "SEC_StateSet c n = Done r c'"
  shows "same_but_ports c c'"
proof -
  have t: "same_but_ports c (c\<lparr>transientState := t\<rparr>)" for t by (simp add: same_but_ports_def)
  then show ?thesis
    using assms set_portStates_same same_but_ports_trans [OF t]
    by (auto simp: SEC_StateSet_def Let_def split: if_splits) blast+
qed

lemma command_check_same:
  assumes "command_check Cmd n c = Done r c'"
  shows "same_but_ports c c'"
  using assms
  by (cases Cmd)
    (auto simp: command_check_def bindO_eq_Done_iff SEC_SetPortFlush_def SEC_SetPortDisable_def
      SEC_SetPortEnable_def modify_port_def Let_def split: if_splits option.splits
      dest: StateSet_same modify_ports_same enable_ports_same disable_ports_same)


text \<open>A component as \<open>SEC_OMX_Port_Constructor\<close> leaves it: an input and an output port.\<close>

definition two_ports :: "SEC_OMX_BASECOMPONENT \<Rightarrow> bool" where
  "two_ports c \<longleftrightarrow> nPorts (portParam c) = 2 \<and> length (pSECPort c) = ALL_PORT_NUM"

lemma two_ports_same: "same_but_ports c c' \<Longrightarrow> two_ports c \<Longrightarrow> two_ports c'"
  using same_but_ports_fields [of c c'] by (simp add: two_ports_def same_but_ports_def)

lemma port_at_two:
  assumes "two_ports c"
  obtains pin pout where "port_at c 0 = Some pin" "port_at c 1 = Some pout" "pSECPort c = [pin, pout]"
  using assms
  by (auto simp: two_ports_def port_at_def array_at_def ALL_PORT_NUM_def length_Suc_conv numeral_2_eq_2)

lemma port_at_two_None:
  "two_ports c \<Longrightarrow> i < 0 \<or> 2 \<le> i \<Longrightarrow> port_at c i = None"
  by (auto simp: two_ports_def port_at_def array_at_def ALL_PORT_NUM_def)

text \<open>
  What \<open>SEC_OMX_SendCommand\<close> answers to a command, \<open>None\<close> where it runs out of the port array.
\<close>

definition disabled_ports :: "SEC_OMX_BASECOMPONENT \<Rightarrow> bool" where
  "disabled_ports c \<longleftrightarrow> (\<forall>p\<in>set (pSECPort c). \<not> CHECK_PORT_ENABLED p)"

definition enabled_ports :: "SEC_OMX_BASECOMPONENT \<Rightarrow> bool" where
  "enabled_ports c \<longleftrightarrow> (\<forall>p\<in>set (pSECPort c). CHECK_PORT_ENABLED p)"

definition command_verdict :: "OMX_COMMANDTYPE \<Rightarrow> u32 \<Rightarrow> SEC_OMX_BASECOMPONENT \<Rightarrow> OMX_ERRORTYPE option" where
  "command_verdict Cmd nParam c =
    (let running = currentState c = OMX_StateExecuting \<or> currentState c = OMX_StatePause;
         i = sint nParam in
     case Cmd of
       OMX_CommandFlush \<Rightarrow>
         if \<not> running then Some OMX_ErrorIncorrectStateOperation
         else if 2 \<le> i then Some OMX_ErrorBadPortIndex
         else if i < -1 \<and> 2 \<le> uint (ucast nParam :: u16) then None
         else Some OMX_ErrorNone
     | OMX_CommandPortDisable \<Rightarrow>
         if 2 \<le> i then Some OMX_ErrorBadPortIndex
         else if i < -1 then None
         else if i = -1 \<and> \<not> enabled_ports c then Some OMX_ErrorIncorrectStateOperation
         else Some OMX_ErrorNone
     | OMX_CommandPortEnable \<Rightarrow>
         if 2 \<le> i then Some OMX_ErrorBadPortIndex
         else if i < -1 then None
         else if (if i = -1 then \<not> disabled_ports c else CHECK_PORT_ENABLED (pSECPort c ! nat i))
         then Some OMX_ErrorIncorrectStateOperation
         else Some OMX_ErrorNone
     | OMX_CommandMarkBuffer \<Rightarrow>
         if 2 \<le> nParam then Some OMX_ErrorBadPortIndex
         else if \<not> running then Some OMX_ErrorIncorrectStateOperation
         else Some OMX_ErrorNone
     | _ \<Rightarrow> Some OMX_ErrorNone)"

lemma sint_small [simp]: "sint (2 :: u32) = 2" by simp

lemma port_range_two: "two_ports c \<Longrightarrow> port_range c = [0, 1]"
  by (simp add: two_ports_def port_range_def upt_rec)

lemma modify_ports_two:
  assumes "two_ports c" "set is \<subseteq> {0, 1}"
  shows "modify_ports f is c \<noteq> None"
  using assms
proof (induction "is" arbitrary: c)
  case (Cons i "is")
  obtain pin pout where p: "port_at c 0 = Some pin" "port_at c 1 = Some pout" "pSECPort c = [pin, pout]"
    using port_at_two [OF Cons.prems(1)] .
  have i: "i = 0 \<or> i = 1" "set is \<subseteq> {0, 1}" using Cons.prems(2) by auto
  then obtain p where m: "modify_port i f c = Some (set_port i (f p) c)" using p by (auto simp: modify_port_def)
  have "two_ports (set_port i (f p) c)" by (rule two_ports_same [OF same_but_ports_set_port Cons.prems(1)])
  then show ?case using Cons.IH i(2) m by simp
qed simp


lemma all_ports: "map int [0..<ALL_PORT_NUM] = [0, 1]"
  by (simp add: ALL_PORT_NUM_def upt_rec)

lemma sint_01:
  assumes "0 \<le> sint n" "sint n < 2"
  shows "n = (0 :: u32) \<or> n = 1"
proof -
  have "sint n = 0 \<or> sint n = 1" using assms by linarith
  moreover have "(of_int (sint n) :: u32) = n" by simp
  ultimately show ?thesis by (metis of_int_0 of_int_1)
qed

lemma bad_port_index_two: "two_ports c \<Longrightarrow> bad_port_index c i \<longleftrightarrow> 2 \<le> i"
  by (auto simp: bad_port_index_def two_ports_def ALL_PORT_INDEX_def)

lemma modify_ports_two_Some: "two_ports c \<Longrightarrow> set is \<subseteq> {0, 1} \<Longrightarrow> \<exists>c'. modify_ports f is c = Some c'"
  using modify_ports_two by blast

lemma set_portStates_two: "two_ports c \<Longrightarrow> \<exists>c'. set_portStates s c = Done OMX_ErrorNone c'"
  using modify_ports_two_Some [of c "[0, 1]" "\<lambda>p. p\<lparr>portState := s\<rparr>"]
  by (auto simp: set_portStates_def port_range_two)

lemma StateSet_two:
  assumes "two_ports c"
  shows "\<exists>c'. SEC_StateSet c n = Done OMX_ErrorNone c'"
proof -
  have "two_ports (c\<lparr>transientState := t\<rparr>)" for t using assms by (simp add: two_ports_def)
  then show ?thesis using assms set_portStates_two by (simp add: SEC_StateSet_def Let_def)
qed

lemma SetPortFlush_two:
  assumes t: "two_ports c"
  shows "case command_verdict OMX_CommandFlush n c of
    None \<Rightarrow> SEC_SetPortFlush c n = Crash | Some r \<Rightarrow> \<exists>c'. SEC_SetPortFlush c n = Done r c'"
proof (cases "currentState c = OMX_StateExecuting \<or> currentState c = OMX_StatePause")
  case run: True
  let ?f = "\<lambda>p. p\<lparr>bIsPortFlushed := True\<rparr>" and ?u = "uint (ucast n :: u16)"
  consider "2 \<le> sint n" | "sint n = -1" | "0 \<le> sint n" "sint n < 2" | "sint n < -1" "2 \<le> ?u" | "sint n < -1" "?u < 2"
    by linarith
  then show ?thesis
  proof cases
    case 1
    then show ?thesis using run t
      by (simp add: command_verdict_def Let_def SEC_SetPortFlush_def command_index_def bad_port_index_two)
  next
    case 2
    obtain c' where "modify_ports ?f [0, 1] c = Some c'"
      using modify_ports_two_Some [OF t, of "[0, 1]" ?f] by auto
    then show ?thesis using run t 2
      by (auto simp: all_ports command_verdict_def Let_def SEC_SetPortFlush_def command_index_def bad_port_index_two ALL_PORT_INDEX_def)
  next
    case 3
    then have "n = 0 \<or> n = 1" using sint_01 by blast
    then have "?u = 0 \<or> ?u = 1" by auto
    then obtain c' where "modify_ports ?f [?u] c = Some c'"
      using modify_ports_two_Some [OF t, of "[?u]" ?f] by auto
    then show ?thesis using run t 3
      by (auto simp: command_verdict_def Let_def SEC_SetPortFlush_def command_index_def bad_port_index_two ALL_PORT_INDEX_def)
  next
    case 4
    then have "modify_ports ?f [?u] c = None"
      using port_at_two_None [OF t] by (simp add: modify_port_def)
    then show ?thesis using run t 4
      by (auto simp: command_verdict_def Let_def SEC_SetPortFlush_def command_index_def bad_port_index_two ALL_PORT_INDEX_def)
  next
    case 5
    have "0 \<le> ?u" by simp
    then have "?u = 0 \<or> ?u = 1" using 5 by linarith
    then obtain c' where "modify_ports ?f [?u] c = Some c'"
      using modify_ports_two_Some [OF t, of "[?u]" ?f] by auto
    then show ?thesis using run t 5
      by (auto simp: command_verdict_def Let_def SEC_SetPortFlush_def command_index_def bad_port_index_two ALL_PORT_INDEX_def)
  qed
next
  case False
  then show ?thesis by (simp add: command_verdict_def Let_def SEC_SetPortFlush_def)
qed


lemma SetPortDisable_two:
  assumes t: "two_ports c"
  shows "case command_verdict OMX_CommandPortDisable n c of
    None \<Rightarrow> SEC_SetPortDisable c n = Crash | Some r \<Rightarrow> \<exists>c'. SEC_SetPortDisable c n = Done r c'"
proof -
  obtain pin pout where p: "port_at c 0 = Some pin" "port_at c 1 = Some pout" "pSECPort c = [pin, pout]"
    using port_at_two [OF t] .
  consider "2 \<le> sint n" | "sint n = -1" | "sint n = 0 \<or> sint n = 1" | "sint n < -1" by linarith
  then show ?thesis
  proof cases
    case 2
    have "\<exists>r c'. disable_ports [0, 1] c = Done r c' \<and> r = (if enabled_ports c then OMX_ErrorNone else OMX_ErrorIncorrectStateOperation)"
      using p by (simp add: enabled_ports_def)
    then show ?thesis using t 2
      by (auto simp: command_verdict_def Let_def SEC_SetPortDisable_def command_index_def bad_port_index_two
          ALL_PORT_INDEX_def port_range_two simp del: disable_ports.simps)
  next
    case 4
    then show ?thesis using t port_at_two_None [OF t, of "sint n"]
      by (auto simp: command_verdict_def Let_def SEC_SetPortDisable_def command_index_def bad_port_index_two
          ALL_PORT_INDEX_def modify_port_def)
  qed (use t p in \<open>auto simp: command_verdict_def Let_def SEC_SetPortDisable_def command_index_def
        bad_port_index_two ALL_PORT_INDEX_def modify_port_def\<close>)
qed

lemma SetPortEnable_two:
  assumes t: "two_ports c"
  shows "case command_verdict OMX_CommandPortEnable n c of
    None \<Rightarrow> SEC_SetPortEnable c n = Crash | Some r \<Rightarrow> \<exists>c'. SEC_SetPortEnable c n = Done r c'"
proof -
  obtain pin pout where p: "port_at c 0 = Some pin" "port_at c 1 = Some pout" "pSECPort c = [pin, pout]"
    using port_at_two [OF t] .
  consider "2 \<le> sint n" | "sint n = -1" | "sint n = 0 \<or> sint n = 1" | "sint n < -1" by linarith
  then show ?thesis
  proof cases
    case 2
    have "\<exists>r c'. enable_ports [0, 1] c = Done r c' \<and> r = (if disabled_ports c then OMX_ErrorNone else OMX_ErrorIncorrectStateOperation)"
      using p by (simp add: disabled_ports_def)
    then show ?thesis using t 2
      by (auto simp: command_verdict_def Let_def SEC_SetPortEnable_def command_index_def bad_port_index_two
          ALL_PORT_INDEX_def port_range_two simp del: enable_ports.simps)
  next
    case 4
    then show ?thesis using t port_at_two_None [OF t, of "sint n"]
      by (auto simp: command_verdict_def Let_def SEC_SetPortEnable_def command_index_def bad_port_index_two
          ALL_PORT_INDEX_def)
  qed (use t p in \<open>auto simp: command_verdict_def Let_def SEC_SetPortEnable_def command_index_def
        bad_port_index_two ALL_PORT_INDEX_def\<close>)
qed

lemma command_check_two:
  assumes t: "two_ports c"
  shows "case command_verdict Cmd n c of
    None \<Rightarrow> command_check Cmd n c = Crash | Some r \<Rightarrow> \<exists>c'. command_check Cmd n c = Done r c'"
proof (cases Cmd)
  case OMX_CommandStateSet
  then show ?thesis using StateSet_two [OF t, of n] by (auto simp: command_check_def command_verdict_def Let_def)
next
  case OMX_CommandMarkBuffer
  then show ?thesis using t
    by (simp add: command_check_def command_verdict_def Let_def SEC_SetMarkBuffer_def two_ports_def)
next
  case OMX_CommandFlush
  then show ?thesis using SetPortFlush_two [OF t, of n] by (simp add: command_check_def split: option.splits)
next
  case OMX_CommandPortDisable
  then show ?thesis using SetPortDisable_two [OF t, of n] by (simp add: command_check_def split: option.splits)
next
  case OMX_CommandPortEnable
  then show ?thesis using SetPortEnable_two [OF t, of n] by (simp add: command_check_def split: option.splits)
qed (simp_all add: command_check_def command_verdict_def Let_def)

text \<open>C14. The complete answer of \<open>SEC_OMX_SendCommand\<close>, by the state of the component, the command and
  its parameter read as a signed port index, when the message queue has room and there is
  memory. A command that is refused is not queued. One that is accepted is the last of the
  queue, with the message semaphore in step. A negative port index other than \<open>-1\<close>
  passes the check against the number of ports, and the code indexes the port array
  with it.\<close>

theorem SendCommand_verdict:
  assumes vh: "valid_handle oc c" and t: "two_ports c" and st: "currentState c \<noteq> OMX_StateInvalid"
    and sync: "msg_synced c" and room: "length (queue_elems (messageQ c)) < RING_SIZE" and mem: "sys_answers e = []"
  shows "case command_verdict Cmd n c of
      None \<Rightarrow> SEC_OMX_SendCommand (Some oc) Cmd n d e = Crash
    | Some r \<Rightarrow> \<exists>oc' c' e'. SEC_OMX_SendCommand (Some oc) Cmd n d e = Done r (Some oc', e') \<and>
        valid_handle oc' c' \<and> two_ports c' \<and> msg_synced c' \<and> currentState c' = currentState c \<and>
        queue_elems (messageQ c') = queue_elems (messageQ c)
          @ (if r = OMX_ErrorNone then [QMsg \<lparr>messageType = Cmd, messageParam = n, pCmdData = d\<rparr>] else []) \<and>
        live_blocks e' = live_blocks e + (if r = OMX_ErrorNone then 1 else 0)"
proof (cases "command_verdict Cmd n c")
  case None
  then show ?thesis using command_check_two [OF t, of Cmd n] st
    by (simp add: SEC_OMX_SendCommand_def entry_valid [OF vh] SendCommand_body_def)
next
  case (Some r)
  then obtain c1 where ck: "command_check Cmd n c = Done r c1" using command_check_two [OF t, of Cmd n] by auto
  note same = command_check_same [OF ck] and f = same_but_ports_fields [OF command_check_same [OF ck]]
  have t1: "two_ports c1" by (rule two_ports_same [OF same t])
  have s1: "msg_synced c1" using sync f by (simp add: msg_synced_def)
  show ?thesis
  proof (cases "r = OMX_ErrorNone")
    case False
    then have "SEC_OMX_SendCommand (Some oc) Cmd n d e = Done r (Some (oc\<lparr>pComponentPrivate := Some c1\<rparr>), e)"
      using ck st by (simp add: SEC_OMX_SendCommand_def entry_valid [OF vh] SendCommand_body_def)
    then show ?thesis using Some False valid_handle_update [OF vh, of c1] t1 s1 f by auto
  next
    case True
    obtain c' e' where q: "SEC_OMX_CommandQueue Cmd n d c1 e = Done OMX_ErrorNone (c', e')" "msg_synced c'"
      "queue_elems (messageQ c') = queue_elems (messageQ c) @ [QMsg \<lparr>messageType = Cmd, messageParam = n, pCmdData = d\<rparr>]"
      and c': "c' = c1\<lparr>messageQ := messageQ c', msgSemaphoreHandle := msgSemaphoreHandle c'\<rparr>"
      and e': "live_blocks e' = live_blocks e + 1"
      using CommandQueue_room [OF s1 _ mem, of Cmd n d] room f by (auto simp del: fold_congs)
    have "two_ports c'" "currentState c' = currentState c"
      using t1 f by (subst c', simp add: two_ports_def)+
    moreover have "SEC_OMX_SendCommand (Some oc) Cmd n d e
        = Done OMX_ErrorNone (Some (oc\<lparr>pComponentPrivate := Some c'\<rparr>), e')"
      using ck st True q(1) by (simp add: SEC_OMX_SendCommand_def entry_valid [OF vh] SendCommand_body_def)
    ultimately show ?thesis using Some True valid_handle_update [OF vh, of c'] q e' by auto
  qed
qed


lemma sample_two_ports [simp]: "two_ports (sample_component k)"
  by (simp add: two_ports_def ALL_PORT_NUM_def)

lemma sample_msg_synced [simp]: "msg_synced (sample_component k)"
  by (simp add: msg_synced_def)

theorem SendCommand_verdict_witness:
  "SEC_OMX_SendCommand (Some (sample_handle (sample_component 2))) OMX_CommandPortDisable 0xFFFFFFFE CmdNull sample_env
     = Crash \<and>
   (\<exists>oc' c' e'. SEC_OMX_SendCommand (Some (sample_handle (sample_component 2))) OMX_CommandPortDisable 1 CmdNull sample_env
     = Done OMX_ErrorNone (Some oc', e') \<and> valid_handle oc' c' \<and> length (queue_elems (messageQ c')) = 1)"
  using SendCommand_verdict [of "sample_handle (sample_component 2)" "sample_component 2" sample_env
      OMX_CommandPortDisable "0xFFFFFFFE" CmdNull]
    SendCommand_verdict [of "sample_handle (sample_component 2)" "sample_component 2" sample_env
      OMX_CommandPortDisable 1 CmdNull]
  by (auto simp: RING_SIZE_def command_verdict_def) (intro exI conjI, assumption, simp)

text \<open>C14. A refused command is not without effect: \<open>OMX_CommandPortDisable\<close> for all ports, when the
  input port is enabled and the output port already disabled, is refused, yet it leaves
  the input port with \<open>bIsPortDisabled\<close> set. No message is queued, so nothing will clear
  the bit, and from then on the port refuses every buffer.\<close>

theorem refused_disable_blocks_port:
  assumes vh: "valid_handle oc c" and t: "two_ports c" and st: "currentState c \<noteq> OMX_StateInvalid"
    and p: "pSECPort c = [pin, pout]" "CHECK_PORT_ENABLED pin" "\<not> CHECK_PORT_ENABLED pout" "tunnelFlags pin = 0"
  shows "\<exists>c' p'. SEC_OMX_SendCommand (Some oc) OMX_CommandPortDisable 0xFFFFFFFF d e
        = Done OMX_ErrorIncorrectStateOperation (Some (oc\<lparr>pComponentPrivate := Some c'\<rparr>), e) \<and>
      messageQ c' = messageQ c \<and> pSECPort c' = [p', pout] \<and> portState p' = OMX_StateLoaded \<and> buffer_refused c' p'"
proof -
  have at: "port_at c 0 = Some pin" "port_at c 1 = Some pout" using p by (simp_all add: port_at_def array_at_def)
  let ?p = "pin\<lparr>portState := OMX_StateLoaded, bIsPortDisabled := True\<rparr>"
  have "disable_ports [0, 1] c = Done OMX_ErrorIncorrectStateOperation (set_port 0 ?p c)"
    using at p by simp
  then have "SEC_OMX_SendCommand (Some oc) OMX_CommandPortDisable 0xFFFFFFFF d e
        = Done OMX_ErrorIncorrectStateOperation (Some (oc\<lparr>pComponentPrivate := Some (set_port 0 ?p c)\<rparr>), e)"
    using st by (simp add: SEC_OMX_SendCommand_def entry_valid [OF vh] SendCommand_body_def command_check_def
      Let_def command_index_def bad_port_index_two [OF t] ALL_PORT_INDEX_def port_range_two [OF t]
      SEC_SetPortDisable_def del: disable_ports.simps)
  moreover have "pSECPort (set_port 0 ?p c) = [?p, pout]" "messageQ (set_port 0 ?p c) = messageQ c"
    using p by (simp_all add: set_port_def)
  moreover have "buffer_refused (set_port 0 ?p c) ?p" using p by (simp add: buffer_refused_def check_port_defs)
  ultimately show ?thesis by (intro exI conjI) (assumption+, simp, assumption)
qed

definition sample_half_disabled :: SEC_OMX_BASECOMPONENT where
  "sample_half_disabled = (sample_component 2)\<lparr>pSECPort := [sample_port 2 100,
     (sample_port 2 200)\<lparr>portDefinition := zero_PORTDEFINITION\<rparr>]\<rparr>"

theorem refused_disable_blocks_port_witness:
  "\<exists>c' p'. SEC_OMX_SendCommand (Some (sample_handle sample_half_disabled)) OMX_CommandPortDisable 0xFFFFFFFF CmdNull sample_env
     = Done OMX_ErrorIncorrectStateOperation (Some ((sample_handle sample_half_disabled)\<lparr>pComponentPrivate := Some c'\<rparr>), sample_env) \<and>
   port_at c' 0 = Some p' \<and> buffer_refused c' p'"
  using refused_disable_blocks_port [OF sample_handle_valid, of sample_half_disabled "sample_port 2 100"
      "(sample_port 2 200)\<lparr>portDefinition := zero_PORTDEFINITION\<rparr>" CmdNull sample_env]
  by (fastforce simp: sample_half_disabled_def two_ports_def ALL_PORT_NUM_def check_port_defs zero_PORTDEFINITION_def
      port_at_def array_at_def)

end
