(* ===== verification/SEC_Param.thy ===== *)
theory SEC_Param
  imports SEC_Command
begin

text \<open>
  The parameter and configuration entry points of the base component
  (\<open>SEC_OMX_Basecomponent.c\<close>).

  The code casts the parameter pointer to the structure that belongs to the index. Here the
  structure is a value of the type \<open>omx_param\<close>; one that does not belong to the index is
  read through a pointer of the wrong type in C and is a \<open>Crash\<close>. The result holds the
  structure as the call leaves it.
\<close>

section \<open>Indices and structures\<close>

datatype OMX_INDEXTYPE =
    OMX_IndexParamPriorityMgmt
  | OMX_IndexParamAudioInit
  | OMX_IndexParamImageInit
  | OMX_IndexParamVideoInit
  | OMX_IndexParamOtherInit
  | OMX_IndexParamPortDefinition
  | OMX_IndexParamCompBufferSupplier
  | OMX_IndexParamVideoPortFormat
  | OMX_IndexVendorThumbnailMode
  | OMX_IndexParamEnableAndroidBuffers
  | OMX_IndexParamGetAndroidNativeBuffer
  | OMX_IndexParamUseAndroidNativeBuffer
  | OMX_IndexParamStoreMetaDataBuffer
  | OMX_COMPONENT_CAPABILITY_TYPE_INDEX
  | OMX_IndexOther u32

record OMX_VIDEO_PARAM_PORTFORMATTYPE = omx_struct +
  vf_nPortIndex :: u32
  vf_nIndex :: u32
  vf_eCompressionFormat :: u32
  vf_eColorFormat :: u32
  vf_xFramerate :: u32

definition sizeof_OMX_VIDEO_PARAM_PORTFORMATTYPE :: u32 where
  "sizeof_OMX_VIDEO_PARAM_PORTFORMATTYPE = 28"

text \<open>
  The structures of the Android native buffer extension; the header that
  \<open>UseAndroidNativeBuffer\<close> returns through its \<open>bufferHeader\<close> member is a field. Their sizes
  are those of the Android headers, which this repository does not contain, so the
  functions that check them take the sizes as arguments.
\<close>

record native_buffer =
  nb_width :: u32
  nb_height :: u32
  nb_addr :: ptr

record EnableAndroidNativeBuffersParams = omx_struct +
  an_nPortIndex :: u32
  an_enable :: bool

record GetAndroidNativeBufferUsageParams = omx_struct +
  gu_nPortIndex :: u32
  gu_nUsage :: u32

record UseAndroidNativeBufferParams = omx_struct +
  un_nPortIndex :: u32
  un_pAppPrivate :: "ptr option"
  un_bufferHeader :: "ptr option"
  un_nativeBuffer :: native_buffer

record StoreMetaDataInBuffersParams = omx_struct +
  sm_nPortIndex :: u32
  sm_bStoreMetaData :: bool

datatype omx_param =
    PCapability OMXComponentCapabilityFlagsType
  | PPortParam OMX_PORT_PARAM_TYPE
  | PPortDefinition OMX_PARAM_PORTDEFINITIONTYPE
  | PPriorityMgmt OMX_PRIORITYMGMTTYPE
  | PBufferSupplier OMX_PARAM_BUFFERSUPPLIERTYPE
  | PVideoPortFormat OMX_VIDEO_PARAM_PORTFORMATTYPE
  | PBool bool
  | PEnableANB EnableAndroidNativeBuffersParams
  | PUsageANB GetAndroidNativeBufferUsageParams
  | PUseANB UseAndroidNativeBufferParams
  | PStoreMeta StoreMetaDataInBuffersParams
  | POtherParam

type_synonym param_result = "OMX_ERRORTYPE \<times> omx_param option"

section \<open>Reading a parameter\<close>

text \<open>Each part takes the structure and yields the code and the structure after the call.\<close>

definition get_PortInit :: "OMX_PORT_PARAM_TYPE \<Rightarrow> OMX_ERRORTYPE \<times> OMX_PORT_PARAM_TYPE" where
  "get_PortInit pp =
    (let ret = SEC_OMX_Check_SizeVersion (Some pp) sizeof_OMX_PORT_PARAM_TYPE in
     if ret \<noteq> OMX_ErrorNone then (ret, pp)
     else (OMX_ErrorNone, pp\<lparr>nPorts := 0, nStartPortNumber := 0\<rparr>))"

definition get_PortDefinition ::
  "OMX_PARAM_PORTDEFINITIONTYPE \<Rightarrow> SEC_OMX_BASECOMPONENT \<Rightarrow>
   (OMX_ERRORTYPE \<times> OMX_PARAM_PORTDEFINITIONTYPE) option" where
  "get_PortDefinition pd c =
    (if pd_nPortIndex pd \<ge> nPorts (portParam c) then Some (OMX_ErrorBadPortIndex, pd)
     else let ret = SEC_OMX_Check_SizeVersion (Some pd) sizeof_OMX_PARAM_PORTDEFINITIONTYPE in
          if ret \<noteq> OMX_ErrorNone then Some (ret, pd)
          else (case port_at c (uint (pd_nPortIndex pd)) of
                  None \<Rightarrow> None
                | Some p \<Rightarrow> Some (OMX_ErrorNone, portDefinition p)))"

definition get_PriorityMgmt ::
  "OMX_PRIORITYMGMTTYPE \<Rightarrow> SEC_OMX_BASECOMPONENT \<Rightarrow> OMX_ERRORTYPE \<times> OMX_PRIORITYMGMTTYPE" where
  "get_PriorityMgmt pm c =
    (let ret = SEC_OMX_Check_SizeVersion (Some pm) sizeof_OMX_PRIORITYMGMTTYPE in
     if ret \<noteq> OMX_ErrorNone then (ret, pm)
     else (OMX_ErrorNone, pm\<lparr>nGroupID := cp_nGroupID (compPriority c),
                              nGroupPriority := cp_nGroupPriority (compPriority c)\<rparr>))"

definition port_supplier :: "SEC_OMX_BASEPORT \<Rightarrow> OMX_BUFFERSUPPLIERTYPE" where
  "port_supplier p =
    (if eDir (portDefinition p) = OMX_DirInput then
       if CHECK_PORT_BUFFER_SUPPLIER p then OMX_BufferSupplyInput
       else if CHECK_PORT_TUNNELED p then OMX_BufferSupplyOutput
       else OMX_BufferSupplyUnspecified
     else
       if CHECK_PORT_BUFFER_SUPPLIER p then OMX_BufferSupplyOutput
       else if CHECK_PORT_TUNNELED p then OMX_BufferSupplyInput
       else OMX_BufferSupplyUnspecified)"

definition get_BufferSupplier ::
  "OMX_PARAM_BUFFERSUPPLIERTYPE \<Rightarrow> SEC_OMX_BASECOMPONENT \<Rightarrow>
   (OMX_ERRORTYPE \<times> OMX_PARAM_BUFFERSUPPLIERTYPE) option" where
  "get_BufferSupplier bs c =
    (if currentState c = OMX_StateLoaded \<or> currentState c = OMX_StateWaitForResources then
       if bs_nPortIndex bs \<ge> nPorts (portParam c) then Some (OMX_ErrorBadPortIndex, bs)
       else let ret = SEC_OMX_Check_SizeVersion (Some bs) sizeof_OMX_PARAM_BUFFERSUPPLIERTYPE in
            if ret \<noteq> OMX_ErrorNone then Some (ret, bs)
            else (case port_at c (uint (bs_nPortIndex bs)) of
                    None \<Rightarrow> None
                  | Some p \<Rightarrow> Some (OMX_ErrorNone, bs\<lparr>eBufferSupplier := port_supplier p\<rparr>))
     else Some (OMX_ErrorIncorrectStateOperation, bs))"

definition is_init_index :: "OMX_INDEXTYPE \<Rightarrow> bool" where
  "is_init_index nIndex \<longleftrightarrow>
     nIndex \<in> {OMX_IndexParamAudioInit, OMX_IndexParamVideoInit, OMX_IndexParamImageInit, OMX_IndexParamOtherInit}"

definition GetParameter_body ::
  "OMX_INDEXTYPE \<Rightarrow> omx_param option \<Rightarrow> SEC_OMX_BASECOMPONENT \<Rightarrow> omx_env \<Rightarrow>
   (param_result, comp_state) outcome" where
  "GetParameter_body nParamIndex param c e =
    (case param of
       None \<Rightarrow> Done (OMX_ErrorBadParameter, param) (c, e)
     | Some s \<Rightarrow>
         if currentState c = OMX_StateInvalid then Done (OMX_ErrorInvalidState, param) (c, e)
         else if nParamIndex = OMX_COMPONENT_CAPABILITY_TYPE_INDEX then
           (case s of PCapability _ \<Rightarrow> Done (OMX_ErrorNone, Some (PCapability (capabilityFlags c))) (c, e)
                    | _ \<Rightarrow> Crash)
         else if is_init_index nParamIndex then
           (case s of PPortParam pp \<Rightarrow> (case get_PortInit pp of (ret, pp') \<Rightarrow>
                        Done (ret, Some (PPortParam pp')) (c, e))
                    | _ \<Rightarrow> Crash)
         else if nParamIndex = OMX_IndexParamPortDefinition then
           (case s of PPortDefinition pd \<Rightarrow>
                        (case get_PortDefinition pd c of
                           None \<Rightarrow> Crash
                         | Some (ret, pd') \<Rightarrow> Done (ret, Some (PPortDefinition pd')) (c, e))
                    | _ \<Rightarrow> Crash)
         else if nParamIndex = OMX_IndexParamPriorityMgmt then
           (case s of PPriorityMgmt pm \<Rightarrow> (case get_PriorityMgmt pm c of (ret, pm') \<Rightarrow>
                        Done (ret, Some (PPriorityMgmt pm')) (c, e))
                    | _ \<Rightarrow> Crash)
         else if nParamIndex = OMX_IndexParamCompBufferSupplier then
           (case s of PBufferSupplier bs \<Rightarrow>
                        (case get_BufferSupplier bs c of
                           None \<Rightarrow> Crash
                         | Some (ret, bs') \<Rightarrow> Done (ret, Some (PBufferSupplier bs')) (c, e))
                    | _ \<Rightarrow> Crash)
         else Done (OMX_ErrorUnsupportedIndex, param) (c, e))"

definition SEC_OMX_GetParameter ::
  "OMX_COMPONENTTYPE option \<Rightarrow> OMX_INDEXTYPE \<Rightarrow> omx_param option \<Rightarrow> omx_env \<Rightarrow>
   (param_result, OMX_COMPONENTTYPE option \<times> omx_env) outcome" where
  "SEC_OMX_GetParameter hComponent nParamIndex param =
    entry_with (\<lambda>ret. (ret, param)) hComponent (GetParameter_body nParamIndex param)"

section \<open>Setting a parameter\<close>

text \<open>Only the Loaded and the WaitForResources state allow every change.\<close>

definition state_configurable :: "SEC_OMX_BASECOMPONENT \<Rightarrow> bool" where
  "state_configurable c \<longleftrightarrow>
     currentState c = OMX_StateLoaded \<or> currentState c = OMX_StateWaitForResources"

text \<open>
  The error \<open>OMX_ErrorUndefined\<close> of this case is overwritten by the assignment after the
  \<open>switch\<close>: the call succeeds without changing anything.
\<close>

definition set_PortInit :: "OMX_PORT_PARAM_TYPE \<Rightarrow> SEC_OMX_BASECOMPONENT \<Rightarrow> OMX_ERRORTYPE" where
  "set_PortInit pp c =
    (let ret = SEC_OMX_Check_SizeVersion (Some pp) sizeof_OMX_PORT_PARAM_TYPE in
     if ret \<noteq> OMX_ErrorNone then ret
     else if \<not> state_configurable c then OMX_ErrorIncorrectStateOperation
     else OMX_ErrorNone)"

definition set_PortDefinition ::
  "OMX_PARAM_PORTDEFINITIONTYPE \<Rightarrow> SEC_OMX_BASECOMPONENT \<Rightarrow>
   (OMX_ERRORTYPE, SEC_OMX_BASECOMPONENT) outcome" where
  "set_PortDefinition pd c =
    (if pd_nPortIndex pd \<ge> nPorts (portParam c) then Done OMX_ErrorBadPortIndex c
     else let ret = SEC_OMX_Check_SizeVersion (Some pd) sizeof_OMX_PARAM_PORTDEFINITIONTYPE in
          if ret \<noteq> OMX_ErrorNone then Done ret c
          else (case port_at c (uint (pd_nPortIndex pd)) of
                  None \<Rightarrow> Crash
                | Some p \<Rightarrow>
                    if \<not> state_configurable c \<and> bEnabled (portDefinition p)
                    then Done OMX_ErrorIncorrectStateOperation c
                    else if nBufferCountActual pd < nBufferCountMin (portDefinition p)
                    then Done OMX_ErrorBadParameter c
                    else Done OMX_ErrorNone (set_port (uint (pd_nPortIndex pd)) (p\<lparr>portDefinition := pd\<rparr>) c)))"

definition set_PriorityMgmt ::
  "OMX_PRIORITYMGMTTYPE \<Rightarrow> SEC_OMX_BASECOMPONENT \<Rightarrow> OMX_ERRORTYPE \<times> SEC_OMX_BASECOMPONENT" where
  "set_PriorityMgmt pm c =
    (if \<not> state_configurable c then (OMX_ErrorIncorrectStateOperation, c)
     else let ret = SEC_OMX_Check_SizeVersion (Some pm) sizeof_OMX_PRIORITYMGMTTYPE in
          if ret \<noteq> OMX_ErrorNone then (ret, c)
          else (OMX_ErrorNone, c\<lparr>compPriority := \<lparr>cp_nGroupPriority = nGroupPriority pm,
                                                cp_nGroupID = nGroupID pm\<rparr>\<rparr>))"

text \<open>
  The supplier of a tunnel is negotiated with the other end, whose \<open>SetParameter\<close> is the
  argument \<open>peer\<close>.
\<close>

type_synonym peer_op =
  "ptr \<Rightarrow> OMX_PARAM_BUFFERSUPPLIERTYPE \<Rightarrow> omx_env \<Rightarrow> OMX_ERRORTYPE \<times> omx_env"

definition tell_peer ::
  "peer_op \<Rightarrow> OMX_PARAM_BUFFERSUPPLIERTYPE \<Rightarrow> SEC_OMX_BASEPORT \<Rightarrow> SEC_OMX_BASECOMPONENT \<Rightarrow> omx_env \<Rightarrow>
   (OMX_ERRORTYPE \<times> OMX_PARAM_BUFFERSUPPLIERTYPE, comp_state) outcome" where
  "tell_peer peer bs p c e =
    (case tunneledComponent p of
       None \<Rightarrow> Crash
     | Some t \<Rightarrow> let bs' = bs\<lparr>bs_nPortIndex := tunneledPort p\<rparr> in
                 (case peer t bs' e of (ret, e') \<Rightarrow> Done (ret, bs') (c, e')))"

definition set_BufferSupplier ::
  "peer_op \<Rightarrow> OMX_PARAM_BUFFERSUPPLIERTYPE \<Rightarrow> SEC_OMX_BASECOMPONENT \<Rightarrow> omx_env \<Rightarrow>
   (OMX_ERRORTYPE \<times> OMX_PARAM_BUFFERSUPPLIERTYPE, comp_state) outcome" where
  "set_BufferSupplier peer bs c e =
    (if bs_nPortIndex bs \<ge> nPorts (portParam c) then Done (OMX_ErrorBadPortIndex, bs) (c, e)
     else let ret = SEC_OMX_Check_SizeVersion (Some bs) sizeof_OMX_PARAM_BUFFERSUPPLIERTYPE;
              i = uint (bs_nPortIndex bs) in
     if ret \<noteq> OMX_ErrorNone then Done (ret, bs) (c, e)
     else (case port_at c i of
       None \<Rightarrow> Crash
     | Some p \<Rightarrow>
         let supplier = p\<lparr>tunnelFlags := or (tunnelFlags p) SEC_TUNNEL_IS_SUPPLIER\<rparr>;
             consumer = p\<lparr>tunnelFlags := and (tunnelFlags p) (not SEC_TUNNEL_IS_SUPPLIER)\<rparr> in
         if \<not> state_configurable c \<and> bEnabled (portDefinition p)
         then Done (OMX_ErrorIncorrectStateOperation, bs) (c, e)
         else if eBufferSupplier bs = OMX_BufferSupplyUnspecified \<or> \<not> CHECK_PORT_TUNNELED p
         then Done (OMX_ErrorNone, bs) (c, e)
         else if eDir (portDefinition p) = OMX_DirInput then
           if eBufferSupplier bs = OMX_BufferSupplyInput
           then tell_peer peer bs supplier (set_port i supplier c) e
           else if CHECK_PORT_BUFFER_SUPPLIER p
           then tell_peer peer bs consumer (set_port i consumer c) e
           else Done (OMX_ErrorNone, bs) (c, e)
         else
           if eBufferSupplier bs = OMX_BufferSupplyInput
           then Done (OMX_ErrorNone, bs)
                  (if CHECK_PORT_BUFFER_SUPPLIER p then set_port i consumer c else c, e)
           else Done (OMX_ErrorNone, bs) (set_port i supplier c, e)))"

definition SetParameter_body ::
  "peer_op \<Rightarrow> OMX_INDEXTYPE \<Rightarrow> omx_param option \<Rightarrow> SEC_OMX_BASECOMPONENT \<Rightarrow> omx_env \<Rightarrow>
   (param_result, comp_state) outcome" where
  "SetParameter_body peer nIndex param c e =
    (case param of
       None \<Rightarrow> Done (OMX_ErrorBadParameter, param) (c, e)
     | Some s \<Rightarrow>
         if currentState c = OMX_StateInvalid then Done (OMX_ErrorInvalidState, param) (c, e)
         else if is_init_index nIndex then
           (case s of PPortParam pp \<Rightarrow> Done (set_PortInit pp c, param) (c, e) | _ \<Rightarrow> Crash)
         else if nIndex = OMX_IndexParamPortDefinition then
           (case s of PPortDefinition pd \<Rightarrow>
                        bindO (set_PortDefinition pd c) (\<lambda>ret c'. Done (ret, param) (c', e))
                    | _ \<Rightarrow> Crash)
         else if nIndex = OMX_IndexParamPriorityMgmt then
           (case s of PPriorityMgmt pm \<Rightarrow>
                        (case set_PriorityMgmt pm c of (ret, c') \<Rightarrow> Done (ret, param) (c', e))
                    | _ \<Rightarrow> Crash)
         else if nIndex = OMX_IndexParamCompBufferSupplier then
           (case s of PBufferSupplier bs \<Rightarrow>
                        bindO (set_BufferSupplier peer bs c e) (\<lambda>(ret, bs') t.
                          Done (ret, Some (PBufferSupplier bs')) t)
                    | _ \<Rightarrow> Crash)
         else Done (OMX_ErrorUnsupportedIndex, param) (c, e))"

definition SEC_OMX_SetParameter ::
  "peer_op \<Rightarrow> OMX_COMPONENTTYPE option \<Rightarrow> OMX_INDEXTYPE \<Rightarrow> omx_param option \<Rightarrow> omx_env \<Rightarrow>
   (param_result, OMX_COMPONENTTYPE option \<times> omx_env) outcome" where
  "SEC_OMX_SetParameter peer hComponent nIndex param =
    entry_with (\<lambda>ret. (ret, param)) hComponent (SetParameter_body peer nIndex param)"

section \<open>Configuration and extension indices\<close>






section \<open>Properties of the parameters\<close>

lemma valid_handle_same: "valid_handle oc c \<Longrightarrow> oc\<lparr>pComponentPrivate := Some c\<rparr> = oc"
  by (cases oc) (simp add: valid_handle_def)



text \<open>The decision of \<open>SetParameter\<close> on a port definition.\<close>

definition definition_acceptable :: "OMX_PARAM_PORTDEFINITIONTYPE \<Rightarrow> SEC_OMX_BASECOMPONENT \<Rightarrow> SEC_OMX_BASEPORT \<Rightarrow> bool" where
  "definition_acceptable pd c p \<longleftrightarrow>
     SEC_OMX_Check_SizeVersion (Some pd) sizeof_OMX_PARAM_PORTDEFINITIONTYPE = OMX_ErrorNone \<and>
     (state_configurable c \<or> \<not> bEnabled (portDefinition p)) \<and>
     nBufferCountMin (portDefinition p) \<le> nBufferCountActual pd"

lemma set_PortDefinition_accepts:
  assumes "pd_nPortIndex pd < nPorts (portParam c)" "port_at c (uint (pd_nPortIndex pd)) = Some p"
  shows "set_PortDefinition pd c = Done OMX_ErrorNone c' \<longleftrightarrow>
    definition_acceptable pd c p \<and> c' = set_port (uint (pd_nPortIndex pd)) (p\<lparr>portDefinition := pd\<rparr>) c"
  using assms by (auto simp: set_PortDefinition_def definition_acceptable_def Let_def)

lemma set_PortDefinition_refuses:
  assumes "pd_nPortIndex pd < nPorts (portParam c)" "port_at c (uint (pd_nPortIndex pd)) = Some p"
    and "\<not> definition_acceptable pd c p"
  shows "\<exists>r. set_PortDefinition pd c = Done r c \<and> r \<noteq> OMX_ErrorNone"
  using assms by (fastforce simp: set_PortDefinition_def definition_acceptable_def Let_def)

text \<open>C16. Setting a port definition and reading it back. \<open>SetParameter\<close> accepts the definition of an
  existing port exactly when the structure has the right size and version, the component
  is loaded or the port disabled, and at least the minimal number of buffers is asked
  for; a refusal leaves the component as it was. A definition that was accepted is what \<open>GetParameter\<close> returns afterwards, every
  member included, and the other port keeps its own.\<close>

theorem port_definition_roundtrip:
  assumes vh: "valid_handle oc c" and st: "currentState c \<noteq> OMX_StateInvalid" and two: "two_ports c"
    and i: "pd_nPortIndex pd = 0 \<or> pd_nPortIndex pd = 1"
    and p: "port_at c (uint (pd_nPortIndex pd)) = Some p" and o: "port_at c (uint (1 - pd_nPortIndex pd)) = Some po"
  shows "\<exists>r oc1. SEC_OMX_SetParameter peer (Some oc) OMX_IndexParamPortDefinition (Some (PPortDefinition pd)) e
        = Done (r, Some (PPortDefinition pd)) (Some oc1, e) \<and>
      (r = OMX_ErrorNone \<longleftrightarrow> definition_acceptable pd c p) \<and> (r \<noteq> OMX_ErrorNone \<longrightarrow> oc1 = oc) \<and>
      (r = OMX_ErrorNone \<longrightarrow>
        (\<forall>q. SEC_OMX_Check_SizeVersion (Some q) sizeof_OMX_PARAM_PORTDEFINITIONTYPE = OMX_ErrorNone \<longrightarrow>
          (pd_nPortIndex q = pd_nPortIndex pd \<longrightarrow>
             SEC_OMX_GetParameter (Some oc1) OMX_IndexParamPortDefinition (Some (PPortDefinition q)) e
             = Done (OMX_ErrorNone, Some (PPortDefinition pd)) (Some oc1, e)) \<and>
          (pd_nPortIndex q = 1 - pd_nPortIndex pd \<longrightarrow>
             SEC_OMX_GetParameter (Some oc1) OMX_IndexParamPortDefinition (Some (PPortDefinition q)) e
             = Done (OMX_ErrorNone, Some (PPortDefinition (portDefinition po))) (Some oc1, e))))"
proof -
  let ?i = "uint (pd_nPortIndex pd)" and ?c1 = "set_port (uint (pd_nPortIndex pd)) (p\<lparr>portDefinition := pd\<rparr>) c"
  have n: "pd_nPortIndex pd < nPorts (portParam c)" "1 - pd_nPortIndex pd < nPorts (portParam c)"
    using two i by (auto simp: two_ports_def)
  have set: "SEC_OMX_SetParameter peer (Some oc) OMX_IndexParamPortDefinition (Some (PPortDefinition pd)) e
      = map_state (\<lambda>(c', e'). (Some (oc\<lparr>pComponentPrivate := Some c'\<rparr>), e'))
          (bindO (set_PortDefinition pd c) (\<lambda>ret c'. Done (ret, Some (PPortDefinition pd)) (c', e)))"
    using st by (simp add: SEC_OMX_SetParameter_def entry_with_valid [OF vh] SetParameter_body_def is_init_index_def)
  show ?thesis
  proof (cases "definition_acceptable pd c p")
    case False
    then obtain r where "set_PortDefinition pd c = Done r c" "r \<noteq> OMX_ErrorNone"
      using set_PortDefinition_refuses [OF n(1) p] by blast
    then show ?thesis using False by (simp add: set valid_handle_same [OF vh])
  next
    case True
    then have s: "set_PortDefinition pd c = Done OMX_ErrorNone ?c1"
      using set_PortDefinition_accepts [OF n(1) p] by simp
    let ?oc1 = "oc\<lparr>pComponentPrivate := Some ?c1\<rparr>"
    have v1: "valid_handle ?oc1 ?c1" by (rule valid_handle_update [OF vh])
    have at1: "port_at ?c1 ?i = Some (p\<lparr>portDefinition := pd\<rparr>)" using p by simp
    have "?i \<noteq> uint (1 - pd_nPortIndex pd)" using i by auto
    then have at2: "port_at ?c1 (uint (1 - pd_nPortIndex pd)) = Some po" using port_at_set_port [OF p] o by simp
    have st1: "currentState ?c1 \<noteq> OMX_StateInvalid" "portParam ?c1 = portParam c" using st by (simp_all add: set_port_def)
    have get: "SEC_OMX_GetParameter (Some ?oc1) OMX_IndexParamPortDefinition (Some (PPortDefinition q)) e
        = Done (OMX_ErrorNone, Some (PPortDefinition (portDefinition q'))) (Some ?oc1, e)"
      if "SEC_OMX_Check_SizeVersion (Some q) sizeof_OMX_PARAM_PORTDEFINITIONTYPE = OMX_ErrorNone"
        "pd_nPortIndex q < nPorts (portParam c)" "port_at ?c1 (uint (pd_nPortIndex q)) = Some q'" for q q'
      using that st1
      by (simp add: SEC_OMX_GetParameter_def entry_with_valid [OF v1] GetParameter_body_def is_init_index_def
          get_PortDefinition_def)
    show ?thesis
      using True at1 at2 n get
      by (intro exI [of _ OMX_ErrorNone] exI [of _ ?oc1]) (auto simp: set s)
  qed
qed

definition sample_loaded :: SEC_OMX_BASECOMPONENT where
  "sample_loaded = (sample_component 4)\<lparr>currentState := OMX_StateLoaded\<rparr>"

definition sample_definition :: "u32 \<Rightarrow> OMX_PARAM_PORTDEFINITIONTYPE" where
  "sample_definition k = zero_PORTDEFINITION
     \<lparr>nSize := sizeof_OMX_PARAM_PORTDEFINITIONTYPE, nVersion := SEC_VERSION, nBufferCountActual := k\<rparr>"

lemma sample_loaded_simps [simp]:
  "currentState sample_loaded = OMX_StateLoaded" "two_ports sample_loaded" "nPorts (portParam sample_loaded) = 2"
  "port_at sample_loaded 0 = Some (sample_port 4 100)" "port_at sample_loaded 1 = Some (sample_port 4 200)"
  by (simp_all add: sample_loaded_def port_at_def array_at_def two_ports_def ALL_PORT_NUM_def)

lemma sample_definition_simps [simp]:
  "pd_nPortIndex (sample_definition k) = 0" "nBufferCountActual (sample_definition k) = k"
  "SEC_OMX_Check_SizeVersion (Some (sample_definition k)) sizeof_OMX_PARAM_PORTDEFINITIONTYPE = OMX_ErrorNone"
  by (simp_all add: sample_definition_def zero_PORTDEFINITION_def SEC_OMX_Check_SizeVersion_def SEC_VERSION_def)

lemma sample_definition_acceptable [simp]:
  "definition_acceptable (sample_definition k) sample_loaded (sample_port 4 100)"
  by (simp add: definition_acceptable_def state_configurable_def sample_port_def zero_PORTDEFINITION_def)

theorem port_definition_roundtrip_witness:
  "\<exists>oc1. SEC_OMX_SetParameter (\<lambda>_ _ e. (OMX_ErrorNone, e)) (Some (sample_handle sample_loaded)) OMX_IndexParamPortDefinition
       (Some (PPortDefinition (sample_definition 8))) sample_env
     = Done (OMX_ErrorNone, Some (PPortDefinition (sample_definition 8))) (Some oc1, sample_env) \<and>
   SEC_OMX_GetParameter (Some oc1) OMX_IndexParamPortDefinition (Some (PPortDefinition (sample_definition 0))) sample_env
     = Done (OMX_ErrorNone, Some (PPortDefinition (sample_definition 8))) (Some oc1, sample_env)"
  using port_definition_roundtrip [OF sample_handle_valid, of sample_loaded "sample_definition 8" "sample_port 4 100"
      "sample_port 4 200" "\<lambda>_ _ e. (OMX_ErrorNone, e)" sample_env]
  sample_definition_simps(3) [of 0]
  by (simp del: sample_entry) (elim exE conjE, intro exI conjI, assumption, simp)

section \<open>A port with more buffers than its arrays have slots\<close>

text \<open>A client that asks for \<open>k\<close> buffers of port \<open>n\<close>, one after the other.\<close>

primrec allocate_many ::
  "nat \<Rightarrow> u32 \<Rightarrow> ptr option \<Rightarrow> u32 \<Rightarrow> OMX_COMPONENTTYPE option \<times> omx_env \<Rightarrow>
   (OMX_ERRORTYPE list, OMX_COMPONENTTYPE option \<times> omx_env) outcome" where
  "allocate_many 0 n ap sz s = Done [] s"
| "allocate_many (Suc k) n ap sz s =
    bindO (SEC_OMX_AllocateBuffer (fst s) n ap sz (snd s)) (\<lambda>r s1.
    bindO (allocate_many k n ap sz s1) (\<lambda>rs s2. Done (fst r # rs) s2))"

definition filled_below :: "nat \<Rightarrow> SEC_OMX_BASEPORT \<Rightarrow> bool" where
  "filled_below j p \<longleftrightarrow> length (bufferStateAllocate p) = MAX_BUFFER_NUM \<and>
     (\<forall>i<MAX_BUFFER_NUM. bufferStateAllocate p ! i = BUFFER_STATE_FREE \<longleftrightarrow> j \<le> i) \<and>
     MAX_BUFFER_NUM < unat (nBufferCountActual (portDefinition p)) \<and> \<not> CHECK_PORT_TUNNELED p"

lemma filled_below_slot:
  assumes "filled_below j p" "j < MAX_BUFFER_NUM"
  shows "find_free_slot p = Some (Some j)"
  unfolding find_free_slot_def
  using assms scan_found [where i = 0 and k = j]
  by (auto simp: filled_below_def)

lemma filled_below_assign:
  assumes "filled_below j p" "j < MAX_BUFFER_NUM" "st \<noteq> BUFFER_STATE_FREE"
  shows "filled_below (Suc j) (assign_slot st j h p)"
  using assms
  by (auto simp: filled_below_def assign_slot_fields nth_list_update)
     (simp_all add: assign_slot_def Let_def CHECK_PORT_TUNNELED_def split: if_splits)

lemma allocate_one:
  assumes vh: "valid_handle oc c" and n: "n < nPorts (portParam c)" and p: "port_at c (uint n) = Some p"
    and f: "filled_below j p" and mem: "sys_answers e = []" and j: "j < MAX_BUFFER_NUM"
  obtains h oc' c' p' e' where "SEC_OMX_AllocateBuffer (Some oc) n ap sz e = Done (OMX_ErrorNone, h) (Some oc', e')"
    "valid_handle oc' c'" "n < nPorts (portParam c')" "port_at c' (uint n) = Some p'" "filled_below (Suc j) p'"
    "sys_answers e' = []"
proof -
  let ?st = "or BUFFER_STATE_ALLOCATED HEADER_STATE_ALLOCATED"
  have nt: "\<not> CHECK_PORT_TUNNELED p" using f by (simp add: filled_below_def)
  have nz: "?st \<noteq> BUFFER_STATE_FREE" by (simp add: buffer_state_defs)
  have a: "SEC_OMX_AllocateBuffer (Some oc) n ap sz e = Done (OMX_ErrorNone, Some (next_addr e + 1))
      (Some (oc\<lparr>pComponentPrivate := Some (set_port (uint n) (assign_slot ?st j (next_addr e + 1) p) c)\<rparr>),
       upd_hdr (next_addr e + 1) (fresh_header n ap sz (Some (next_addr e)))
            (e\<lparr>mem_cnt := mem_cnt e + 2, live_blocks := live_blocks e + 2, next_addr := next_addr e + 2\<rparr>))"
    unfolding SEC_OMX_AllocateBuffer_def entry_with_valid [OF vh] AllocateBuffer_body_memory [OF n p nt mem]
      filled_below_slot [OF f j] by simp
  show thesis
    by (rule that [OF a valid_handle_update [OF vh] _ port_at_set_port [OF p, THEN trans]
          filled_below_assign [OF f j nz]])
       (use n mem in \<open>simp_all add: upd_hdr_def set_port_def\<close>)
qed

lemma allocate_many_overruns:
  assumes "valid_handle oc c" "n < nPorts (portParam c)" "port_at c (uint n) = Some p"
    "filled_below j p" "sys_answers e = []" "j + k \<le> MAX_BUFFER_NUM"
  shows "\<exists>s. allocate_many k n ap sz (Some oc, e) = Done (replicate k OMX_ErrorNone) s \<and>
    (j + k = MAX_BUFFER_NUM \<longrightarrow> allocate_many (Suc k) n ap sz (Some oc, e) = Crash)"
  using assms
proof (induction k arbitrary: oc c p j e)
  case 0
  then show ?case
    using AllocateBuffer_overrun [of oc c n p e ap sz] by (auto simp: filled_below_def)
next
  case (Suc k)
  then have "j < MAX_BUFFER_NUM" by simp
  from allocate_one [OF Suc.prems(1-5) this, of ap sz]
  obtain h oc' c' p' e' where a: "SEC_OMX_AllocateBuffer (Some oc) n ap sz e = Done (OMX_ErrorNone, h) (Some oc', e')"
    "valid_handle oc' c'" "n < nPorts (portParam c')" "port_at c' (uint n) = Some p'" "filled_below (Suc j) p'"
    "sys_answers e' = []" by metis
  from Suc.IH [OF a(2-6)] Suc.prems(6)
  obtain s where "allocate_many k n ap sz (Some oc', e') = Done (replicate k OMX_ErrorNone) s"
    "Suc j + k = MAX_BUFFER_NUM \<longrightarrow> allocate_many (Suc k) n ap sz (Some oc', e') = Crash" by auto
  then show ?case using a(1) by (simp add: allocate_many.simps)
qed

text \<open>C17. The buffer count of a port is not bounded by the size of its slot arrays. A client
  may set a definition with more than \<open>MAX_BUFFER_NUM\<close> buffers: \<open>SetParameter\<close> accepts it, the first
  twenty calls of \<open>AllocateBuffer\<close> succeed, and the next one reads past the end of the array.\<close>

theorem oversized_port_overruns:
  assumes vh: "valid_handle oc c" and st: "currentState c \<noteq> OMX_StateInvalid" and n: "pd_nPortIndex pd < nPorts (portParam c)"
    and p: "port_at c (uint (pd_nPortIndex pd)) = Some p" and ok: "definition_acceptable pd c p"
    and big: "MAX_BUFFER_NUM < unat (nBufferCountActual pd)" and mem: "sys_answers e = []"
    and empty: "bufferStateAllocate p = replicate MAX_BUFFER_NUM BUFFER_STATE_FREE" "\<not> CHECK_PORT_TUNNELED p"
  shows "\<exists>s s'. SEC_OMX_SetParameter peer (Some oc) OMX_IndexParamPortDefinition (Some (PPortDefinition pd)) e
       = Done (OMX_ErrorNone, Some (PPortDefinition pd)) s \<and>
     allocate_many MAX_BUFFER_NUM (pd_nPortIndex pd) ap sz s = Done (replicate MAX_BUFFER_NUM OMX_ErrorNone) s' \<and>
     allocate_many (Suc MAX_BUFFER_NUM) (pd_nPortIndex pd) ap sz s = Crash"
proof -
  let ?p1 = "p\<lparr>portDefinition := pd\<rparr>" and ?c1 = "set_port (uint (pd_nPortIndex pd)) (p\<lparr>portDefinition := pd\<rparr>) c"
  let ?oc1 = "oc\<lparr>pComponentPrivate := Some ?c1\<rparr>"
  have s: "set_PortDefinition pd c = Done OMX_ErrorNone ?c1"
    using set_PortDefinition_accepts [OF n p] ok by simp
  have set: "SEC_OMX_SetParameter peer (Some oc) OMX_IndexParamPortDefinition (Some (PPortDefinition pd)) e
      = Done (OMX_ErrorNone, Some (PPortDefinition pd)) (Some ?oc1, e)"
    using st by (simp add: SEC_OMX_SetParameter_def entry_with_valid [OF vh] SetParameter_body_def is_init_index_def s)
  have f: "filled_below 0 ?p1"
    using empty big by (simp add: filled_below_def CHECK_PORT_TUNNELED_def)
  have "\<exists>s'. allocate_many MAX_BUFFER_NUM (pd_nPortIndex pd) ap sz (Some ?oc1, e) = Done (replicate MAX_BUFFER_NUM OMX_ErrorNone) s' \<and>
      (0 + MAX_BUFFER_NUM = MAX_BUFFER_NUM \<longrightarrow> allocate_many (Suc MAX_BUFFER_NUM) (pd_nPortIndex pd) ap sz (Some ?oc1, e) = Crash)"
    by (rule allocate_many_overruns [OF valid_handle_update [OF vh] _ _ f mem])
       (use n p in \<open>simp_all\<close>, simp add: set_port_def)
  then show ?thesis using set by auto
qed

theorem oversized_port_overruns_witness:
  "\<exists>s. SEC_OMX_SetParameter (\<lambda>_ _ e. (OMX_ErrorNone, e)) (Some (sample_handle sample_loaded)) OMX_IndexParamPortDefinition
       (Some (PPortDefinition (sample_definition 21))) sample_env
     = Done (OMX_ErrorNone, Some (PPortDefinition (sample_definition 21))) s \<and>
   allocate_many (Suc MAX_BUFFER_NUM) 0 None 1024 s = Crash"
  using oversized_port_overruns [OF sample_handle_valid, of sample_loaded "sample_definition 21" "sample_port 4 100" sample_env
      "\<lambda>_ _ e. (OMX_ErrorNone, e)" None 1024]
  by (auto simp: MAX_BUFFER_NUM_def simp del: sample_entry allocate_many.simps)

end
