(* ===== verification/SEC_Resource.thy ===== *)
theory SEC_Resource
  imports SEC_Param
begin

text \<open>
  The resource manager, \<open>SEC_OMX_Resourcemanager.c\<close>. It keeps, for decoders and for encoders,
  the list of the components that use the hardware and the list of those that wait for it.
  It is the one place where a component acts on another, so its state holds all
  components by address: \<open>comps\<close> maps the address of a handle to the handle, and \<open>env\<close> is the
  memory and the callback trace that they share.
\<close>

section \<open>State\<close>

definition MAX_RESOURCE_VIDEO_DEC :: nat where "MAX_RESOURCE_VIDEO_DEC = 3"
definition MAX_RESOURCE_VIDEO_ENC :: nat where "MAX_RESOURCE_VIDEO_ENC = 1"

text \<open>A chain of list cells is a list; the cells are blocks of the allocator.\<close>

record SEC_OMX_RM_COMPONENT_LIST =
  pOMXStandComp :: ptr
  groupPriority :: u32

record rm_world =
  gpVideoDecRMComponentList :: "SEC_OMX_RM_COMPONENT_LIST list"
  gpVideoDecRMWaitingList :: "SEC_OMX_RM_COMPONENT_LIST list"
  gpVideoEncRMComponentList :: "SEC_OMX_RM_COMPONENT_LIST list"
  gpVideoEncRMWaitingList :: "SEC_OMX_RM_COMPONENT_LIST list"
  ghVideoRMComponentListMutex :: "ptr option"
  comps :: "ptr \<Rightarrow> OMX_COMPONENTTYPE option"
  env :: omx_env

text \<open>The private part of the component at an address: \<open>None\<close> if one of the two pointers is bad.\<close>

definition private_of :: "rm_world \<Rightarrow> ptr \<Rightarrow> SEC_OMX_BASECOMPONENT option" where
  "private_of w self = Option.bind (comps w self) pComponentPrivate"

definition with_private ::
  "ptr \<Rightarrow> (SEC_OMX_BASECOMPONENT \<Rightarrow> omx_env \<Rightarrow> ('r, comp_state) outcome) \<Rightarrow> rm_world \<Rightarrow> ('r, rm_world) outcome" where
  "with_private self body w =
    (case comps w self of
       None \<Rightarrow> Crash
     | Some oc \<Rightarrow>
         (case pComponentPrivate oc of
            None \<Rightarrow> Crash
          | Some c \<Rightarrow> map_state (\<lambda>(c', e'). w\<lparr>comps := (comps w)(self \<mapsto> oc\<lparr>pComponentPrivate := Some c'\<rparr>), env := e'\<rparr>)
                        (body c (env w))))"

text \<open>\<open>OMX_SendCommand\<close> calls the component through its table of entry points.\<close>

definition OMX_SendCommand ::
  "ptr \<Rightarrow> OMX_COMMANDTYPE \<Rightarrow> u32 \<Rightarrow> cmd_data \<Rightarrow> rm_world \<Rightarrow> (OMX_ERRORTYPE, rm_world) outcome" where
  "OMX_SendCommand self Cmd nParam cmdData w =
    (case comps w self of
       None \<Rightarrow> Crash
     | Some oc \<Rightarrow>
         if M_SendCommand \<notin> set (api oc) then Crash
         else map_state (\<lambda>(h, e'). w\<lparr>comps := (comps w)(self := h), env := e'\<rparr>)
                (SEC_OMX_SendCommand (Some oc) Cmd nParam cmdData (env w)))"

section \<open>The lists\<close>

definition addElementList ::
  "SEC_OMX_RM_COMPONENT_LIST list \<Rightarrow> ptr \<Rightarrow> SEC_OMX_BASECOMPONENT \<Rightarrow> omx_env \<Rightarrow>
   OMX_ERRORTYPE \<times> SEC_OMX_RM_COMPONENT_LIST list \<times> omx_env" where
  "addElementList ppList pOMXComponent c e =
    (case SEC_OSAL_Malloc e of
       (None, e1) \<Rightarrow> (OMX_ErrorInsufficientResources, ppList, e1)
     | (Some _, e1) \<Rightarrow>
         (OMX_ErrorNone,
          ppList @ [\<lparr>pOMXStandComp = pOMXComponent, groupPriority = cp_nGroupPriority (compPriority c)\<rparr>], e1))"

text \<open>Unlinking the first cell of a component: \<open>None\<close> if there is none.\<close>

primrec unlink_first ::
  "ptr \<Rightarrow> SEC_OMX_RM_COMPONENT_LIST list \<Rightarrow> SEC_OMX_RM_COMPONENT_LIST list option" where
  "unlink_first pOMXComponent [] = None"
| "unlink_first pOMXComponent (x # xs) =
    (if pOMXStandComp x = pOMXComponent then Some xs
     else map_option (Cons x) (unlink_first pOMXComponent xs))"

definition removeElementList ::
  "SEC_OMX_RM_COMPONENT_LIST list \<Rightarrow> ptr \<Rightarrow> omx_env \<Rightarrow>
   OMX_ERRORTYPE \<times> SEC_OMX_RM_COMPONENT_LIST list \<times> omx_env" where
  "removeElementList ppList pOMXComponent e =
    (if ppList = [] then (OMX_ErrorUndefined, ppList, e)
     else (case unlink_first pOMXComponent ppList of
             Some xs \<Rightarrow> (OMX_ErrorNone, xs, SEC_OSAL_Free (Some pOMXComponent) e)
           | None \<Rightarrow> (OMX_ErrorComponentNotFound, ppList, e)))"

text \<open>
  The cell of lowest priority (the largest number) below the priority of the caller. The \<open>-1\<close>
  for an empty list is overwritten before the function returns.
\<close>

primrec search_candidate ::
  "u32 \<Rightarrow> SEC_OMX_RM_COMPONENT_LIST option \<Rightarrow> SEC_OMX_RM_COMPONENT_LIST list \<Rightarrow>
   SEC_OMX_RM_COMPONENT_LIST option" where
  "search_candidate prio cand [] = cand"
| "search_candidate prio cand (x # xs) =
    search_candidate prio
      (if groupPriority x > prio
       then (case cand of
               Some k \<Rightarrow> if groupPriority k < groupPriority x then Some x else cand
             | None \<Rightarrow> Some x)
       else cand) xs"

definition searchLowPriority ::
  "SEC_OMX_RM_COMPONENT_LIST list \<Rightarrow> u32 \<Rightarrow> int \<times> SEC_OMX_RM_COMPONENT_LIST option" where
  "searchLowPriority RMComp_list inComp_priority =
    (let pCandidateComp = search_candidate inComp_priority None RMComp_list
     in (if pCandidateComp = None then 0 else 1, pCandidateComp))"

text \<open>
  A component that loses its resource: an idle one is told and sent back to Loaded; for an
  executing or paused one nothing is done (the source has a to-do there).
\<close>

definition removeComponent :: "ptr \<Rightarrow> rm_world \<Rightarrow> (OMX_ERRORTYPE, rm_world) outcome" where
  "removeComponent pOMXComponent w =
    (case private_of w pOMXComponent of
       None \<Rightarrow> Crash
     | Some c \<Rightarrow>
         if currentState c = OMX_StateIdle then
           bindO (with_private pOMXComponent (callback pOMXComponent (EventError OMX_ErrorResourcesLost 0)) w)
             (\<lambda>_ w1. bindO (OMX_SendCommand pOMXComponent OMX_CommandStateSet (u32_of_state OMX_StateLoaded) CmdNull w1) (\<lambda>ret w2.
                Done (if ret \<noteq> OMX_ErrorNone then OMX_ErrorUndefined else OMX_ErrorNone) w2))
         else Done OMX_ErrorNone w)"

section \<open>Start and end of the resource manager\<close>

definition SEC_OMX_ResourceManager_Init :: "rm_world \<Rightarrow> OMX_ERRORTYPE \<times> rm_world" where
  "SEC_OMX_ResourceManager_Init w =
    (case SEC_OSAL_MutexCreate (ghVideoRMComponentListMutex w) (env w) of (ret, m, e1) \<Rightarrow>
      (ret, w\<lparr>ghVideoRMComponentListMutex := m, env := e1\<rparr>))"

primrec free_cells :: "SEC_OMX_RM_COMPONENT_LIST list \<Rightarrow> omx_env \<Rightarrow> omx_env" where
  "free_cells [] e = e"
| "free_cells (x # xs) e = free_cells xs (SEC_OSAL_Free (Some x) e)"

definition SEC_OMX_ResourceManager_Deinit :: "rm_world \<Rightarrow> OMX_ERRORTYPE \<times> rm_world" where
  "SEC_OMX_ResourceManager_Deinit w =
    (let e1 = free_cells (gpVideoDecRMComponentList w) (env w);
         e2 = free_cells (gpVideoDecRMWaitingList w) e1;
         e3 = free_cells (gpVideoEncRMComponentList w) e2;
         e4 = free_cells (gpVideoEncRMWaitingList w) e3;
         e5 = snd (SEC_OSAL_MutexTerminate (ghVideoRMComponentListMutex w) e4)
     in (OMX_ErrorNone,
         w\<lparr>gpVideoDecRMComponentList := [], gpVideoDecRMWaitingList := [],
           gpVideoEncRMComponentList := [], gpVideoEncRMWaitingList := [],
           ghVideoRMComponentListMutex := None, env := e5\<rparr>))"

section \<open>Acquiring and releasing the hardware\<close>

text \<open>
  The two branches of \<open>SEC_OMX_Get_Resource\<close>, for decoders and for encoders, differ in the list
  and in its bound. \<open>rd\<close> and \<open>wr\<close> read and write the list.
\<close>

type_synonym rm_read = "rm_world \<Rightarrow> SEC_OMX_RM_COMPONENT_LIST list"
type_synonym rm_write = "SEC_OMX_RM_COMPONENT_LIST list \<Rightarrow> rm_world \<Rightarrow> rm_world"

abbreviation write_dec :: rm_write where
  "write_dec xs w \<equiv> w\<lparr>gpVideoDecRMComponentList := xs\<rparr>"
abbreviation write_enc :: rm_write where
  "write_enc xs w \<equiv> w\<lparr>gpVideoEncRMComponentList := xs\<rparr>"
abbreviation write_dec_wait :: rm_write where
  "write_dec_wait xs w \<equiv> w\<lparr>gpVideoDecRMWaitingList := xs\<rparr>"
abbreviation write_enc_wait :: rm_write where
  "write_enc_wait xs w \<equiv> w\<lparr>gpVideoEncRMWaitingList := xs\<rparr>"

definition add_to ::
  "rm_read \<Rightarrow> rm_write \<Rightarrow> ptr \<Rightarrow> SEC_OMX_BASECOMPONENT \<Rightarrow> rm_world \<Rightarrow> OMX_ERRORTYPE \<times> rm_world" where
  "add_to rd wr self c w =
    (case addElementList (rd w) self c (env w) of (ret, xs, e1) \<Rightarrow> (ret, (wr xs w)\<lparr>env := e1\<rparr>))"

definition remove_from :: "rm_read \<Rightarrow> rm_write \<Rightarrow> ptr \<Rightarrow> rm_world \<Rightarrow> OMX_ERRORTYPE \<times> rm_world" where
  "remove_from rd wr self w =
    (case removeElementList (rd w) self (env w) of (ret, xs, e1) \<Rightarrow> (ret, (wr xs w)\<lparr>env := e1\<rparr>))"

definition get_from ::
  "nat \<Rightarrow> rm_read \<Rightarrow> rm_write \<Rightarrow> ptr \<Rightarrow> SEC_OMX_BASECOMPONENT \<Rightarrow> rm_world \<Rightarrow> (OMX_ERRORTYPE, rm_world) outcome" where
  "get_from limit rd wr self c w =
    (let add = (\<lambda>w1. case add_to rd wr self c w1 of (ret, w2) \<Rightarrow>
                  Done (if ret \<noteq> OMX_ErrorNone then OMX_ErrorInsufficientResources else OMX_ErrorNone) w2)
     in if length (rd w) \<ge> limit then
          (case searchLowPriority (rd w) (cp_nGroupPriority (compPriority c)) of
             (_, None) \<Rightarrow> Done OMX_ErrorInsufficientResources w
           | (_, Some victim) \<Rightarrow>
               bindO (removeComponent (pOMXStandComp victim) w) (\<lambda>ret w1.
                 if ret \<noteq> OMX_ErrorNone then Done OMX_ErrorInsufficientResources w1
                 else add (snd (remove_from rd wr (pOMXStandComp victim) w1))))
        else add w)"

definition SEC_OMX_Get_Resource :: "ptr \<Rightarrow> rm_world \<Rightarrow> (OMX_ERRORTYPE, rm_world) outcome" where
  "SEC_OMX_Get_Resource self w =
    (case private_of w self of
       None \<Rightarrow> Crash
     | Some c \<Rightarrow>
         if codecType c = HW_VIDEO_DEC_CODEC then
           get_from MAX_RESOURCE_VIDEO_DEC gpVideoDecRMComponentList write_dec self c w
         else if codecType c = HW_VIDEO_ENC_CODEC then
           get_from MAX_RESOURCE_VIDEO_ENC gpVideoEncRMComponentList write_enc self c w
         else Done OMX_ErrorNone w)"

text \<open>A release wakes the first component of the waiting list, by sending it to Idle.\<close>

definition release_to ::
  "rm_read \<Rightarrow> rm_write \<Rightarrow> rm_read \<Rightarrow> rm_write \<Rightarrow> ptr \<Rightarrow> rm_world \<Rightarrow> (OMX_ERRORTYPE, rm_world) outcome" where
  "release_to rd wr rd_wait wr_wait self w =
    (if rd w = [] then Done OMX_ErrorUndefined w
     else (case remove_from rd wr self w of (ret, w1) \<Rightarrow>
       if ret \<noteq> OMX_ErrorNone then Done OMX_ErrorUndefined w1
       else (case rd_wait w1 of
               [] \<Rightarrow> Done OMX_ErrorNone w1
             | x # _ \<Rightarrow>
                 OMX_SendCommand (pOMXStandComp x) OMX_CommandStateSet (u32_of_state OMX_StateIdle) CmdNull
                   (snd (remove_from rd_wait wr_wait (pOMXStandComp x) w1)))))"

definition SEC_OMX_Release_Resource :: "ptr \<Rightarrow> rm_world \<Rightarrow> (OMX_ERRORTYPE, rm_world) outcome" where
  "SEC_OMX_Release_Resource self w =
    (case private_of w self of
       None \<Rightarrow> Crash
     | Some c \<Rightarrow>
         if codecType c = HW_VIDEO_DEC_CODEC then
           release_to gpVideoDecRMComponentList write_dec gpVideoDecRMWaitingList write_dec_wait self w
         else if codecType c = HW_VIDEO_ENC_CODEC then
           release_to gpVideoEncRMComponentList write_enc gpVideoEncRMWaitingList write_enc_wait self w
         else Done OMX_ErrorNone w)"

definition SEC_OMX_In_WaitForResource :: "ptr \<Rightarrow> rm_world \<Rightarrow> (OMX_ERRORTYPE, rm_world) outcome" where
  "SEC_OMX_In_WaitForResource self w =
    (case private_of w self of
       None \<Rightarrow> Crash
     | Some c \<Rightarrow>
         (case (if codecType c = HW_VIDEO_DEC_CODEC then add_to gpVideoDecRMWaitingList write_dec_wait self c w
                else if codecType c = HW_VIDEO_ENC_CODEC then add_to gpVideoEncRMWaitingList write_enc_wait self c w
                else (OMX_ErrorNone, w)) of (ret, w1) \<Rightarrow> Done ret w1))"

definition SEC_OMX_Out_WaitForResource :: "ptr \<Rightarrow> rm_world \<Rightarrow> (OMX_ERRORTYPE, rm_world) outcome" where
  "SEC_OMX_Out_WaitForResource self w =
    (case private_of w self of
       None \<Rightarrow> Crash
     | Some c \<Rightarrow>
         (case (if codecType c = HW_VIDEO_DEC_CODEC then remove_from gpVideoDecRMWaitingList write_dec_wait self w
                else if codecType c = HW_VIDEO_ENC_CODEC then remove_from gpVideoEncRMWaitingList write_enc_wait self w
                else (OMX_ErrorNone, w)) of (ret, w1) \<Rightarrow> Done ret w1))"

section \<open>The victim of a higher priority\<close>

lemma search_candidate_append [simp]:
  "search_candidate prio k (xs @ ys) = search_candidate prio (search_candidate prio k xs) ys"
  by (induction xs arbitrary: k) auto

lemma search_candidate_keeps:
  "\<forall>x\<in>set xs. groupPriority x \<le> groupPriority k \<Longrightarrow> search_candidate prio (Some k) xs = Some k"
  by (induction xs) auto

lemma search_candidate_none:
  "search_candidate prio None xs = None \<longleftrightarrow> (\<forall>x\<in>set xs. groupPriority x \<le> prio)"
proof (induction xs rule: rev_induct)
  case (snoc x xs)
  then show ?case by (cases "search_candidate prio None xs") auto
qed simp

lemma search_candidate_split:
  assumes "search_candidate prio None xs = Some v"
  shows "\<exists>ys zs. xs = ys @ v # zs \<and> groupPriority v > prio \<and>
    (\<forall>x\<in>set ys. groupPriority x < groupPriority v) \<and> (\<forall>x\<in>set zs. groupPriority x \<le> groupPriority v)"
  using assms
proof (induction xs arbitrary: v rule: rev_induct)
  case (snoc x xs)
  show ?case
  proof (cases "search_candidate prio None xs")
    case None
    then have "\<forall>y\<in>set xs. groupPriority y \<le> prio" by (simp add: search_candidate_none)
    moreover have "v = x" "groupPriority x > prio" using snoc.prems None by (auto split: if_splits)
    ultimately show ?thesis by (intro exI [of _ xs] exI [of _ "[]"]) auto
  next
    case (Some k)
    from snoc.IH [OF this] obtain ys zs where k: "xs = ys @ k # zs" "groupPriority k > prio"
      "\<forall>y\<in>set ys. groupPriority y < groupPriority k" "\<forall>z\<in>set zs. groupPriority z \<le> groupPriority k" by blast
    show ?thesis
    proof (cases "groupPriority k < groupPriority x")
      case True
      then have "v = x" using snoc.prems Some k(2) by (auto split: if_splits)
      then show ?thesis using k True by (intro exI [of _ xs] exI [of _ "[]"]) auto
    next
      case False
      then have "v = k" using snoc.prems Some by (auto split: if_splits)
      then show ?thesis using k False by (intro exI [of _ ys] exI [of _ "zs @ [x]"]) auto
    qed
  qed
qed simp

text \<open>
  A concrete state: three decoders in state \<open>st\<close> with the priorities 5, 9 and 7, a fourth one of
  priority 2 and one that waits.
\<close>

definition sample_cell :: "ptr \<Rightarrow> u32 \<Rightarrow> SEC_OMX_RM_COMPONENT_LIST" where
  "sample_cell p prio = \<lparr>pOMXStandComp = p, groupPriority = prio\<rparr>"

definition sample_decoder :: "OMX_STATETYPE \<Rightarrow> u32 \<Rightarrow> SEC_OMX_BASECOMPONENT" where
  "sample_decoder st prio = (sample_component 2)\<lparr>codecType := HW_VIDEO_DEC_CODEC, currentState := st,
     compPriority := \<lparr>cp_nGroupPriority = prio, cp_nGroupID = 0\<rparr>\<rparr>"

definition sample_dec_handle :: "OMX_STATETYPE \<Rightarrow> u32 \<Rightarrow> OMX_COMPONENTTYPE" where
  "sample_dec_handle st prio = (sample_handle (sample_decoder st prio))\<lparr>api := [M_SendCommand]\<rparr>"

definition sample_rm :: "OMX_STATETYPE \<Rightarrow> rm_world" where
  "sample_rm st = \<lparr>gpVideoDecRMComponentList = [sample_cell 10 5, sample_cell 20 9, sample_cell 30 7],
     gpVideoDecRMWaitingList = [sample_cell 50 6], gpVideoEncRMComponentList = [], gpVideoEncRMWaitingList = [],
     ghVideoRMComponentListMutex = Some 3,
     comps = [10 \<mapsto> sample_dec_handle st 5, 20 \<mapsto> sample_dec_handle st 9, 30 \<mapsto> sample_dec_handle st 7,
       40 \<mapsto> sample_dec_handle OMX_StateLoaded 2, 50 \<mapsto> sample_dec_handle OMX_StateWaitForResources 6],
     env = sample_env\<rparr>"

lemma sample_decoder_simps [simp]:
  "currentState (sample_decoder st prio) = st" "codecType (sample_decoder st prio) = HW_VIDEO_DEC_CODEC"
  "cp_nGroupPriority (compPriority (sample_decoder st prio)) = prio" "two_ports (sample_decoder st prio)"
  "pCallbacks (sample_decoder st prio) = Some 1" "messageQ (sample_decoder st prio) = fresh_ring 300 301"
  "valid_handle (sample_dec_handle st prio) (sample_decoder st prio)" "api (sample_dec_handle st prio) = [M_SendCommand]"
  by (simp_all add: sample_decoder_def sample_dec_handle_def two_ports_def ALL_PORT_NUM_def sample_handle_def
      valid_handle_def SEC_OMX_Check_SizeVersion_def SEC_VERSION_def)

lemma sample_decoder_synced [simp]: "msg_synced (sample_decoder st prio)"
  using sample_msg_synced [of 2] by (simp add: sample_decoder_def msg_synced_def)

lemma sample_rm_simps [simp]:
  "gpVideoDecRMComponentList (sample_rm st) = [sample_cell 10 5, sample_cell 20 9, sample_cell 30 7]"
  "gpVideoDecRMWaitingList (sample_rm st) = [sample_cell 50 6]" "gpVideoEncRMComponentList (sample_rm st) = []"
  "env (sample_rm st) = sample_env" "comps (sample_rm st) 20 = Some (sample_dec_handle st 9)"
  "comps (sample_rm st) 10 = Some (sample_dec_handle st 5)" "comps (sample_rm st) 30 = Some (sample_dec_handle st 7)"
  "comps (sample_rm st) 40 = Some (sample_dec_handle OMX_StateLoaded 2)"
  "comps (sample_rm st) 50 = Some (sample_dec_handle OMX_StateWaitForResources 6)"
  "pOMXStandComp (sample_cell p prio) = p" "groupPriority (sample_cell p prio) = prio"
  by (simp_all add: sample_rm_def sample_cell_def)

lemma sample_private [simp]:
  "private_of (sample_rm st) 10 = Some (sample_decoder st 5)" "private_of (sample_rm st) 20 = Some (sample_decoder st 9)"
  "private_of (sample_rm st) 40 = Some (sample_decoder OMX_StateLoaded 2)"
  by (simp_all add: private_of_def sample_dec_handle_def sample_handle_def)

text \<open>C22. \<open>searchLowPriority\<close> finds the right victim: it returns 0 exactly when no component of the
  list has a lower priority (a larger number) than the one that asks, and otherwise 1 with the
  component of lowest priority, the earliest one among those of equal priority.\<close>

theorem searchLowPriority_finds_lowest:
  "searchLowPriority xs prio = (0, None) \<and> (\<forall>x\<in>set xs. groupPriority x \<le> prio) \<or>
   (\<exists>ys v zs. searchLowPriority xs prio = (1, Some v) \<and> xs = ys @ v # zs \<and> groupPriority v > prio \<and>
      (\<forall>x\<in>set ys. groupPriority x < groupPriority v) \<and> (\<forall>x\<in>set zs. groupPriority x \<le> groupPriority v))"
proof (cases "search_candidate prio None xs")
  case None
  then show ?thesis by (simp add: searchLowPriority_def search_candidate_none)
next
  case (Some v)
  then show ?thesis using search_candidate_split [OF Some] by (auto simp: searchLowPriority_def)
qed

theorem searchLowPriority_finds_lowest_witness:
  "searchLowPriority [sample_cell 1 5, sample_cell 2 9, sample_cell 3 9] 4 = (1, Some (sample_cell 2 9))"
  using searchLowPriority_finds_lowest [of "[sample_cell 1 5, sample_cell 2 9, sample_cell 3 9]" 4]
  by (simp add: searchLowPriority_def)

section \<open>The pools\<close>

text \<open>
  A list of the resource manager, read by \<open>rd\<close> and written by \<open>wr\<close>: what is written is read, and
  the list does not depend on the components and their memory. A pool is such a list with a
  bound, which \<open>SEC_OMX_Get_Resource\<close> enforces.
\<close>

locale rm_list =
  fixes rd :: rm_read and wr :: rm_write
  assumes rd_wr [simp]: "rd (wr xs w) = xs"
    and rd_env [simp]: "rd (w\<lparr>env := e\<rparr>) = rd w"
    and rd_comps [simp]: "rd (w\<lparr>comps := f\<rparr>) = rd w"
    and wr_comps [simp]: "comps (wr xs w) = comps w"
    and wr_env [simp]: "env (wr xs w) = env w"

locale rm_pool = rm_list +
  fixes limit :: nat
  assumes limit_pos: "0 < limit"

lemma unlink_first_length: "unlink_first p xs = Some ys \<Longrightarrow> length xs = Suc (length ys)"
  by (induction xs arbitrary: ys) (auto split: if_splits)

lemma unlink_first_split:
  "\<forall>x\<in>set ys. pOMXStandComp x \<noteq> pOMXStandComp v \<Longrightarrow> unlink_first (pOMXStandComp v) (ys @ v # zs) = Some (ys @ zs)"
  by (induction ys) auto

lemma unlink_first_None: "unlink_first p xs = None \<longleftrightarrow> (\<forall>x\<in>set xs. pOMXStandComp x \<noteq> p)"
  by (induction xs) auto

text \<open>The ways \<open>get_from\<close> can end.\<close>

lemma get_from_elim:
  assumes g: "get_from limit rd wr self c w = Done r w'"
  obtains (room) "length (rd w) < limit" "w' = snd (add_to rd wr self c w)"
  | (refused) "length (rd w) \<ge> limit" "w' = w"
  | (kept) v :: SEC_OMX_RM_COMPONENT_LIST and r1 where "length (rd w) \<ge> limit" "removeComponent (pOMXStandComp v) w = Done r1 w'"
  | (replaced) v w1 where "length (rd w) \<ge> limit" "search_candidate (cp_nGroupPriority (compPriority c)) None (rd w) = Some v"
      "removeComponent (pOMXStandComp v) w = Done OMX_ErrorNone w1"
      "w' = snd (add_to rd wr self c (snd (remove_from rd wr (pOMXStandComp v) w1)))"
proof (cases "length (rd w) \<ge> limit")
  case False
  then show thesis using g by (intro room) (auto simp: get_from_def Let_def split: prod.splits)
next
  case full: True
  show thesis
  proof (cases "search_candidate (cp_nGroupPriority (compPriority c)) None (rd w)")
    case None
    then show thesis using g full by (intro refused) (simp_all add: get_from_def Let_def searchLowPriority_def)
  next
    case (Some v)
    let ?add = "\<lambda>w1. add_to rd wr self c (snd (remove_from rd wr (pOMXStandComp v) w1))"
    from g obtain r1 w1 where rc: "removeComponent (pOMXStandComp v) w = Done r1 w1"
      using Some full by (cases "removeComponent (pOMXStandComp v) w") (simp_all add: get_from_def searchLowPriority_def)
    obtain r2 w2 where a: "?add w1 = (r2, w2)" by (cases "?add w1")
    have "r1 \<noteq> OMX_ErrorNone \<and> w' = w1 \<or> r1 = OMX_ErrorNone \<and> w' = snd (?add w1)"
      using g rc a full Some by (simp add: get_from_def searchLowPriority_def Let_def split: if_splits)
    then show thesis using full Some rc kept replaced by metis
  qed
qed

context rm_list
begin

lemma rd_SendCommand: "OMX_SendCommand p C n d w = Done r w' \<Longrightarrow> rd w' = rd w"
  by (auto simp: OMX_SendCommand_def map_state_eq_Done_iff split: option.splits if_splits)

lemma rd_with_private: "with_private p body w = Done r w' \<Longrightarrow> rd w' = rd w"
  by (auto simp: with_private_def map_state_eq_Done_iff split: option.splits)

lemma rd_removeComponent: "removeComponent p w = Done r w' \<Longrightarrow> rd w' = rd w"
  by (auto simp: removeComponent_def bindO_eq_Done_iff rd_SendCommand split: option.splits if_splits
      dest!: rd_with_private)

lemma add_to_length: "add_to rd wr self c w = (r, w') \<Longrightarrow> length (rd w') \<le> Suc (length (rd w))"
  by (auto simp: add_to_def addElementList_def split: prod.splits option.splits)

lemma remove_from_length: "remove_from rd wr self w = (r, w') \<Longrightarrow> length (rd w') \<le> length (rd w)"
  by (auto simp: remove_from_def removeElementList_def dest: unlink_first_length split: if_splits option.splits)

end

context rm_pool
begin

lemma get_bound:
  assumes g: "get_from limit rd wr self c w = Done r w'" and b: "length (rd w) \<le> limit"
  shows "length (rd w') \<le> limit"
  using g
proof (cases rule: get_from_elim)
  case room
  then show ?thesis using add_to_length [of self c w] by (cases "add_to rd wr self c w") auto
next
  case refused
  then show ?thesis using b by simp
next
  case (kept v r1)
  then show ?thesis using b rd_removeComponent by fastforce
next
  case (replaced v w1)
  have eq: "rd w1 = rd w" by (rule rd_removeComponent [OF replaced(3)])
  have v: "v \<in> set (rd w)" using search_candidate_split [OF replaced(2)] by auto
  then obtain ys where u: "unlink_first (pOMXStandComp v) (rd w) = Some ys"
    using unlink_first_None [of "pOMXStandComp v" "rd w"] by (cases "unlink_first (pOMXStandComp v) (rd w)") auto
  have "rd w \<noteq> []" using v by auto
  then have "rd (snd (remove_from rd wr (pOMXStandComp v) w1)) = ys"
    using u eq by (simp add: remove_from_def removeElementList_def)
  then show ?thesis
    using replaced(4) eq b unlink_first_length [OF u]
      add_to_length [of self c "snd (remove_from rd wr (pOMXStandComp v) w1)"]
    by (cases "add_to rd wr self c (snd (remove_from rd wr (pOMXStandComp v) w1))") auto
qed

lemma release_bound:
  assumes "release_to rd wr rd2 wr2 self w = Done r w'" "length (rd w) \<le> limit" "\<And>xs w. rd (wr2 xs w) = rd w"
  shows "length (rd w') \<le> limit"
proof -
  have 2: "rd (snd (remove_from rd2 wr2 p w1)) = rd w1" for p w1
    using assms(3) by (auto simp: remove_from_def split: prod.splits)
  show ?thesis
    using assms(1,2) 2
    by (auto simp: release_to_def dest!: remove_from_length rd_SendCommand split: prod.splits if_splits list.splits)
qed

end

interpretation dec: rm_pool gpVideoDecRMComponentList write_dec MAX_RESOURCE_VIDEO_DEC
  by unfold_locales (simp_all add: MAX_RESOURCE_VIDEO_DEC_def)

interpretation enc: rm_pool gpVideoEncRMComponentList write_enc MAX_RESOURCE_VIDEO_ENC
  by unfold_locales (simp_all add: MAX_RESOURCE_VIDEO_ENC_def)

interpretation dec_wait: rm_list gpVideoDecRMWaitingList write_dec_wait
  by unfold_locales simp_all

interpretation enc_wait: rm_list gpVideoEncRMWaitingList write_enc_wait
  by unfold_locales simp_all

text \<open>
  The steps of the resource manager. Between them the components do whatever they like with
  themselves, with their memory and with their priorities.
\<close>

inductive rm_step :: "rm_world \<Rightarrow> rm_world \<Rightarrow> bool" where
  rm_get: "SEC_OMX_Get_Resource self w = Done r w' \<Longrightarrow> rm_step w w'"
| rm_release: "SEC_OMX_Release_Resource self w = Done r w' \<Longrightarrow> rm_step w w'"
| rm_in_wait: "SEC_OMX_In_WaitForResource self w = Done r w' \<Longrightarrow> rm_step w w'"
| rm_out_wait: "SEC_OMX_Out_WaitForResource self w = Done r w' \<Longrightarrow> rm_step w w'"
| rm_others: "rm_step w (w\<lparr>comps := f, env := e\<rparr>)"

definition within_limits :: "rm_world \<Rightarrow> bool" where
  "within_limits w \<longleftrightarrow> length (gpVideoDecRMComponentList w) \<le> MAX_RESOURCE_VIDEO_DEC \<and>
     length (gpVideoEncRMComponentList w) \<le> MAX_RESOURCE_VIDEO_ENC"

text \<open>A list does not change when another one, written by \<open>wr'\<close>, is worked on.\<close>

locale rm_frame = rm_list +
  fixes wr' :: rm_write
  assumes rd_wr' [simp]: "rd (wr' xs w) = rd w"
begin

lemma frame_add_to: "add_to rd' wr' self c w = (r, w') \<Longrightarrow> rd w' = rd w"
  by (auto simp: add_to_def split: prod.splits)

lemma frame_remove_from: "remove_from rd' wr' self w = (r, w') \<Longrightarrow> rd w' = rd w"
  by (auto simp: remove_from_def split: prod.splits)

lemma frame_remove_from' [simp]: "rd (snd (remove_from rd' wr' self w)) = rd w"
  by (cases "remove_from rd' wr' self w") (simp add: frame_remove_from)

lemma frame_add_to' [simp]: "rd (snd (add_to rd' wr' self c w)) = rd w"
  by (cases "add_to rd' wr' self c w") (simp add: frame_add_to)

lemma frame_get:
  assumes "get_from limit rd' wr' self c w = Done r w'"
  shows "rd w' = rd w"
  using assms by (cases rule: get_from_elim) (simp_all add: rd_removeComponent)

lemma frame_release:
  assumes "release_to rd' wr' rd2 wr2 self w = Done r w'" "\<And>xs w. rd (wr2 xs w) = rd w"
  shows "rd w' = rd w"
proof -
  have 2: "rd (snd (remove_from rd2 wr2 p w1)) = rd w1" for p w1
    using assms(2) by (auto simp: remove_from_def split: prod.splits)
  show ?thesis
    using assms(1) 2
    by (auto simp: release_to_def dest!: frame_remove_from rd_SendCommand split: prod.splits if_splits list.splits)
qed

end

interpretation dec_enc: rm_frame gpVideoDecRMComponentList write_dec write_enc
  by unfold_locales simp_all

interpretation enc_dec: rm_frame gpVideoEncRMComponentList write_enc write_dec
  by unfold_locales simp_all

text \<open>C19. The limits of the hardware hold in every state of the resource manager: whatever the
  components do in between, and whatever the allocator answers, no more than three decoders
  and one encoder are ever entered in the lists.\<close>

theorem rm_limits_invariant:
  assumes "rm_step\<^sup>*\<^sup>* w w'" "within_limits w"
  shows "within_limits w'"
  using assms
proof (induction rule: rtranclp_induct)
  case (step w1 w2)
  then have b: "length (gpVideoDecRMComponentList w1) \<le> MAX_RESOURCE_VIDEO_DEC"
      "length (gpVideoEncRMComponentList w1) \<le> MAX_RESOURCE_VIDEO_ENC" by (simp_all add: within_limits_def)
  show ?case using step(2)
  proof cases
    case (rm_get self r)
    then show ?thesis
      using dec.get_bound [OF _ b(1)] enc.get_bound [OF _ b(2)] dec_enc.frame_get enc_dec.frame_get b
      by (fastforce simp: SEC_OMX_Get_Resource_def within_limits_def split: option.splits if_splits)
  next
    case (rm_release self r)
    then show ?thesis
      using dec.release_bound [OF _ b(1)] enc.release_bound [OF _ b(2)] dec_enc.frame_release enc_dec.frame_release b
      by (fastforce simp: SEC_OMX_Release_Resource_def within_limits_def split: option.splits if_splits)
  next
    case (rm_in_wait self r)
    then show ?thesis using b
      by (auto simp: SEC_OMX_In_WaitForResource_def within_limits_def add_to_def split: option.splits if_splits prod.splits)
  next
    case (rm_out_wait self r)
    then show ?thesis using b
      by (auto simp: SEC_OMX_Out_WaitForResource_def within_limits_def remove_from_def split: option.splits if_splits prod.splits)
  next
    case (rm_others f e)
    then show ?thesis using b by (simp add: within_limits_def)
  qed
qed

theorem rm_limits_invariant_witness:
  "\<exists>w'. SEC_OMX_Get_Resource 40 (sample_rm OMX_StateExecuting) = Done OMX_ErrorNone w' \<and> within_limits w'"
proof -
  obtain w' where g: "SEC_OMX_Get_Resource 40 (sample_rm OMX_StateExecuting) = Done OMX_ErrorNone w'"
    by (simp add: SEC_OMX_Get_Resource_def get_from_def searchLowPriority_def MAX_RESOURCE_VIDEO_DEC_def
        removeComponent_def add_to_def addElementList_def remove_from_def removeElementList_def Malloc_ok Let_def)
  have "within_limits w'"
    by (rule rm_limits_invariant [of "sample_rm OMX_StateExecuting"])
       (use g in \<open>auto intro: r_into_rtranclp rm_get
          simp: within_limits_def MAX_RESOURCE_VIDEO_DEC_def MAX_RESOURCE_VIDEO_ENC_def\<close>)
  then show ?thesis using g by blast
qed

section \<open>Preemption and wake-up\<close>

lemma SendCommand_StateSet:
  assumes vh: "valid_handle oc c" and t: "two_ports c" and st: "currentState c \<noteq> OMX_StateInvalid"
    and sync: "msg_synced c" and room: "length (queue_elems (messageQ c)) < RING_SIZE" and mem: "sys_answers e = []"
  obtains c' e' where "SEC_OMX_SendCommand (Some oc) OMX_CommandStateSet n d e
      = Done OMX_ErrorNone (Some (oc\<lparr>pComponentPrivate := Some c'\<rparr>), e')"
    "currentState c' = currentState c" "codecType c' = codecType c" "msg_synced c'"
    "queue_elems (messageQ c') = queue_elems (messageQ c)
       @ [QMsg \<lparr>messageType = OMX_CommandStateSet, messageParam = n, pCmdData = d\<rparr>]"
    "cb_trace e' = cb_trace e" "sys_answers e' = []"
proof -
  obtain r c1 where ck: "SEC_StateSet c n = Done r c1" using StateSet_two [OF t, of n] by auto
  note same = same_but_ports_fields [OF StateSet_same [OF ck]]
  have "msg_synced c1" "length (queue_elems (messageQ c1)) < RING_SIZE" using sync room same by (simp_all add: msg_synced_def)
  from CommandQueue_room [OF this mem, of OMX_CommandStateSet n d]
  obtain c' e' where q: "SEC_OMX_CommandQueue OMX_CommandStateSet n d c1 e = Done OMX_ErrorNone (c', e')" "msg_synced c'"
    "queue_elems (messageQ c') = queue_elems (messageQ c)
       @ [QMsg \<lparr>messageType = OMX_CommandStateSet, messageParam = n, pCmdData = d\<rparr>]"
    "c' = c1\<lparr>messageQ := messageQ c', msgSemaphoreHandle := msgSemaphoreHandle c'\<rparr>"
    "cb_trace e' = cb_trace e" "sys_answers e' = []" using same by auto
  have "currentState c' = currentState c1" "codecType c' = codecType c1"
    by (subst q(4), simp)+
  moreover have "codecType c1 = codecType c"
    using StateSet_same [OF ck] unfolding same_but_ports_def by (cases c; cases c1; simp)
  moreover have "SEC_OMX_SendCommand (Some oc) OMX_CommandStateSet n d e
      = Done OMX_ErrorNone (Some (oc\<lparr>pComponentPrivate := Some c'\<rparr>), e')"
    using ck st q(1) by (simp add: SEC_OMX_SendCommand_def entry_valid [OF vh] SendCommand_body_def command_check_def)
  ultimately show thesis using that q same by metis
qed

text \<open>A component that can take a command: a valid handle with its entry point and room in its queue.\<close>

definition can_take :: "rm_world \<Rightarrow> ptr \<Rightarrow> OMX_COMPONENTTYPE \<Rightarrow> SEC_OMX_BASECOMPONENT \<Rightarrow> bool" where
  "can_take w p oc c \<longleftrightarrow> comps w p = Some oc \<and> valid_handle oc c \<and> M_SendCommand \<in> set (api oc) \<and> two_ports c \<and>
     currentState c \<noteq> OMX_StateInvalid \<and> msg_synced c \<and> length (queue_elems (messageQ c)) < RING_SIZE \<and>
     sys_answers (env w) = []"

lemma private_of_valid: "comps w p = Some oc \<Longrightarrow> valid_handle oc c \<Longrightarrow> private_of w p = Some c"
  by (simp add: private_of_def valid_handle_def)

lemma OMX_SendCommand_StateSet:
  assumes "can_take w p oc c"
  obtains oc' c' e' where "OMX_SendCommand p OMX_CommandStateSet n d w
      = Done OMX_ErrorNone (w\<lparr>comps := (comps w)(p \<mapsto> oc'), env := e'\<rparr>)"
    "valid_handle oc' c'" "currentState c' = currentState c"
    "queue_elems (messageQ c') = queue_elems (messageQ c)
       @ [QMsg \<lparr>messageType = OMX_CommandStateSet, messageParam = n, pCmdData = d\<rparr>]"
    "cb_trace e' = cb_trace (env w)" "sys_answers e' = []"
proof -
  from assms have vh: "valid_handle oc c" and m: "comps w p = Some oc" "M_SendCommand \<in> set (api oc)"
    by (simp_all add: can_take_def)
  from assms obtain c' e' where s: "SEC_OMX_SendCommand (Some oc) OMX_CommandStateSet n d (env w)
      = Done OMX_ErrorNone (Some (oc\<lparr>pComponentPrivate := Some c'\<rparr>), e')"
    "currentState c' = currentState c"
    "queue_elems (messageQ c') = queue_elems (messageQ c)
       @ [QMsg \<lparr>messageType = OMX_CommandStateSet, messageParam = n, pCmdData = d\<rparr>]"
    "cb_trace e' = cb_trace (env w)" "sys_answers e' = []"
    unfolding can_take_def by (metis SendCommand_StateSet)
  show thesis
    by (rule that [where oc' = "oc\<lparr>pComponentPrivate := Some c'\<rparr>" and e' = e' and c' = c'])
       (use s m vh in \<open>simp_all add: OMX_SendCommand_def\<close>)
qed

lemma removeComponent_running:
  "private_of w p = Some c \<Longrightarrow> currentState c \<noteq> OMX_StateIdle \<Longrightarrow> removeComponent p w = Done OMX_ErrorNone w"
  by (simp add: removeComponent_def)

lemma removeComponent_idle:
  assumes t: "can_take w p oc c" and st: "currentState c = OMX_StateIdle" and cb: "pCallbacks c \<noteq> None"
  obtains oc' c' e' where "removeComponent p w = Done OMX_ErrorNone (w\<lparr>comps := (comps w)(p \<mapsto> oc'), env := e'\<rparr>)"
    "valid_handle oc' c'"
    "queue_elems (messageQ c') = queue_elems (messageQ c)
       @ [QMsg \<lparr>messageType = OMX_CommandStateSet, messageParam = u32_of_state OMX_StateLoaded, pCmdData = CmdNull\<rparr>]"
    "cb_trace e' = cb_trace (env w) @ [(p, EventError OMX_ErrorResourcesLost 0)]" "sys_answers e' = []"
proof -
  let ?w1 = "w\<lparr>env := record_call p (EventError OMX_ErrorResourcesLost 0) (env w)\<rparr>"
  from t have m: "comps w p = Some oc" "pComponentPrivate oc = Some c" "private_of w p = Some c"
    by (auto simp: can_take_def valid_handle_def private_of_def)
  have "oc\<lparr>pComponentPrivate := Some c\<rparr> = oc" using m(2) by (cases oc) simp
  then have c: "with_private p (callback p (EventError OMX_ErrorResourcesLost 0)) w = Done () ?w1"
    using m cb by (auto simp: with_private_def callback_def fun_upd_idem)
  have t1: "can_take ?w1 p oc c" using t by (simp add: can_take_def record_call_def)
  from OMX_SendCommand_StateSet [OF t1, of "u32_of_state OMX_StateLoaded" CmdNull]
  obtain oc' c' e' where s: "OMX_SendCommand p OMX_CommandStateSet (u32_of_state OMX_StateLoaded) CmdNull ?w1
      = Done OMX_ErrorNone (?w1\<lparr>comps := (comps ?w1)(p \<mapsto> oc'), env := e'\<rparr>)"
    "valid_handle oc' c'"
    "queue_elems (messageQ c') = queue_elems (messageQ c)
       @ [QMsg \<lparr>messageType = OMX_CommandStateSet, messageParam = u32_of_state OMX_StateLoaded, pCmdData = CmdNull\<rparr>]"
    "cb_trace e' = cb_trace (env ?w1)" "sys_answers e' = []" by metis
  show thesis
    by (rule that [where oc' = oc' and e' = e' and c' = c']) (use s c m st in \<open>simp_all add: removeComponent_def record_call_def\<close>)
qed

context rm_pool
begin

lemma get_replaces:
  assumes full: "length (rd w) = limit" and split: "rd w = ys @ v # zs" "groupPriority v > cp_nGroupPriority (compPriority c)"
    "\<forall>x\<in>set ys. groupPriority x < groupPriority v" "\<forall>x\<in>set zs. groupPriority x \<le> groupPriority v"
    and other: "\<forall>x\<in>set ys. pOMXStandComp x \<noteq> pOMXStandComp v"
    and rc: "removeComponent (pOMXStandComp v) w = Done OMX_ErrorNone w1" and mem: "sys_answers (env w1) = []"
  shows "\<exists>w'. get_from limit rd wr self c w = Done OMX_ErrorNone w' \<and>
    rd w' = ys @ zs @ [\<lparr>pOMXStandComp = self, groupPriority = cp_nGroupPriority (compPriority c)\<rparr>] \<and>
    comps w' = comps w1 \<and> cb_trace (env w') = cb_trace (env w1)"
proof -
  have "search_candidate (cp_nGroupPriority (compPriority c)) None ys = None \<or>
      (\<exists>k. search_candidate (cp_nGroupPriority (compPriority c)) None ys = Some k \<and> groupPriority k < groupPriority v)"
    using split(3) search_candidate_split
    by (cases "search_candidate (cp_nGroupPriority (compPriority c)) None ys") fastforce+
  then have s: "search_candidate (cp_nGroupPriority (compPriority c)) None (rd w) = Some v"
    using split search_candidate_keeps [OF split(4)] by auto
  have r: "rd w1 = ys @ v # zs" using rd_removeComponent [OF rc] split(1) by simp
  let ?w2 = "snd (remove_from rd wr (pOMXStandComp v) w1)"
  have w2: "rd ?w2 = ys @ zs" "sys_answers (env ?w2) = []" "comps ?w2 = comps w1" "cb_trace (env ?w2) = cb_trace (env w1)"
    using mem unlink_first_split [OF other]
    by (simp_all add: remove_from_def removeElementList_def r SEC_OSAL_Free_def)
  obtain w' where a: "add_to rd wr self c ?w2 = (OMX_ErrorNone, w')"
    and w': "rd w' = ys @ zs @ [\<lparr>pOMXStandComp = self, groupPriority = cp_nGroupPriority (compPriority c)\<rparr>]"
      "comps w' = comps w1" "cb_trace (env w') = cb_trace (env w1)"
    using w2 by (simp add: add_to_def addElementList_def Malloc_ok)
  have "get_from limit rd wr self c w = Done OMX_ErrorNone w'"
    using full s rc a by (simp add: get_from_def searchLowPriority_def Let_def)
  then show ?thesis using w' by blast
qed

lemma get_refuses:
  assumes "length (rd w) \<ge> limit" "\<forall>x\<in>set (rd w). groupPriority x \<le> cp_nGroupPriority (compPriority c)"
  shows "get_from limit rd wr self c w = Done OMX_ErrorInsufficientResources w"
  using assms search_candidate_none [of "cp_nGroupPriority (compPriority c)" "rd w"]
  by (simp add: get_from_def searchLowPriority_def Let_def)

end

text \<open>The cell of lowest priority in the pool of decoders, below the priority of \<open>c\<close>.\<close>

definition dec_victim ::
  "rm_world \<Rightarrow> SEC_OMX_BASECOMPONENT \<Rightarrow> SEC_OMX_RM_COMPONENT_LIST list \<Rightarrow> SEC_OMX_RM_COMPONENT_LIST \<Rightarrow>
   SEC_OMX_RM_COMPONENT_LIST list \<Rightarrow> bool" where
  "dec_victim w c ys v zs \<longleftrightarrow> gpVideoDecRMComponentList w = ys @ v # zs \<and>
     length (gpVideoDecRMComponentList w) = MAX_RESOURCE_VIDEO_DEC \<and>
     groupPriority v > cp_nGroupPriority (compPriority c) \<and>
     (\<forall>x\<in>set ys. groupPriority x < groupPriority v \<and> pOMXStandComp x \<noteq> pOMXStandComp v) \<and>
     (\<forall>x\<in>set zs. groupPriority x \<le> groupPriority v)"

lemma sample_victim [simp]:
  "dec_victim (sample_rm st) (sample_decoder OMX_StateLoaded 2) [sample_cell 10 5] (sample_cell 20 9) [sample_cell 30 7]"
  by (simp add: dec_victim_def MAX_RESOURCE_VIDEO_DEC_def)

lemma sample_can_take [simp]:
  "st \<noteq> OMX_StateInvalid \<Longrightarrow> can_take (sample_rm st) 20 (sample_dec_handle st 9) (sample_decoder st 9)"
  "can_take (sample_rm st) 50 (sample_dec_handle OMX_StateWaitForResources 6) (sample_decoder OMX_StateWaitForResources 6)"
  by (simp_all add: can_take_def RING_SIZE_def)

text \<open>C20. When all decoders are taken and a decoder of higher priority asks for one, the holder of
  lowest priority, if it is idle, is told that it lost its resource and is sent the command
  to go back to Loaded; its place goes to the one that asked.\<close>

theorem idle_victim_is_preempted:
  assumes c: "private_of w self = Some c" "codecType c = HW_VIDEO_DEC_CODEC" and v: "dec_victim w c ys v zs"
    and t: "can_take w (pOMXStandComp v) oc cv" and st: "currentState cv = OMX_StateIdle" and cb: "pCallbacks cv \<noteq> None"
  shows "\<exists>w' oc' cv'. SEC_OMX_Get_Resource self w = Done OMX_ErrorNone w' \<and>
    gpVideoDecRMComponentList w'
      = ys @ zs @ [\<lparr>pOMXStandComp = self, groupPriority = cp_nGroupPriority (compPriority c)\<rparr>] \<and>
    cb_trace (env w') = cb_trace (env w) @ [(pOMXStandComp v, EventError OMX_ErrorResourcesLost 0)] \<and>
    comps w' = (comps w)(pOMXStandComp v \<mapsto> oc') \<and> valid_handle oc' cv' \<and>
    queue_elems (messageQ cv') = queue_elems (messageQ cv)
      @ [QMsg \<lparr>messageType = OMX_CommandStateSet, messageParam = u32_of_state OMX_StateLoaded, pCmdData = CmdNull\<rparr>]"
proof -
  from v have d: "length (gpVideoDecRMComponentList w) = MAX_RESOURCE_VIDEO_DEC" "gpVideoDecRMComponentList w = ys @ v # zs"
    "groupPriority v > cp_nGroupPriority (compPriority c)" "\<forall>x\<in>set ys. groupPriority x < groupPriority v"
    "\<forall>x\<in>set zs. groupPriority x \<le> groupPriority v" "\<forall>x\<in>set ys. pOMXStandComp x \<noteq> pOMXStandComp v"
    by (auto simp: dec_victim_def)
  from removeComponent_idle [OF t st cb] obtain oc' cv' e' where
    r: "removeComponent (pOMXStandComp v) w = Done OMX_ErrorNone (w\<lparr>comps := (comps w)(pOMXStandComp v \<mapsto> oc'), env := e'\<rparr>)"
    and x: "valid_handle oc' cv'" "queue_elems (messageQ cv') = queue_elems (messageQ cv)
       @ [QMsg \<lparr>messageType = OMX_CommandStateSet, messageParam = u32_of_state OMX_StateLoaded, pCmdData = CmdNull\<rparr>]"
    "cb_trace e' = cb_trace (env w) @ [(pOMXStandComp v, EventError OMX_ErrorResourcesLost 0)]" "sys_answers e' = []"
    by metis
  from dec.get_replaces [OF d r, of self] x(4) obtain w' where
    "get_from MAX_RESOURCE_VIDEO_DEC gpVideoDecRMComponentList write_dec self c w = Done OMX_ErrorNone w'"
    "gpVideoDecRMComponentList w' = ys @ zs @ [\<lparr>pOMXStandComp = self, groupPriority = cp_nGroupPriority (compPriority c)\<rparr>]"
    "comps w' = (comps w)(pOMXStandComp v \<mapsto> oc')" "cb_trace (env w') = cb_trace e'" by auto
  then show ?thesis using c x by (auto simp: SEC_OMX_Get_Resource_def)
qed

theorem idle_victim_is_preempted_witness:
  "\<exists>w'. SEC_OMX_Get_Resource 40 (sample_rm OMX_StateIdle) = Done OMX_ErrorNone w' \<and>
     map pOMXStandComp (gpVideoDecRMComponentList w') = [10, 30, 40] \<and>
     cb_trace (env w') = [(20, EventError OMX_ErrorResourcesLost 0)]"
  using idle_victim_is_preempted [of "sample_rm OMX_StateIdle" 40 "sample_decoder OMX_StateLoaded 2" "[sample_cell 10 5]"
      "sample_cell 20 9" "[sample_cell 30 7]" "sample_dec_handle OMX_StateIdle 9" "sample_decoder OMX_StateIdle 9"]
  by auto

text \<open>C21. An executing or paused victim is not told: it loses its place in the list of decoders in
  use, but no component changes and no callback is made, so it goes on using the hardware
  beside the three decoders the list then counts.\<close>

theorem running_victim_is_not_told:
  assumes c: "private_of w self = Some c" "codecType c = HW_VIDEO_DEC_CODEC" and v: "dec_victim w c ys v zs"
    and t: "private_of w (pOMXStandComp v) = Some cv" and st: "currentState cv \<in> {OMX_StateExecuting, OMX_StatePause}"
    and mem: "sys_answers (env w) = []"
  shows "\<exists>w'. SEC_OMX_Get_Resource self w = Done OMX_ErrorNone w' \<and>
    gpVideoDecRMComponentList w'
      = ys @ zs @ [\<lparr>pOMXStandComp = self, groupPriority = cp_nGroupPriority (compPriority c)\<rparr>] \<and>
    comps w' = comps w \<and> cb_trace (env w') = cb_trace (env w)"
proof -
  from v have d: "length (gpVideoDecRMComponentList w) = MAX_RESOURCE_VIDEO_DEC" "gpVideoDecRMComponentList w = ys @ v # zs"
    "groupPriority v > cp_nGroupPriority (compPriority c)" "\<forall>x\<in>set ys. groupPriority x < groupPriority v"
    "\<forall>x\<in>set zs. groupPriority x \<le> groupPriority v" "\<forall>x\<in>set ys. pOMXStandComp x \<noteq> pOMXStandComp v"
    by (auto simp: dec_victim_def)
  have "removeComponent (pOMXStandComp v) w = Done OMX_ErrorNone w" using removeComponent_running [OF t] st by auto
  from dec.get_replaces [OF d this mem, of self] c show ?thesis by (simp add: SEC_OMX_Get_Resource_def)
qed

theorem running_victim_is_not_told_witness:
  "\<exists>w'. SEC_OMX_Get_Resource 40 (sample_rm OMX_StateExecuting) = Done OMX_ErrorNone w' \<and>
     map pOMXStandComp (gpVideoDecRMComponentList w') = [10, 30, 40] \<and>
     private_of w' 20 = Some (sample_decoder OMX_StateExecuting 9) \<and> cb_trace (env w') = []"
  using running_victim_is_not_told [of "sample_rm OMX_StateExecuting" 40 "sample_decoder OMX_StateLoaded 2" "[sample_cell 10 5]"
      "sample_cell 20 9" "[sample_cell 30 7]" "sample_decoder OMX_StateExecuting 9"]
  by (auto simp: private_of_def sample_dec_handle_def sample_handle_def)

text \<open>C22. Waiting decoders are served in the order they came: when a decoder releases its resource,
  its cell leaves the list of decoders in use and the first of the waiting list is taken from
  that list and sent the command to become idle. It is not entered in the list of decoders in
  use.\<close>

theorem release_wakes_first_waiter:
  assumes c: "private_of w self = Some c" "codecType c = HW_VIDEO_DEC_CODEC"
    and l: "gpVideoDecRMComponentList w = ys @ x # zs" "pOMXStandComp x = self" "\<forall>y\<in>set ys. pOMXStandComp y \<noteq> self"
    and wait: "gpVideoDecRMWaitingList w = f # fs" and t: "can_take w (pOMXStandComp f) oc cf"
  shows "\<exists>w' oc' cf'. SEC_OMX_Release_Resource self w = Done OMX_ErrorNone w' \<and>
    gpVideoDecRMComponentList w' = ys @ zs \<and> gpVideoDecRMWaitingList w' = fs \<and>
    comps w' = (comps w)(pOMXStandComp f \<mapsto> oc') \<and> valid_handle oc' cf' \<and>
    queue_elems (messageQ cf') = queue_elems (messageQ cf)
      @ [QMsg \<lparr>messageType = OMX_CommandStateSet, messageParam = u32_of_state OMX_StateIdle, pCmdData = CmdNull\<rparr>]"
proof -
  obtain w1 where 1: "remove_from gpVideoDecRMComponentList write_dec self w = (OMX_ErrorNone, w1)"
    and w1: "gpVideoDecRMComponentList w1 = ys @ zs" "gpVideoDecRMWaitingList w1 = f # fs" "comps w1 = comps w"
      "sys_answers (env w1) = sys_answers (env w)"
    using unlink_first_split [of ys x zs] l wait by (simp add: remove_from_def removeElementList_def SEC_OSAL_Free_def)
  obtain w2 where 2: "remove_from gpVideoDecRMWaitingList write_dec_wait (pOMXStandComp f) w1 = (OMX_ErrorNone, w2)"
    and w2: "gpVideoDecRMComponentList w2 = ys @ zs" "gpVideoDecRMWaitingList w2 = fs" "comps w2 = comps w"
      "sys_answers (env w2) = sys_answers (env w)"
    using w1 by (simp add: remove_from_def removeElementList_def SEC_OSAL_Free_def)
  have "can_take w2 (pOMXStandComp f) oc cf" using t w2 by (simp add: can_take_def)
  from OMX_SendCommand_StateSet [OF this, of "u32_of_state OMX_StateIdle" CmdNull] obtain oc' cf' e' where
    s: "OMX_SendCommand (pOMXStandComp f) OMX_CommandStateSet (u32_of_state OMX_StateIdle) CmdNull w2
      = Done OMX_ErrorNone (w2\<lparr>comps := (comps w2)(pOMXStandComp f \<mapsto> oc'), env := e'\<rparr>)"
    and q: "valid_handle oc' cf'" "queue_elems (messageQ cf') = queue_elems (messageQ cf)
      @ [QMsg \<lparr>messageType = OMX_CommandStateSet, messageParam = u32_of_state OMX_StateIdle, pCmdData = CmdNull\<rparr>]"
    by metis
  have "SEC_OMX_Release_Resource self w = Done OMX_ErrorNone (w2\<lparr>comps := (comps w2)(pOMXStandComp f \<mapsto> oc'), env := e'\<rparr>)"
    using c l w1 s 1 2 by (simp add: SEC_OMX_Release_Resource_def release_to_def)
  then show ?thesis using q w2 by (intro exI conjI) (assumption, simp_all)
qed

theorem release_wakes_first_waiter_witness:
  "\<exists>w'. SEC_OMX_Release_Resource 10 (sample_rm OMX_StateIdle) = Done OMX_ErrorNone w' \<and>
     map pOMXStandComp (gpVideoDecRMComponentList w') = [20, 30] \<and> gpVideoDecRMWaitingList w' = []"
  using release_wakes_first_waiter [of "sample_rm OMX_StateIdle" 10 "sample_decoder OMX_StateIdle 5" "[]" "sample_cell 10 5"
      "[sample_cell 20 9, sample_cell 30 7]" "sample_cell 50 6" "[]" "sample_dec_handle OMX_StateWaitForResources 6"
      "sample_decoder OMX_StateWaitForResources 6"]
  by auto

end
