(* ===== verification/SEC_StateMachine.thy ===== *)
theory SEC_StateMachine
  imports SEC_Resource
begin

text \<open>
  The thread behind a component, in \<open>SEC_OMX_Basecomponent.c\<close>: the message handler
  \<open>SEC_OMX_MessageHandlerThread\<close>, the state machine \<open>SEC_OMX_ComponentStateSet\<close> it drives, and the
  constructor and destructor of the base component.

  A handled message is one step. A step that waits for a semaphore the client has not
  posted yet is \<open>Blocked\<close>: it can be taken later, after the client has acted.
  \<open>SEC_OSAL_ThreadTerminate\<close> on the buffer thread returns because the thread has been told to
  end; what the thread does in between is in \<open>SEC_Vdec\<close>.
\<close>

section \<open>Starting and stopping the buffer thread\<close>

abbreviation all_port_list :: "int list" where
  "all_port_list \<equiv> map int [0..<ALL_PORT_NUM]"

text \<open>
  Waking the thread where it may sleep. \<open>countValue\<close> is declared outside the loop and keeps
  its value when a semaphore is NULL.
\<close>

primrec wake_ports ::
  "int list \<Rightarrow> int \<Rightarrow> SEC_OMX_BASECOMPONENT \<Rightarrow> (unit, SEC_OMX_BASECOMPONENT) outcome" where
  "wake_ports [] countValue c = Done () c"
| "wake_ports (i # is) countValue c =
    (case port_at c i of
       None \<Rightarrow> Crash
     | Some p \<Rightarrow>
         (let n = snd (SEC_OSAL_Get_SemaphoreCount (bufferSemID p) countValue) in
          wake_ports is n
            (if n = 0 then set_port i (p\<lparr>bufferSemID := snd (SEC_OSAL_SemaphorePost (bufferSemID p))\<rparr>) c else c)))"

primrec terminate_mutexes :: "int list \<Rightarrow> SEC_OMX_BASECOMPONENT \<Rightarrow> omx_env \<Rightarrow> (unit, comp_state) outcome" where
  "terminate_mutexes [] c e = Done () (c, e)"
| "terminate_mutexes (i # is) c e =
    (case array_at (secDataBuffer c) i of
       None \<Rightarrow> Crash
     | Some db \<Rightarrow> terminate_mutexes is (set_dataBuffer i (db\<lparr>bufferMutex := None\<rparr>) c)
                    (snd (SEC_OSAL_MutexTerminate (bufferMutex db) e)))"

primrec terminate_semaphores :: "int list \<Rightarrow> SEC_OMX_BASECOMPONENT \<Rightarrow> omx_env \<Rightarrow> (unit, comp_state) outcome" where
  "terminate_semaphores [] c e = Done () (c, e)"
| "terminate_semaphores (i # is) c e =
    (case port_at c i of
       None \<Rightarrow> Crash
     | Some p \<Rightarrow> terminate_semaphores is (set_port i (p\<lparr>bufferSemID := None\<rparr>) c)
                   (snd (SEC_OSAL_SemaphoreTerminate (bufferSemID p) e)))"

text \<open>The event is released, but the pointer to it is not cleared.\<close>

definition terminate_pause :: "SEC_OMX_BASECOMPONENT \<Rightarrow> omx_env \<Rightarrow> (unit, comp_state) outcome" where
  "terminate_pause c e =
    (if pauseEventFreed c then Crash
     else Done () (c\<lparr>pauseEventFreed := (pauseEvent c \<noteq> None)\<rparr>, snd (SEC_OSAL_SignalTerminate (pauseEvent c) e)))"

definition stop_processing :: "SEC_OMX_BASECOMPONENT \<Rightarrow> omx_env \<Rightarrow> (unit, comp_state) outcome" where
  "stop_processing c e =
    bindO (wake_ports all_port_list 0 (c\<lparr>bExitBufferProcessThread := True\<rparr>)) (\<lambda>_ c1.
    bindO (signal_pause c1) (\<lambda>_ c2.
    bindO (terminate_mutexes all_port_list (c2\<lparr>hBufferProcess := None\<rparr>)
             (snd (SEC_OSAL_ThreadTerminate (hBufferProcess c2) e))) (\<lambda>_ (c3, e3).
    bindO (terminate_pause c3 e3) (\<lambda>_ (c4, e4).
    terminate_semaphores all_port_list c4 e4))))"

text \<open>The result of \<open>SEC_OSAL_SignalCreate\<close> is ignored.\<close>

definition create_pause :: "SEC_OMX_BASECOMPONENT \<Rightarrow> omx_env \<Rightarrow> comp_state" where
  "create_pause c e =
    (case SEC_OSAL_SignalCreate (pauseEvent c) e of (ret, ev, e1) \<Rightarrow>
      (c\<lparr>pauseEvent := ev, pauseEventFreed := (if ret = OMX_ErrorNone then False else pauseEventFreed c)\<rparr>, e1))"

primrec create_semaphores ::
  "int list \<Rightarrow> SEC_OMX_BASECOMPONENT \<Rightarrow> omx_env \<Rightarrow> (OMX_ERRORTYPE, comp_state) outcome" where
  "create_semaphores [] c e = Done OMX_ErrorNone (c, e)"
| "create_semaphores (i # is) c e =
    (case port_at c i of
       None \<Rightarrow> Crash
     | Some p \<Rightarrow>
         (case SEC_OSAL_SemaphoreCreate (bufferSemID p) e of (ret, s, e1) \<Rightarrow>
            if ret \<noteq> OMX_ErrorNone then Done OMX_ErrorInsufficientResources (set_port i (p\<lparr>bufferSemID := s\<rparr>) c, e1)
            else create_semaphores is (set_port i (p\<lparr>bufferSemID := s\<rparr>) c) e1))"

primrec create_mutexes ::
  "int list \<Rightarrow> SEC_OMX_BASECOMPONENT \<Rightarrow> omx_env \<Rightarrow> (OMX_ERRORTYPE, comp_state) outcome" where
  "create_mutexes [] c e = Done OMX_ErrorNone (c, e)"
| "create_mutexes (i # is) c e =
    (case array_at (secDataBuffer c) i of
       None \<Rightarrow> Crash
     | Some db \<Rightarrow>
         (case SEC_OSAL_MutexCreate (bufferMutex db) e of (ret, m, e1) \<Rightarrow>
            if ret \<noteq> OMX_ErrorNone then Done OMX_ErrorInsufficientResources (set_dataBuffer i (db\<lparr>bufferMutex := m\<rparr>) c, e1)
            else create_mutexes is (set_dataBuffer i (db\<lparr>bufferMutex := m\<rparr>) c) e1))"

definition start_processing :: "SEC_OMX_BASECOMPONENT \<Rightarrow> omx_env \<Rightarrow> (OMX_ERRORTYPE, comp_state) outcome" where
  "start_processing c e =
    (case create_pause (c\<lparr>bExitBufferProcessThread := False\<rparr>) e of (c1, e1) \<Rightarrow>
     bindO (create_semaphores all_port_list c1 e1) (\<lambda>ret (c2, e2).
       if ret \<noteq> OMX_ErrorNone then Done ret (c2, e2)
       else bindO (create_mutexes all_port_list c2 e2) (\<lambda>ret (c3, e3).
         if ret \<noteq> OMX_ErrorNone then Done ret (c3, e3)
         else bindO (SEC_OSAL_ThreadCreate e3) (\<lambda>ret (h, e4).
           let c4 = c3\<lparr>hBufferProcess := h\<rparr> in
           if ret \<noteq> OMX_ErrorNone then
             bindO (terminate_pause c4 e4) (\<lambda>_ (c5, e5).
             bindO (terminate_mutexes all_port_list c5 e5) (\<lambda>_ (c6, e6).
             bindO (terminate_semaphores all_port_list c6 e6) (\<lambda>_ (c7, e7).
               Done OMX_ErrorInsufficientResources (c7, e7))))
           else Done OMX_ErrorNone (c4\<lparr>currentState := OMX_StateIdle\<rparr>, e4)))))"

section \<open>The ports of a component that is loaded or unloaded\<close>

primrec unload_ports ::
  "codec_ops \<Rightarrow> int list \<Rightarrow> SEC_OMX_BASECOMPONENT \<Rightarrow> omx_env \<Rightarrow> (OMX_ERRORTYPE, comp_state) outcome" where
  "unload_ports ops [] c e = Done OMX_ErrorNone (c, e)"
| "unload_ports ops (i # is) c e =
    (case port_at c i of
       None \<Rightarrow> Crash
     | Some p \<Rightarrow>
         if CHECK_PORT_TUNNELED p \<and> CHECK_PORT_BUFFER_SUPPLIER p then
           bindO (drain_queue (bufferQ p) e) (\<lambda>_ (q, e1).
             case sec_FreeTunnelBuffer ops (p\<lparr>bufferQ := q\<rparr>) i of (ret, p1) \<Rightarrow>
               if ret \<noteq> OMX_ErrorNone then Done ret (set_port i p1 c, e1)
               else unload_ports ops is (set_port i p1 c) e1)
         else if CHECK_PORT_ENABLED p then
           bindO (SEC_OSAL_SemaphoreWait (unloadedResource p)) (\<lambda>_ s.
             unload_ports ops is (set_port i (p\<lparr>unloadedResource := s,
               portDefinition := (portDefinition p)\<lparr>bPopulated := False\<rparr>\<rparr>) c) e)
         else unload_ports ops is c e)"

primrec load_ports ::
  "codec_ops \<Rightarrow> int list \<Rightarrow> SEC_OMX_BASECOMPONENT \<Rightarrow> (OMX_ERRORTYPE, SEC_OMX_BASECOMPONENT) outcome" where
  "load_ports ops [] c = Done OMX_ErrorNone c"
| "load_ports ops (i # is) c =
    (case port_at c i of
       None \<Rightarrow> Crash
     | Some p \<Rightarrow>
         if CHECK_PORT_TUNNELED p \<and> CHECK_PORT_BUFFER_SUPPLIER p then
           if CHECK_PORT_ENABLED p then
             (case sec_AllocateTunnelBuffer ops p i of (ret, p1) \<Rightarrow>
                if ret \<noteq> OMX_ErrorNone then Done ret (set_port i p1 c)
                else load_ports ops is (set_port i p1 c))
           else load_ports ops is c
         else if CHECK_PORT_ENABLED p then
           bindO (SEC_OSAL_SemaphoreWait (loadedResource p)) (\<lambda>_ s.
             load_ports ops is (set_port i (p\<lparr>loadedResource := s,
               portDefinition := (portDefinition p)\<lparr>bPopulated := True\<rparr>\<rparr>) c))
         else load_ports ops is c)"

section \<open>The state machine\<close>

definition to_Invalid :: "codec_ops \<Rightarrow> ptr \<Rightarrow> OMX_STATETYPE \<Rightarrow> rm_world \<Rightarrow> (OMX_ERRORTYPE, rm_world) outcome" where
  "to_Invalid ops self current w =
    (if current \<in> {OMX_StateWaitForResources, OMX_StateIdle, OMX_StateExecuting, OMX_StatePause, OMX_StateLoaded} then
       bindO (if current = OMX_StateWaitForResources then SEC_OMX_Out_WaitForResource self w else Done OMX_ErrorNone w)
         (\<lambda>_ w1. bindO (with_private self (\<lambda>c e.
            let c1 = c\<lparr>currentState := OMX_StateInvalid\<rparr> in
            bindO (if hBufferProcess c1 \<noteq> None then stop_processing c1 e else Done () (c1, e)) (\<lambda>_ (c2, e2).
              sec_mfc_componentTerminate ops self c2 e2)) w1)
          (\<lambda>_ w2. Done OMX_ErrorInvalidState w2))
     else Done OMX_ErrorInvalidState w)"

definition set_currentState :: "ptr \<Rightarrow> OMX_STATETYPE \<Rightarrow> rm_world \<Rightarrow> (OMX_ERRORTYPE, rm_world) outcome" where
  "set_currentState self st =
    with_private self (\<lambda>c e. Done OMX_ErrorNone (c\<lparr>currentState := st\<rparr>, e))"

definition idle_to_loaded :: "codec_ops \<Rightarrow> ptr \<Rightarrow> SEC_OMX_BASECOMPONENT \<Rightarrow> omx_env \<Rightarrow> (OMX_ERRORTYPE, comp_state) outcome" where
  "idle_to_loaded ops self c e =
    bindO (stop_processing c e) (\<lambda>_ (c1, e1).
    bindO (sec_mfc_componentTerminate ops self c1 e1) (\<lambda>_ (c2, e2).
    bindO (unload_ports ops (port_range c2) c2 e2) (\<lambda>ret (c3, e3).
      if ret \<noteq> OMX_ErrorNone then Done ret (c3, e3)
      else Done ret (c3\<lparr>currentState := OMX_StateLoaded\<rparr>, e3))))"

definition to_Loaded :: "codec_ops \<Rightarrow> ptr \<Rightarrow> OMX_STATETYPE \<Rightarrow> rm_world \<Rightarrow> (OMX_ERRORTYPE, rm_world) outcome" where
  "to_Loaded ops self current w =
    (case current of
       OMX_StateIdle \<Rightarrow> with_private self (idle_to_loaded ops self) w
     | OMX_StateWaitForResources \<Rightarrow>
         bindO (SEC_OMX_Out_WaitForResource self w) (\<lambda>ret w1.
         bindO (set_currentState self OMX_StateLoaded w1) (\<lambda>_ w2. Done ret w2))
     | _ \<Rightarrow> Done OMX_ErrorIncorrectStateTransition w)"

definition loaded_to_idle :: "codec_ops \<Rightarrow> ptr \<Rightarrow> SEC_OMX_BASECOMPONENT \<Rightarrow> omx_env \<Rightarrow> (OMX_ERRORTYPE, comp_state) outcome" where
  "loaded_to_idle ops self c e =
    bindO (load_ports ops (port_range c) c) (\<lambda>ret c1.
      if ret \<noteq> OMX_ErrorNone then Done ret (c1, e)
      else bindO (sec_mfc_componentInit ops self c1 e) (\<lambda>ret (c2, e2).
        if ret \<noteq> OMX_ErrorNone then Done ret (c2, e2) else start_processing c2 e2))"

text \<open>A call that takes the handle, in the state of all components.\<close>

definition with_handle ::
  "ptr \<Rightarrow> (OMX_COMPONENTTYPE option \<Rightarrow> omx_env \<Rightarrow> ('r, OMX_COMPONENTTYPE option \<times> omx_env) outcome) \<Rightarrow>
   rm_world \<Rightarrow> ('r, rm_world) outcome" where
  "with_handle self f w =
    map_state (\<lambda>(h, e). w\<lparr>comps := (comps w)(self := h), env := e\<rparr>) (f (comps w self) (env w))"

definition to_Idle :: "codec_ops \<Rightarrow> ptr \<Rightarrow> OMX_STATETYPE \<Rightarrow> rm_world \<Rightarrow> (OMX_ERRORTYPE, rm_world) outcome" where
  "to_Idle ops self current w =
    (if current = OMX_StateLoaded then with_private self (loaded_to_idle ops self) w
     else if current = OMX_StateExecuting \<or> current = OMX_StatePause then
       bindO (with_handle self (\<lambda>h. SEC_OMX_BufferFlushProcessNoEvent ops self h ALL_PORT_INDEX) w)
         (\<lambda>_ w1. set_currentState self OMX_StateIdle w1)
     else if current = OMX_StateWaitForResources then set_currentState self OMX_StateIdle w
     else Done OMX_ErrorIncorrectStateTransition w)"

definition tunnel_source :: "SEC_OMX_BASEPORT \<Rightarrow> bool" where
  "tunnel_source p \<longleftrightarrow> CHECK_PORT_TUNNELED p \<and> CHECK_PORT_BUFFER_SUPPLIER p \<and> CHECK_PORT_ENABLED p"

definition post_many :: "nat \<Rightarrow> SEC_OMX_BASEPORT \<Rightarrow> SEC_OMX_BASEPORT" where
  "post_many n p = p\<lparr>bufferSemID := ((\<lambda>s. snd (SEC_OSAL_SemaphorePost s)) ^^ n) (bufferSemID p)\<rparr>"

definition idle_to_executing :: "SEC_OMX_BASECOMPONENT \<Rightarrow> omx_env \<Rightarrow> (OMX_ERRORTYPE, comp_state) outcome" where
  "idle_to_executing c e =
    (case modify_ports (\<lambda>p. if tunnel_source p then post_many (unat (tunnelBufferNum p)) p else p) (port_range c) c of
       None \<Rightarrow> Crash
     | Some c1 \<Rightarrow>
         bindO (signal_pause (c1\<lparr>transientState := SEC_OMX_TransStateMax, currentState := OMX_StateExecuting\<rparr>))
           (\<lambda>_ c2. Done OMX_ErrorNone (c2, e)))"

definition missing_posts :: "SEC_OMX_BASEPORT \<Rightarrow> nat" where
  "missing_posts p = nat (SEC_OSAL_GetElemNum (bufferQ p) - snd (SEC_OSAL_Get_SemaphoreCount (bufferSemID p) 0))"

definition pause_to_executing :: "SEC_OMX_BASECOMPONENT \<Rightarrow> omx_env \<Rightarrow> (OMX_ERRORTYPE, comp_state) outcome" where
  "pause_to_executing c e =
    (case modify_ports (\<lambda>p. if tunnel_source p then post_many (missing_posts p) p else p) (port_range c) c of
       None \<Rightarrow> Crash
     | Some c1 \<Rightarrow>
         bindO (signal_pause (c1\<lparr>currentState := OMX_StateExecuting\<rparr>)) (\<lambda>_ c2. Done OMX_ErrorNone (c2, e)))"

definition to_Executing :: "ptr \<Rightarrow> OMX_STATETYPE \<Rightarrow> rm_world \<Rightarrow> (OMX_ERRORTYPE, rm_world) outcome" where
  "to_Executing self current w =
    (case current of
       OMX_StateIdle \<Rightarrow> with_private self idle_to_executing w
     | OMX_StatePause \<Rightarrow> with_private self pause_to_executing w
     | _ \<Rightarrow> Done OMX_ErrorIncorrectStateTransition w)"

definition to_Pause :: "ptr \<Rightarrow> OMX_STATETYPE \<Rightarrow> rm_world \<Rightarrow> (OMX_ERRORTYPE, rm_world) outcome" where
  "to_Pause self current w =
    (if current = OMX_StateIdle \<or> current = OMX_StateExecuting then set_currentState self OMX_StatePause w
     else Done OMX_ErrorIncorrectStateTransition w)"

definition to_WaitForResources :: "ptr \<Rightarrow> OMX_STATETYPE \<Rightarrow> rm_world \<Rightarrow> (OMX_ERRORTYPE, rm_world) outcome" where
  "to_WaitForResources self current w =
    (if current = OMX_StateLoaded then
       bindO (SEC_OMX_In_WaitForResource self w) (\<lambda>ret w1.
       bindO (set_currentState self OMX_StateWaitForResources w1) (\<lambda>_ w2. Done ret w2))
     else Done OMX_ErrorIncorrectStateTransition w)"

definition state_switch ::
  "codec_ops \<Rightarrow> ptr \<Rightarrow> OMX_STATETYPE \<Rightarrow> OMX_STATETYPE \<Rightarrow> rm_world \<Rightarrow> (OMX_ERRORTYPE, rm_world) outcome" where
  "state_switch ops self current destState w =
    (case destState of
       OMX_StateInvalid \<Rightarrow> to_Invalid ops self current w
     | OMX_StateLoaded \<Rightarrow> to_Loaded ops self current w
     | OMX_StateIdle \<Rightarrow> to_Idle ops self current w
     | OMX_StateExecuting \<Rightarrow> to_Executing self current w
     | OMX_StatePause \<Rightarrow> to_Pause self current w
     | OMX_StateWaitForResources \<Rightarrow> to_WaitForResources self current w
     | _ \<Rightarrow> Done OMX_ErrorIncorrectStateTransition w)"

definition gives_up_resource :: "OMX_STATETYPE \<Rightarrow> OMX_STATETYPE \<Rightarrow> bool" where
  "gives_up_resource current destState \<longleftrightarrow>
     current = OMX_StateIdle \<and> destState = OMX_StateLoaded \<or>
     current = OMX_StateIdle \<and> destState = OMX_StateInvalid \<or>
     current = OMX_StateExecuting \<and> destState = OMX_StateInvalid \<or>
     current = OMX_StatePause \<and> destState = OMX_StateInvalid"

definition state_change ::
  "codec_ops \<Rightarrow> ptr \<Rightarrow> OMX_STATETYPE \<Rightarrow> OMX_STATETYPE \<Rightarrow> rm_world \<Rightarrow> (OMX_ERRORTYPE, rm_world) outcome" where
  "state_change ops self current destState w =
    (if current = destState then Done OMX_ErrorSameState w
     else if current = OMX_StateInvalid then Done OMX_ErrorInvalidState w
     else bindO (if current = OMX_StateLoaded \<and> destState = OMX_StateIdle then SEC_OMX_Get_Resource self w
                 else Done OMX_ErrorNone w) (\<lambda>ret w1.
       if ret \<noteq> OMX_ErrorNone then Done ret w1
       else bindO (if gives_up_resource current destState then SEC_OMX_Release_Resource self w1
                   else Done OMX_ErrorNone w1) (\<lambda>_ w2.
         state_switch ops self current destState w2)))"

text \<open>The exit: the result is told to the client, if it has set its callbacks.\<close>

definition tell_result ::
  "ptr \<Rightarrow> OMX_STATETYPE \<Rightarrow> OMX_ERRORTYPE \<Rightarrow> SEC_OMX_BASECOMPONENT \<Rightarrow> omx_env \<Rightarrow> (OMX_ERRORTYPE, comp_state) outcome" where
  "tell_result self destState ret c e =
    Done ret (c, if pCallbacks c = None then e
                 else record_call self
                   (if ret = OMX_ErrorNone then EventCmdComplete OMX_CommandStateSet (u32_of_state destState)
                    else EventError ret 0) e)"

definition SEC_OMX_ComponentStateSet ::
  "codec_ops \<Rightarrow> ptr \<Rightarrow> u32 \<Rightarrow> rm_world \<Rightarrow> (OMX_ERRORTYPE, rm_world) outcome" where
  "SEC_OMX_ComponentStateSet ops self nParam w =
    (case private_of w self of
       None \<Rightarrow> Crash
     | Some c \<Rightarrow>
         let destState = state_of_u32 nParam in
         bindO (state_change ops self (currentState c) destState w) (\<lambda>ret w1.
           with_private self (tell_result self destState ret) w1))"

section \<open>The message handler\<close>

text \<open>
  \<open>OMX_CommandMarkBuffer\<close> follows the pointer the client gave with the command; the port index
  was checked when the command was sent.
\<close>

definition mark_port :: "u32 \<Rightarrow> cmd_data \<Rightarrow> SEC_OMX_BASECOMPONENT \<Rightarrow> omx_env \<Rightarrow> (OMX_ERRORTYPE, comp_state) outcome" where
  "mark_port portIndex d c e =
    (case d of
       CmdMark m \<Rightarrow>
         (case modify_port (uint portIndex) (\<lambda>p. p\<lparr>markType := m\<rparr>) c of
            None \<Rightarrow> Crash | Some c1 \<Rightarrow> Done OMX_ErrorNone (c1, e))
     | _ \<Rightarrow> Crash)"

definition handle_message :: "codec_ops \<Rightarrow> ptr \<Rightarrow> SEC_OMX_MESSAGE \<Rightarrow> rm_world \<Rightarrow> (OMX_ERRORTYPE, rm_world) outcome" where
  "handle_message ops self m w =
    (case messageType m of
       OMX_CommandStateSet \<Rightarrow> SEC_OMX_ComponentStateSet ops self (messageParam m) w
     | OMX_CommandFlush \<Rightarrow>
         with_handle self (\<lambda>h. SEC_OMX_BufferFlushProcess ops self h (sint (messageParam m))) w
     | OMX_CommandPortDisable \<Rightarrow>
         with_handle self (\<lambda>h. SEC_OMX_PortDisableProcess ops self h (sint (messageParam m))) w
     | OMX_CommandPortEnable \<Rightarrow>
         with_handle self (\<lambda>h. SEC_OMX_PortEnableProcess ops self h (sint (messageParam m))) w
     | OMX_CommandMarkBuffer \<Rightarrow> with_private self (mark_port (messageParam m) (pCmdData m)) w
     | SEC_OMX_CommandComponentDeInit \<Rightarrow>
         with_private self (\<lambda>c e. Done OMX_ErrorNone (c\<lparr>bExitMessageHandlerThread := True\<rparr>, e)) w
     | _ \<Rightarrow> Done OMX_ErrorNone w)"

text \<open>The head of the loop: wait for a message and take it from the queue.\<close>

definition take_message :: "SEC_OMX_BASECOMPONENT \<Rightarrow> omx_env \<Rightarrow> (queue_item option, comp_state) outcome" where
  "take_message c e =
    bindO (SEC_OSAL_SemaphoreWait (msgSemaphoreHandle c)) (\<lambda>_ s.
    bindO (SEC_OSAL_Dequeue (messageQ c)) (\<lambda>item q.
      Done item (c\<lparr>msgSemaphoreHandle := s, messageQ := q\<rparr>, e)))"

text \<open>One round of the loop; a message is released after it has been handled.\<close>

definition handler_round :: "codec_ops \<Rightarrow> ptr \<Rightarrow> rm_world \<Rightarrow> (unit, rm_world) outcome" where
  "handler_round ops self w =
    bindO (with_private self take_message w) (\<lambda>item w1.
      case item of
        None \<Rightarrow> Done () w1
      | Some (QMsg m) \<Rightarrow>
          bindO (handle_message ops self m w1) (\<lambda>_ w2. Done () (w2\<lparr>env := SEC_OSAL_Free (Some m) (env w2)\<rparr>))
      | Some QPort \<Rightarrow> Crash)"

text \<open>The loop, until the component is told to end; \<open>None\<close> if that never happens.\<close>

partial_function (option) handler_loop :: "codec_ops \<Rightarrow> ptr \<Rightarrow> rm_world \<Rightarrow> (unit, rm_world) outcome option" where
  "handler_loop ops self w =
    (case private_of w self of
       None \<Rightarrow> Some Crash
     | Some c \<Rightarrow>
         if bExitMessageHandlerThread c then Some (Done () w)
         else (case handler_round ops self w of
                 Done _ w1 \<Rightarrow> handler_loop ops self w1
               | Blocked \<Rightarrow> Some Blocked
               | Diverges \<Rightarrow> Some Diverges
               | Crash \<Rightarrow> Some Crash))"

definition SEC_OMX_MessageHandlerThread :: "codec_ops \<Rightarrow> ptr \<Rightarrow> rm_world \<Rightarrow> (OMX_ERRORTYPE, rm_world) outcome option" where
  "SEC_OMX_MessageHandlerThread ops self w =
    (case comps w self of
       None \<Rightarrow> Some (Done OMX_ErrorBadParameter w)
     | Some oc \<Rightarrow>
         let ret = SEC_OMX_Check_SizeVersion (Some oc) sizeof_OMX_COMPONENTTYPE in
         if ret \<noteq> OMX_ErrorNone then Some (Done ret w)
         else map_option (\<lambda>r. bindO r (\<lambda>_ w1. Done OMX_ErrorNone w1)) (handler_loop ops self w))"

section \<open>Construction and destruction of the base component\<close>

definition SEC_OMX_BaseComponent_Constructor ::
  "OMX_COMPONENTTYPE option \<Rightarrow> omx_env \<Rightarrow> (OMX_ERRORTYPE, OMX_COMPONENTTYPE option \<times> omx_env) outcome" where
  "SEC_OMX_BaseComponent_Constructor hComponent e =
    (case hComponent of
       None \<Rightarrow> Done OMX_ErrorBadParameter (hComponent, e)
     | Some oc \<Rightarrow>
         (case SEC_OSAL_Malloc e of
            (None, e1) \<Rightarrow> Done OMX_ErrorInsufficientResources (hComponent, e1)
          | (Some _, e1) \<Rightarrow>
              let c0 = zero_BASECOMPONENT; put = (\<lambda>c. Some (oc\<lparr>pComponentPrivate := Some c\<rparr>)) in
              (case SEC_OSAL_SemaphoreCreate (msgSemaphoreHandle c0) e1 of (ret, s, e2) \<Rightarrow>
               let c1 = c0\<lparr>msgSemaphoreHandle := s\<rparr> in
               if ret \<noteq> OMX_ErrorNone then Done OMX_ErrorInsufficientResources (put c1, e2)
               else (case SEC_OSAL_MutexCreate (compMutex c1) e2 of (ret, m, e3) \<Rightarrow>
                 let c2 = c1\<lparr>compMutex := m\<rparr> in
                 if ret \<noteq> OMX_ErrorNone then Done OMX_ErrorInsufficientResources (put c2, e3)
                 else bindO (SEC_OSAL_QueueCreate (messageQ c2) e3) (\<lambda>_ (q, e4).
                   let c3 = c2\<lparr>bExitMessageHandlerThread := False, messageQ := q\<rparr> in
                   bindO (SEC_OSAL_ThreadCreate e4) (\<lambda>ret (h, e5).
                     let c4 = c3\<lparr>hMessageHandler := h\<rparr> in
                     if ret \<noteq> OMX_ErrorNone then Done OMX_ErrorInsufficientResources (put c4, e5)
                     else Done OMX_ErrorNone
                       (Some (oc\<lparr>pComponentPrivate := Some c4,
                          api := [M_GetComponentVersion, M_SendCommand, M_GetState, M_SetCallbacks, M_UseEGLImage]
                                 @ api oc\<rparr>), e5)))))))"

text \<open>
  The destructor queues the last command, wakes the handler and joins it: the handler first
  works through everything that was queued before. The handle keeps a pointer to the
  private part that is released at the end, so that it must not be used any more; its
  address leaves \<open>comps\<close>.
\<close>

definition queue_deinit :: "SEC_OMX_BASECOMPONENT \<Rightarrow> omx_env \<Rightarrow> (unit, comp_state) outcome" where
  "queue_deinit c e =
    bindO (SEC_OMX_CommandQueue SEC_OMX_CommandComponentDeInit 0 CmdNull c e) (\<lambda>_ (c1, e1).
      let semaValue = snd (SEC_OSAL_Get_SemaphoreCount (msgSemaphoreHandle c1) 0);
          s1 = (if semaValue = 0 then snd (SEC_OSAL_SemaphorePost (msgSemaphoreHandle c1)) else msgSemaphoreHandle c1)
      in Done () (c1\<lparr>msgSemaphoreHandle := snd (SEC_OSAL_SemaphorePost s1)\<rparr>, e1))"

definition free_base :: "SEC_OMX_BASECOMPONENT \<Rightarrow> omx_env \<Rightarrow> (unit, omx_env) outcome" where
  "free_base c e =
    (let e1 = snd (SEC_OSAL_ThreadTerminate (hMessageHandler c) e);
         e2 = snd (SEC_OSAL_MutexTerminate (compMutex c) e1);
         e3 = snd (SEC_OSAL_SemaphoreTerminate (msgSemaphoreHandle c) e2)
     in bindO (SEC_OSAL_QueueTerminate (messageQ c) e3) (\<lambda>_ (_, e4). Done () (SEC_OSAL_Free (Some c) e4)))"

definition join_handler :: "codec_ops \<Rightarrow> ptr \<Rightarrow> rm_world \<Rightarrow> (unit, rm_world) outcome option" where
  "join_handler ops self w =
    (if Option.bind (private_of w self) hMessageHandler = None then Some (Done () w) else handler_loop ops self w)"

definition SEC_OMX_BaseComponent_Destructor ::
  "codec_ops \<Rightarrow> ptr \<Rightarrow> rm_world \<Rightarrow> (OMX_ERRORTYPE, rm_world) outcome option" where
  "SEC_OMX_BaseComponent_Destructor ops self w =
    (case comps w self of
       None \<Rightarrow> Some (Done OMX_ErrorBadParameter w)
     | Some oc \<Rightarrow>
         let ret = SEC_OMX_Check_SizeVersion (Some oc) sizeof_OMX_COMPONENTTYPE in
         if ret \<noteq> OMX_ErrorNone then Some (Done ret w)
         else if pComponentPrivate oc = None then Some (Done OMX_ErrorBadParameter w)
         else (case with_private self queue_deinit w of
             Done _ w1 \<Rightarrow>
               map_option (\<lambda>r. bindO r (\<lambda>_ w2.
                 case private_of w2 self of
                   None \<Rightarrow> Crash
                 | Some c \<Rightarrow> bindO (free_base c (env w2)) (\<lambda>_ e.
                     Done OMX_ErrorNone (w2\<lparr>comps := (comps w2)(self := None), env := e\<rparr>))))
                 (join_handler ops self w1)
           | Blocked \<Rightarrow> Some Blocked | Diverges \<Rightarrow> Some Diverges | Crash \<Rightarrow> Some Crash))"

section \<open>The resource manager does not change the state of a component\<close>

definition states_kept :: "rm_world \<Rightarrow> rm_world \<Rightarrow> bool" where
  "states_kept w w' \<longleftrightarrow>
     (\<forall>p. map_option currentState (private_of w' p) = map_option currentState (private_of w p))"

lemma states_kept_refl [simp]: "states_kept w w" by (simp add: states_kept_def)

lemma states_kept_trans: "states_kept a b \<Longrightarrow> states_kept b c \<Longrightarrow> states_kept a c"
  by (simp add: states_kept_def)


lemma states_kept_lists [simp]: "comps w' = comps w \<Longrightarrow> states_kept w w'"
  by (simp add: states_kept_def private_of_def)

lemma CommandQueue_state:
  "SEC_OMX_CommandQueue Cmd n d c e = Done r (c', e') \<Longrightarrow> currentState c' = currentState c"
  by (cases "SEC_OSAL_SemaphorePost (msgSemaphoreHandle c)"; cases "SEC_OSAL_Malloc e"; cases "fst (SEC_OSAL_Malloc e)")
     (auto simp: SEC_OMX_CommandQueue_def bindO_eq_Done_iff split: if_splits)

lemma SendCommand_body_state:
  "SendCommand_body Cmd n d c e = Done r (c', e') \<Longrightarrow> currentState c' = currentState c"
  by (auto simp: SendCommand_body_def bindO_eq_Done_iff split: if_splits
      dest!: command_check_same CommandQueue_state dest: same_but_ports_fields(3))

lemma OMX_SendCommand_states_kept:
  assumes "OMX_SendCommand p Cmd n d w = Done r w'"
  shows "states_kept w w'"
proof -
  from assms obtain oc h e' where oc: "comps w p = Some oc"
    and s: "SEC_OMX_SendCommand (Some oc) Cmd n d (env w) = Done r (h, e')"
    and w': "w' = w\<lparr>comps := (comps w)(p := h), env := e'\<rparr>"
    by (auto simp: OMX_SendCommand_def map_state_eq_Done_iff split: option.splits if_splits)
  from s have "h = Some oc \<or> (\<exists>c c'. pComponentPrivate oc = Some c \<and> h = Some (oc\<lparr>pComponentPrivate := Some c'\<rparr>)
      \<and> currentState c' = currentState c)"
    by (auto simp: SEC_OMX_SendCommand_def entry_def entry_with_def Let_def map_state_eq_Done_iff
        split: if_splits option.splits dest: SendCommand_body_state)
  then show ?thesis using oc w' by (auto simp: states_kept_def private_of_def)
qed

lemma with_private_callback_states_kept:
  "with_private p (callback q cb) w = Done r w' \<Longrightarrow> states_kept w w'"
  by (auto simp: with_private_def callback_def states_kept_def private_of_def split: option.splits)

lemma removeComponent_states_kept: "removeComponent p w = Done r w' \<Longrightarrow> states_kept w w'"
  by (auto simp: removeComponent_def bindO_eq_Done_iff split: option.splits if_splits
      dest!: OMX_SendCommand_states_kept with_private_callback_states_kept intro: states_kept_trans)

lemma add_to_comps:
  assumes "\<And>xs w. comps (wr xs w) = comps w"
  shows "comps (snd (add_to rd wr self c w)) = comps w"
  using assms by (auto simp: add_to_def split: prod.splits)

lemma remove_from_comps:
  assumes "\<And>xs w. comps (wr xs w) = comps w"
  shows "comps (snd (remove_from rd wr self w)) = comps w"
  using assms by (auto simp: remove_from_def split: prod.splits)

lemma get_from_states_kept:
  assumes "get_from limit rd wr self c w = Done r w'" and wr: "\<And>xs w. comps (wr xs w) = comps w"
  shows "states_kept w w'"
  using assms(1)
proof (cases rule: get_from_elim)
  case (kept v r1)
  then show ?thesis by (simp add: removeComponent_states_kept)
next
  case (replaced v w1)
  then show ?thesis
    using removeComponent_states_kept [OF replaced(3)] add_to_comps [OF wr] remove_from_comps [OF wr]
    by (auto intro: states_kept_trans)
qed (simp_all add: add_to_comps [OF wr])

lemma Get_Resource_states_kept: "SEC_OMX_Get_Resource self w = Done r w' \<Longrightarrow> states_kept w w'"
  by (auto simp: SEC_OMX_Get_Resource_def split: option.splits if_splits intro: get_from_states_kept)

lemma release_to_states_kept:
  assumes "release_to rd wr rd2 wr2 self w = Done r w'"
    and wr: "\<And>xs w. comps (wr xs w) = comps w" "\<And>xs w. comps (wr2 xs w) = comps w"
  shows "states_kept w w'"
proof (cases "rd w = []")
  case True
  then show ?thesis using assms(1) by (simp add: release_to_def)
next
  case False
  obtain r1 w1 where 1: "remove_from rd wr self w = (r1, w1)" by (cases "remove_from rd wr self w")
  have "comps w1 = comps w" using remove_from_comps [of wr rd self w, OF wr(1)] 1 by simp
  then have k: "states_kept w w1" by simp
  show ?thesis
  proof (cases "r1 = OMX_ErrorNone \<and> rd2 w1 \<noteq> []")
    case True
    then obtain x xs where "rd2 w1 = x # xs" by (cases "rd2 w1") auto
    then have s: "OMX_SendCommand (pOMXStandComp x) OMX_CommandStateSet (u32_of_state OMX_StateIdle) CmdNull
        (snd (remove_from rd2 wr2 (pOMXStandComp x) w1)) = Done r w'"
      using assms(1) False 1 True by (simp add: release_to_def)
    have "states_kept w1 (snd (remove_from rd2 wr2 (pOMXStandComp x) w1))"
      by (rule states_kept_lists) (rule remove_from_comps, rule wr(2))
    then show ?thesis using k OMX_SendCommand_states_kept [OF s] states_kept_trans by blast
  next
    case no: False
    then have "w' = w1" using assms(1) False 1 by (cases "rd2 w1") (auto simp: release_to_def split: if_splits)
    then show ?thesis using k by simp
  qed
qed

lemma Release_Resource_states_kept: "SEC_OMX_Release_Resource self w = Done r w' \<Longrightarrow> states_kept w w'"
  by (auto simp: SEC_OMX_Release_Resource_def split: option.splits if_splits intro: release_to_states_kept)

lemma In_Wait_states_kept: "SEC_OMX_In_WaitForResource self w = Done r w' \<Longrightarrow> states_kept w w'"
  by (auto simp: SEC_OMX_In_WaitForResource_def add_to_def split: option.splits if_splits prod.splits)

lemma Out_Wait_states_kept: "SEC_OMX_Out_WaitForResource self w = Done r w' \<Longrightarrow> states_kept w w'"
  by (auto simp: SEC_OMX_Out_WaitForResource_def remove_from_def split: option.splits if_splits prod.splits)

lemmas rm_states_kept = Get_Resource_states_kept Release_Resource_states_kept In_Wait_states_kept Out_Wait_states_kept

section \<open>The transition table\<close>





lemma set_port_currentState [simp]: "currentState (set_port i p c) = currentState c"
  by (simp add: set_port_def)

lemma set_dataBuffer_currentState [simp]: "currentState (set_dataBuffer i db c) = currentState c"
  by (simp add: set_dataBuffer_def)













lemma with_private_Done:
  assumes "private_of w p = Some c"
  shows "with_private p body w = Done r w' \<longleftrightarrow>
    (\<exists>c' e'. body c (env w) = Done r (c', e') \<and>
       w' = w\<lparr>comps := (comps w)(p \<mapsto> (the (comps w p))\<lparr>pComponentPrivate := Some c'\<rparr>), env := e'\<rparr>)"
  using assms by (cases "comps w p") (auto simp: with_private_def private_of_def map_state_eq_Done_iff)




















text \<open>A codec that succeeds and keeps its own state to itself.\<close>

definition sample_ops :: codec_ops where
  "sample_ops = vdec_ops (\<lambda>_ c e. Done OMX_ErrorNone (c, e)) (\<lambda>_ c e. Done OMX_ErrorNone (c, e))"



section \<open>From Loaded to Idle and back\<close>

text \<open>An environment in which nothing fails, after \<open>k\<close> more blocks have been taken.\<close>

definition grown :: "int \<Rightarrow> omx_env \<Rightarrow> omx_env \<Rightarrow> bool" where
  "grown k e e' \<longleftrightarrow> sys_answers e' = [] \<and> live_blocks e' = live_blocks e + k \<and> cb_trace e' = cb_trace e \<and> hdr_heap e' = hdr_heap e"

lemma grown_trans: "grown j e e1 \<Longrightarrow> grown k e1 e2 \<Longrightarrow> grown (j + k) e e2"
  by (simp add: grown_def)

lemma grown_refl: "sys_answers e = [] \<Longrightarrow> grown 0 e e"
  by (simp add: grown_def)

lemma grown_Free: "sys_answers e = [] \<Longrightarrow> grown (- 1) e (SEC_OSAL_Free (Some p) e)"
  by (simp add: grown_def)



lemma SemaphoreCreate_grown:
  assumes "sys_answers e = []"
  obtains e' where "SEC_OSAL_SemaphoreCreate s e = (OMX_ErrorNone, Some 0, e')" "grown 1 e e'"
  using assms by (auto simp: SEC_OSAL_SemaphoreCreate_def osal_rules grown_def)

lemma MutexCreate_grown:
  assumes "sys_answers e = []"
  obtains m e' where "SEC_OSAL_MutexCreate h e = (OMX_ErrorNone, Some m, e')" "grown 1 e e'"
  using assms by (auto simp: SEC_OSAL_MutexCreate_def osal_rules grown_def)

lemma ThreadCreate_grown:
  assumes "sys_answers e = []"
  obtains t e' where "SEC_OSAL_ThreadCreate e = Done OMX_ErrorNone (Some t, e')" "grown 1 e e'"
  using assms by (auto simp: SEC_OSAL_ThreadCreate_def osal_rules grown_def)

text \<open>The resources of a component whose buffer thread runs.\<close>

definition processing :: "SEC_OMX_BASECOMPONENT \<Rightarrow> bool" where
  "processing c \<longleftrightarrow> hBufferProcess c \<noteq> None \<and> pauseEvent c \<noteq> None \<and> \<not> pauseEventFreed c \<and>
     (\<forall>p\<in>set (pSECPort c). bufferSemID p \<noteq> None) \<and> (\<forall>d\<in>set (secDataBuffer c). bufferMutex d \<noteq> None)"









text \<open>The codec, for the life cycle of the base component.\<close>

definition codec_inert :: "codec_ops \<Rightarrow> bool" where
  "codec_inert ops \<longleftrightarrow> (\<forall>self c e. sec_mfc_componentInit ops self c e = Done OMX_ErrorNone (c, e) \<and>
     sec_mfc_componentTerminate ops self c e = Done OMX_ErrorNone (c, e))"



lemma SemaphoreWait_pos: "n \<noteq> 0 \<Longrightarrow> SEC_OSAL_SemaphoreWait (Some n) = Done OMX_ErrorNone (Some (n - 1))"
  by (cases n) auto







text \<open>The result of \<open>SEC_OMX_ComponentStateSet\<close> when its body works on the component alone.\<close>

lemma with_private_run:
  assumes "private_of w self = Some c" "body c (env w) = Done r (c', e')"
  obtains w' where "with_private self body w = Done r w'" "private_of w' self = Some c'" "env w' = e'"
    "gpVideoDecRMComponentList w' = gpVideoDecRMComponentList w" "gpVideoDecRMWaitingList w' = gpVideoDecRMWaitingList w"
  using assms with_private_Done [OF assms(1), of body r] by (auto simp: private_of_def)

lemma tell_result_run:
  assumes "private_of w self = Some c" "pCallbacks c = Some cb"
  obtains w' where "with_private self (tell_result self d r) w = Done r w'" "private_of w' self = Some c"
    "env w' = record_call self (if r = OMX_ErrorNone then EventCmdComplete OMX_CommandStateSet (u32_of_state d)
                    else EventError r 0) (env w)"
    "gpVideoDecRMComponentList w' = gpVideoDecRMComponentList w" "gpVideoDecRMWaitingList w' = gpVideoDecRMWaitingList w"
  using with_private_run [OF assms(1), of "tell_result self d r" r c] assms(2) by (auto simp: tell_result_def)

text \<open>A decoder whose client has populated the enabled ports, and one whose client has emptied them.\<close>

definition populated :: "SEC_OMX_BASECOMPONENT \<Rightarrow> bool" where
  "populated c \<longleftrightarrow> (\<forall>p\<in>set (pSECPort c). tunnelFlags p = 0 \<and> (CHECK_PORT_ENABLED p \<longrightarrow> (\<exists>k. loadedResource p = Some (Suc k))))"

definition emptied :: "SEC_OMX_BASECOMPONENT \<Rightarrow> bool" where
  "emptied c \<longleftrightarrow> (\<forall>p\<in>set (pSECPort c). tunnelFlags p = 0 \<and> (CHECK_PORT_ENABLED p \<longrightarrow> (\<exists>k. unloadedResource p = Some (Suc k))))"

definition decoder_at :: "rm_world \<Rightarrow> ptr \<Rightarrow> SEC_OMX_BASECOMPONENT \<Rightarrow> bool" where
  "decoder_at w self c \<longleftrightarrow> private_of w self = Some c \<and> codecType c = HW_VIDEO_DEC_CODEC \<and> two_ports c \<and>
     length (secDataBuffer c) = ALL_PORT_NUM \<and> pCallbacks c \<noteq> None \<and> sys_answers (env w) = []"



definition sample_ready :: SEC_OMX_BASECOMPONENT where
  "sample_ready = (sample_decoder OMX_StateLoaded 2)\<lparr>pSECPort :=
     [(sample_port 2 100)\<lparr>loadedResource := Some 1\<rparr>, (sample_port 2 200)\<lparr>loadedResource := Some 1\<rparr>]\<rparr>"

definition sample_start :: rm_world where
  "sample_start = (sample_rm OMX_StateIdle)\<lparr>gpVideoDecRMComponentList := [sample_cell 10 5], gpVideoDecRMWaitingList := [],
     comps := [40 \<mapsto> sample_handle sample_ready]\<rparr>"

lemma sample_start_simps [simp]:
  "decoder_at sample_start 40 sample_ready" "currentState sample_ready = OMX_StateLoaded" "populated sample_ready"
  "gpVideoDecRMComponentList sample_start = [sample_cell 10 5]" "gpVideoDecRMWaitingList sample_start = []"
  "env sample_start = sample_env"
  by (simp_all add: sample_start_def decoder_at_def private_of_def sample_handle_def sample_ready_def two_ports_def
      ALL_PORT_NUM_def populated_def sample_decoder_def)

lemma sample_ops_inert [simp]: "codec_inert sample_ops"
  by (simp add: codec_inert_def sample_ops_def vdec_ops_def)



definition sample_running :: SEC_OMX_BASECOMPONENT where
  "sample_running = (sample_decoder OMX_StateIdle 2)\<lparr>hBufferProcess := Some 7,
     secDataBuffer := [zero_DATABUFFER\<lparr>bufferMutex := Some 8\<rparr>, zero_DATABUFFER\<lparr>bufferMutex := Some 9\<rparr>],
     pSECPort := [(sample_port 2 100)\<lparr>unloadedResource := Some 1\<rparr>, (sample_port 2 200)\<lparr>unloadedResource := Some 1\<rparr>]\<rparr>"

definition sample_stop :: rm_world where
  "sample_stop = (sample_rm OMX_StateIdle)\<lparr>gpVideoDecRMComponentList := [sample_cell 10 5, sample_cell 40 2],
     gpVideoDecRMWaitingList := [], comps := [40 \<mapsto> sample_handle sample_running]\<rparr>"

lemma sample_stop_simps [simp]:
  "decoder_at sample_stop 40 sample_running" "currentState sample_running = OMX_StateIdle" "emptied sample_running"
  "processing sample_running" "gpVideoDecRMComponentList sample_stop = [sample_cell 10 5, sample_cell 40 2]"
  "gpVideoDecRMWaitingList sample_stop = []"
  by (simp_all add: sample_stop_def decoder_at_def private_of_def sample_handle_def sample_running_def two_ports_def
      ALL_PORT_NUM_def emptied_def sample_decoder_def processing_def)





text \<open>C27. A decoder that waited for the hardware starts without it. Woken by the release of another
  decoder, it goes from WaitForResources to Idle with success, but nothing that the way from Loaded to
  Idle does is done: it is not entered in the list of decoders in use, its buffer thread does
  not exist, and no memory is taken.\<close>

theorem woken_decoder_holds_nothing:
  assumes c: "private_of w self = Some c" and st: "currentState c = OMX_StateWaitForResources" and cb: "pCallbacks c = Some cb"
  shows "\<exists>w'. SEC_OMX_ComponentStateSet ops self (u32_of_state OMX_StateIdle) w = Done OMX_ErrorNone w' \<and>
    private_of w' self = Some (c\<lparr>currentState := OMX_StateIdle\<rparr>) \<and>
    gpVideoDecRMComponentList w' = gpVideoDecRMComponentList w \<and> gpVideoDecRMWaitingList w' = gpVideoDecRMWaitingList w \<and>
    live_blocks (env w') = live_blocks (env w) \<and>
    cb_trace (env w') = cb_trace (env w) @ [(self, EventCmdComplete OMX_CommandStateSet (u32_of_state OMX_StateIdle))]"
proof -
  let ?c1 = "c\<lparr>currentState := OMX_StateIdle\<rparr>"
  obtain w1 where w1: "set_currentState self OMX_StateIdle w = Done OMX_ErrorNone w1" "private_of w1 self = Some ?c1" "env w1 = env w"
    "gpVideoDecRMComponentList w1 = gpVideoDecRMComponentList w" "gpVideoDecRMWaitingList w1 = gpVideoDecRMWaitingList w"
    unfolding set_currentState_def by (rule with_private_run [OF c]) auto
  from tell_result_run [OF w1(2), of cb OMX_StateIdle OMX_ErrorNone] cb
  obtain w2 where w2: "with_private self (tell_result self OMX_StateIdle OMX_ErrorNone) w1 = Done OMX_ErrorNone w2"
    "private_of w2 self = Some ?c1"
    "env w2 = record_call self (EventCmdComplete OMX_CommandStateSet (u32_of_state OMX_StateIdle)) (env w1)"
    "gpVideoDecRMComponentList w2 = gpVideoDecRMComponentList w" "gpVideoDecRMWaitingList w2 = gpVideoDecRMWaitingList w"
    using w1 by auto
  have "SEC_OMX_ComponentStateSet ops self (u32_of_state OMX_StateIdle) w = Done OMX_ErrorNone w2"
    using c st w1(1) w2(1)
    by (simp add: SEC_OMX_ComponentStateSet_def state_change_def gives_up_resource_def state_switch_def to_Idle_def)
  then show ?thesis using w1 w2 by (intro exI [of _ w2]) (simp add: record_call_def)
qed

theorem woken_decoder_holds_nothing_witness:
  "\<exists>w'. SEC_OMX_ComponentStateSet sample_ops 50 (u32_of_state OMX_StateIdle) (sample_rm OMX_StateIdle) = Done OMX_ErrorNone w' \<and>
     hBufferProcess (the (private_of w' 50)) = None \<and> map pOMXStandComp (gpVideoDecRMComponentList w') = [10, 20, 30]"
proof -
  have "private_of (sample_rm OMX_StateIdle) 50 = Some (sample_decoder OMX_StateWaitForResources 6)"
    by (simp add: private_of_def sample_dec_handle_def sample_handle_def)
  from woken_decoder_holds_nothing [OF this, of 1 sample_ops] show ?thesis
    by (auto simp: sample_decoder_def sample_component_def zero_BASECOMPONENT_def)
qed

section \<open>The message handler\<close>

lemma take_message_first:
  assumes s: "msg_synced c" and q: "queue_elems (messageQ c) = x # xs"
  obtains c' where "take_message c e = Done (Some x) (c', e)" "msg_synced c'" "queue_elems (messageQ c') = xs"
    "c' = c\<lparr>msgSemaphoreHandle := msgSemaphoreHandle c', messageQ := messageQ c'\<rparr>"
proof -
  from s q obtain q' where d: "SEC_OSAL_Dequeue (messageQ c) = Done (Some x) q'" "queue_wf q'" "queue_elems q' = xs"
    using ring.deq_some [of "messageQ c" x xs] by (auto simp: msg_synced_def)
  have "take_message c e = Done (Some x) (c\<lparr>msgSemaphoreHandle := Some (length xs), messageQ := q'\<rparr>, e)"
    using s q d(1) by (simp add: take_message_def msg_synced_def)
  from that [OF this] show thesis using d by (simp add: msg_synced_def)
qed

text \<open>C28. The handler executes the commands of a component one at a time, in the order they were
  queued: a round of its loop takes the oldest message, leaves the others queued with the
  semaphore in step, executes it and releases it; with nothing queued it sleeps.\<close>

theorem handler_takes_oldest:
  assumes c: "private_of w self = Some c" and s: "msg_synced c"
  shows "case queue_elems (messageQ c) of
      [] \<Rightarrow> handler_round ops self w = Blocked
    | QMsg m # ms \<Rightarrow> \<exists>w1 c1. private_of w1 self = Some c1 \<and> msg_synced c1 \<and> queue_elems (messageQ c1) = ms \<and>
        c1 = c\<lparr>msgSemaphoreHandle := msgSemaphoreHandle c1, messageQ := messageQ c1\<rparr> \<and> env w1 = env w \<and>
        handler_round ops self w
          = bindO (handle_message ops self m w1) (\<lambda>_ w2. Done () (w2\<lparr>env := SEC_OSAL_Free (Some m) (env w2)\<rparr>))
    | QPort # _ \<Rightarrow> handler_round ops self w = Crash"
proof (cases "queue_elems (messageQ c)")
  case Nil
  obtain oc where "comps w self = Some oc" "pComponentPrivate oc = Some c"
    using c by (cases "comps w self") (auto simp: private_of_def)
  then show ?thesis using Nil s by (simp add: handler_round_def with_private_def take_message_def msg_synced_def)
next
  case (Cons x xs)
  from take_message_first [OF s Cons, of "env w"] obtain c' where
    t: "take_message c (env w) = Done (Some x) (c', env w)" "msg_synced c'" "queue_elems (messageQ c') = xs"
      "c' = c\<lparr>msgSemaphoreHandle := msgSemaphoreHandle c', messageQ := messageQ c'\<rparr>" by metis
  obtain w1 where w1: "with_private self take_message w = Done (Some x) w1" "private_of w1 self = Some c'" "env w1 = env w"
    using with_private_run [of w self c take_message "Some x" c' "env w", OF c t(1)] by auto
  show ?thesis
  proof (cases x)
    case (QMsg m)
    then have "handler_round ops self w
        = bindO (handle_message ops self m w1) (\<lambda>_ w2. Done () (w2\<lparr>env := SEC_OSAL_Free (Some m) (env w2)\<rparr>))"
      using w1(1) by (simp add: handler_round_def)
    then show ?thesis using Cons QMsg w1(2,3) t(2-4)
      by (auto simp del: Free_simps intro!: exI [of _ w1] exI [of _ c'])
  next
    case QPort
    then show ?thesis using Cons w1(1) by (simp add: handler_round_def)
  qed
qed

section \<open>The life of a base component\<close>

text \<open>The handler of a component that has nothing to do but to end.\<close>

lemma handler_loop_ends:
  assumes c: "private_of w self = Some c" and s: "msgSemaphoreHandle c = Some (Suc n)" "queue_wf (messageQ c)"
    and q: "queue_elems (messageQ c) = [QMsg m]" and m: "messageType m = SEC_OMX_CommandComponentDeInit"
    and r: "\<not> bExitMessageHandlerThread c"
  obtains w' c' where "handler_loop ops self w = Some (Done () w')" "private_of w' self = Some c'"
    "queue_wf (messageQ c')" "queue_elems (messageQ c') = []" "msgSemaphoreHandle c' = Some n"
    "compMutex c' = compMutex c" "hMessageHandler c' = hMessageHandler c"
    "live_blocks (env w') = live_blocks (env w) - 1"
proof -
  obtain q' where d: "SEC_OSAL_Dequeue (messageQ c) = Done (Some (QMsg m)) q'" "queue_wf q'" "queue_elems q' = []"
    using ring.deq_some [OF s(2) q] by auto
  let ?c1 = "c\<lparr>msgSemaphoreHandle := Some n, messageQ := q'\<rparr>"
  let ?c2 = "?c1\<lparr>bExitMessageHandlerThread := True\<rparr>"
  obtain w1 where w1: "with_private self take_message w = Done (Some (QMsg m)) w1" "private_of w1 self = Some ?c1" "env w1 = env w"
    using with_private_run [of w self c take_message "Some (QMsg m)" ?c1 "env w", OF c] s d by (auto simp: take_message_def)
  obtain w2 where w2: "handle_message ops self m w1 = Done OMX_ErrorNone w2" "private_of w2 self = Some ?c2" "env w2 = env w"
    using with_private_run [of w1 self ?c1 "\<lambda>c e. Done OMX_ErrorNone (c\<lparr>bExitMessageHandlerThread := True\<rparr>, e)"
        OMX_ErrorNone ?c2 "env w"] w1 m
    by (auto simp: handle_message_def)
  let ?w3 = "w2\<lparr>env := SEC_OSAL_Free (Some m) (env w2)\<rparr>"
  have round: "handler_round ops self w = Done () ?w3" using w1(1) w2(1) by (simp add: handler_round_def)
  have p3: "private_of ?w3 self = Some ?c2" using w2(2) by (simp add: private_of_def)
  have "handler_loop ops self ?w3 = Some (Done () ?w3)"
    by (subst handler_loop.simps) (simp add: p3 del: Free_simps)
  then have "handler_loop ops self w = Some (Done () ?w3)"
    by (subst handler_loop.simps) (simp add: c r round del: Free_simps)
  from that [OF this p3] show thesis using d w2(3) by simp
qed

lemma free_base_ok:
  assumes "hMessageHandler c = Some t" "compMutex c = Some m" "msgSemaphoreHandle c = Some n" "queue_wf (messageQ c)"
  obtains e' where "free_base c e = Done () e'" "live_blocks e' = live_blocks e - 14"
proof -
  let ?e3 = "SEC_OSAL_Free (Some n) (SEC_OSAL_Free (Some m) (SEC_OSAL_Free (Some t) e))"
  from QueueTerminate_rel [OF queue_wf_rel [THEN iffD1, OF assms(4)], of ?e3] obtain q' e' where
    "SEC_OSAL_QueueTerminate (messageQ c) ?e3 = Done OMX_ErrorNone (q', e')" "live_blocks e' = live_blocks ?e3 - 10"
    by (auto simp: RING_SIZE_def)
  then have "free_base c e = Done () (SEC_OSAL_Free (Some c) e')" "live_blocks (SEC_OSAL_Free (Some c) e') = live_blocks e - 14"
    using assms
    by (simp_all add: free_base_def SEC_OSAL_ThreadTerminate_def SEC_OSAL_MutexTerminate_def SEC_OSAL_SemaphoreTerminate_def)
  then show thesis by (rule that)
qed

lemma queue_deinit_ok:
  assumes s: "msg_synced c" and q: "queue_elems (messageQ c) = []" and mem: "sys_answers e = []"
  obtains c' e' where "queue_deinit c e = Done () (c', e')" "queue_wf (messageQ c')"
    "queue_elems (messageQ c') = [QMsg \<lparr>messageType = SEC_OMX_CommandComponentDeInit, messageParam = 0, pCmdData = CmdNull\<rparr>]"
    "msgSemaphoreHandle c' = Some 2" "compMutex c' = compMutex c" "hMessageHandler c' = hMessageHandler c"
    "bExitMessageHandlerThread c' = bExitMessageHandlerThread c" "live_blocks e' = live_blocks e + 1"
proof -
  let ?m = "QMsg \<lparr>messageType = SEC_OMX_CommandComponentDeInit, messageParam = 0, pCmdData = CmdNull\<rparr>"
  have "length (queue_elems (messageQ c)) < RING_SIZE" using q by (simp add: RING_SIZE_def)
  from CommandQueue_room [OF s this mem, of SEC_OMX_CommandComponentDeInit 0 CmdNull] q
  obtain c1 e1 where 1: "SEC_OMX_CommandQueue SEC_OMX_CommandComponentDeInit 0 CmdNull c e = Done OMX_ErrorNone (c1, e1)"
    "msg_synced c1" "queue_elems (messageQ c1) = [?m]" "live_blocks e1 = live_blocks e + 1"
    and eq: "c1 = c\<lparr>messageQ := messageQ c1, msgSemaphoreHandle := msgSemaphoreHandle c1\<rparr>" by auto
  have f: "compMutex c1 = compMutex c" "hMessageHandler c1 = hMessageHandler c"
    "bExitMessageHandlerThread c1 = bExitMessageHandlerThread c" by (subst eq, simp)+
  have sem: "msgSemaphoreHandle c1 = Some 1" using 1(2,3) by (simp add: msg_synced_def)
  have "queue_deinit c e = Done () (c1\<lparr>msgSemaphoreHandle := Some 2\<rparr>, e1)"
    using 1(1) sem
    by (simp add: queue_deinit_def SEC_OSAL_Get_SemaphoreCount_def SEC_OSAL_SemaphorePost_def SEM_VALUE_MAX_def numeral_2_eq_2)
  from that [OF this] show thesis using 1 f by (simp add: msg_synced_def)
qed

lemma destructor_ok:
  assumes oc: "comps w self = Some oc" "valid_handle oc c" and s: "msg_synced c" "queue_elems (messageQ c) = []"
    and c: "\<not> bExitMessageHandlerThread c" "hMessageHandler c = Some t" "compMutex c = Some m"
    and mem: "sys_answers (env w) = []"
  shows "\<exists>w'. SEC_OMX_BaseComponent_Destructor ops self w = Some (Done OMX_ErrorNone w') \<and>
    live_blocks (env w') = live_blocks (env w) - 14 \<and> comps w' self = None"
proof -
  have p: "private_of w self = Some c" by (rule private_of_valid [OF oc])
  from queue_deinit_ok [OF s mem] obtain c1 e1 where 1: "queue_deinit c (env w) = Done () (c1, e1)" "queue_wf (messageQ c1)"
    "queue_elems (messageQ c1) = [QMsg \<lparr>messageType = SEC_OMX_CommandComponentDeInit, messageParam = 0, pCmdData = CmdNull\<rparr>]"
    "msgSemaphoreHandle c1 = Some 2" "compMutex c1 = compMutex c" "hMessageHandler c1 = hMessageHandler c"
    "bExitMessageHandlerThread c1 = bExitMessageHandlerThread c" "live_blocks e1 = live_blocks (env w) + 1" by blast
  obtain w1 where w1: "with_private self queue_deinit w = Done () w1" "private_of w1 self = Some c1" "env w1 = e1"
    using with_private_run [of w self c queue_deinit "()" c1 e1, OF p 1(1)] by blast
  have sem: "msgSemaphoreHandle c1 = Some (Suc 1)" using 1(4) by simp
  have "\<not> bExitMessageHandlerThread c1" using 1(7) c(1) by simp
  then obtain w2 c2 where 2: "handler_loop ops self w1 = Some (Done () w2)" "private_of w2 self = Some c2" "queue_wf (messageQ c2)"
    "msgSemaphoreHandle c2 = Some 1" "compMutex c2 = compMutex c1" "hMessageHandler c2 = hMessageHandler c1"
    "live_blocks (env w2) = live_blocks (env w1) - 1"
    using handler_loop_ends [OF w1(2) sem 1(2,3), of ops] by (metis SEC_OMX_MESSAGE.select_convs(1))
  have "hMessageHandler c2 = Some t" "compMutex c2 = Some m" using 2(5,6) 1(5,6) c(2,3) by simp_all
  from free_base_ok [OF this 2(4,3), of "env w2"] obtain e' where f: "free_base c2 (env w2) = Done () e'"
    "live_blocks e' = live_blocks (env w2) - 14" by blast
  have "join_handler ops self w1 = Some (Done () w2)" using w1(2) 1(6) c(2) 2(1) by (simp add: join_handler_def)
  moreover have "SEC_OMX_Check_SizeVersion (Some oc) sizeof_OMX_COMPONENTTYPE = OMX_ErrorNone" "pComponentPrivate oc = Some c"
    using oc(2) by (simp_all add: valid_handle_def)
  ultimately have "SEC_OMX_BaseComponent_Destructor ops self w
      = Some (Done OMX_ErrorNone (w2\<lparr>comps := (comps w2)(self := None), env := e'\<rparr>))"
    using oc(1) w1(1) 2(2) f(1) by (simp add: SEC_OMX_BaseComponent_Destructor_def)
  then show ?thesis using f(2) 2(7) w1(3) 1(8) by simp
qed

lemma constructor_ok:
  assumes mem: "sys_answers e = []"
  obtains c' e' t m where "SEC_OMX_BaseComponent_Constructor (Some oc) e = Done OMX_ErrorNone
      (Some (oc\<lparr>pComponentPrivate := Some c',
        api := [M_GetComponentVersion, M_SendCommand, M_GetState, M_SetCallbacks, M_UseEGLImage] @ api oc\<rparr>), e')"
    "grown 14 e e'" "msg_synced c'" "queue_elems (messageQ c') = []" "\<not> bExitMessageHandlerThread c'"
    "hMessageHandler c' = Some t" "compMutex c' = Some m"
proof -
  obtain a0 e1 where 1: "SEC_OSAL_Malloc e = (Some a0, e1)" "grown 1 e e1" using mem by (simp add: Malloc_ok grown_def)
  have s1: "sys_answers e1 = []" using 1(2) by (simp add: grown_def)
  obtain e2 where 2: "SEC_OSAL_SemaphoreCreate None e1 = (OMX_ErrorNone, Some 0, e2)" "grown 1 e1 e2"
    by (rule SemaphoreCreate_grown [OF s1])
  have s2: "sys_answers e2 = []" using 2(2) by (simp add: grown_def)
  obtain m e3 where 3: "SEC_OSAL_MutexCreate None e2 = (OMX_ErrorNone, Some m, e3)" "grown 1 e2 e3"
    by (rule MutexCreate_grown [OF s2])
  have s3: "sys_answers e3 = []" using 3(2) by (simp add: grown_def)
  obtain a b e4 where 4: "SEC_OSAL_QueueCreate (zero_QUEUE :: queue_item SEC_QUEUE) e3 = Done OMX_ErrorNone (fresh_ring a b, e4)" "grown 10 e3 e4"
    using s3 by (simp add: QueueCreate_ok grown_def)
  have s4: "sys_answers e4 = []" using 4(2) by (simp add: grown_def)
  obtain t e5 where 5: "SEC_OSAL_ThreadCreate e4 = Done OMX_ErrorNone (Some t, e5)" "grown 1 e4 e5"
    by (rule ThreadCreate_grown [OF s4])
  have g: "grown 14 e e5" using 1(2) 2(2) 3(2) 4(2) 5(2) by (simp add: grown_def)
  have z: "msgSemaphoreHandle zero_BASECOMPONENT = None" "compMutex zero_BASECOMPONENT = None" "messageQ zero_BASECOMPONENT = zero_QUEUE"
    by (simp_all add: zero_BASECOMPONENT_def)
  let ?c = "zero_BASECOMPONENT\<lparr>msgSemaphoreHandle := Some 0, compMutex := Some m, bExitMessageHandlerThread := False,
      messageQ := fresh_ring a b, hMessageHandler := Some t\<rparr>"
  have "SEC_OMX_BaseComponent_Constructor (Some oc) e = Done OMX_ErrorNone
      (Some (oc\<lparr>pComponentPrivate := Some ?c,
        api := [M_GetComponentVersion, M_SendCommand, M_GetState, M_SetCallbacks, M_UseEGLImage] @ api oc\<rparr>), e5)"
    using 1(1) 2(1) 3(1) 4(1) 5(1) z by (simp add: SEC_OMX_BaseComponent_Constructor_def Let_def)
  from that [OF this g] show thesis by (simp add: msg_synced_def)
qed

text \<open>C29. The base component ends and leaves nothing behind. The constructor succeeds when memory is
  available and takes fourteen blocks; the destructor, called on the component it made, returns: the handler
  thread takes the last command, leaves its loop and can be joined, and all fourteen blocks are
  given back.\<close>

theorem base_component_lifecycle:
  assumes v: "SEC_OMX_Check_SizeVersion (Some oc) sizeof_OMX_COMPONENTTYPE = OMX_ErrorNone" and mem: "sys_answers e = []"
  shows "\<exists>oc' e'. SEC_OMX_BaseComponent_Constructor (Some oc) e = Done OMX_ErrorNone (Some oc', e') \<and>
    live_blocks e' = live_blocks e + 14 \<and> M_SendCommand \<in> set (api oc') \<and>
    (\<forall>w self. comps w self = Some oc' \<and> env w = e' \<longrightarrow>
      (\<exists>w'. SEC_OMX_BaseComponent_Destructor ops self w = Some (Done OMX_ErrorNone w') \<and>
         live_blocks (env w') = live_blocks e \<and> comps w' self = None))"
proof -
  from constructor_ok [OF mem, of oc] obtain c' e' t m where
    k: "SEC_OMX_BaseComponent_Constructor (Some oc) e = Done OMX_ErrorNone
      (Some (oc\<lparr>pComponentPrivate := Some c',
        api := [M_GetComponentVersion, M_SendCommand, M_GetState, M_SetCallbacks, M_UseEGLImage] @ api oc\<rparr>), e')"
    "grown 14 e e'" and f: "msg_synced c'" "queue_elems (messageQ c') = []" "\<not> bExitMessageHandlerThread c'"
    "hMessageHandler c' = Some t" "compMutex c' = Some m" by blast
  let ?oc = "oc\<lparr>pComponentPrivate := Some c',
        api := [M_GetComponentVersion, M_SendCommand, M_GetState, M_SetCallbacks, M_UseEGLImage] @ api oc\<rparr>"
  have vh: "valid_handle ?oc c'"
    using v by (auto simp: valid_handle_def SEC_OMX_Check_SizeVersion_def split: if_splits)
  have "\<forall>w self. comps w self = Some ?oc \<and> env w = e' \<longrightarrow>
      (\<exists>w'. SEC_OMX_BaseComponent_Destructor ops self w = Some (Done OMX_ErrorNone w') \<and>
         live_blocks (env w') = live_blocks e \<and> comps w' self = None)"
    using destructor_ok [OF _ vh f] k(2) by (fastforce simp: grown_def)
  then show ?thesis using k by (intro exI [of _ ?oc] exI [of _ e']) (simp add: grown_def)
qed

theorem base_component_lifecycle_witness:
  "\<exists>oc' e'. SEC_OMX_BaseComponent_Constructor (Some (sample_handle zero_BASECOMPONENT)) sample_env
       = Done OMX_ErrorNone (Some oc', e') \<and> live_blocks e' = 14 \<and>
     (\<exists>w'. SEC_OMX_BaseComponent_Destructor sample_ops 40 ((sample_rm OMX_StateIdle)\<lparr>comps := [40 \<mapsto> oc'], env := e'\<rparr>)
         = Some (Done OMX_ErrorNone w') \<and> live_blocks (env w') = 0)"
proof -
  have v: "SEC_OMX_Check_SizeVersion (Some (sample_handle zero_BASECOMPONENT)) sizeof_OMX_COMPONENTTYPE = OMX_ErrorNone"
    using sample_handle_valid by (simp add: valid_handle_def)
  obtain oc' e' where k: "SEC_OMX_BaseComponent_Constructor (Some (sample_handle zero_BASECOMPONENT)) sample_env
      = Done OMX_ErrorNone (Some oc', e')" "live_blocks e' = 14"
    and d: "\<forall>w self. comps w self = Some oc' \<and> env w = e' \<longrightarrow>
      (\<exists>w'. SEC_OMX_BaseComponent_Destructor sample_ops self w = Some (Done OMX_ErrorNone w') \<and>
         live_blocks (env w') = 0 \<and> comps w' self = None)"
    using base_component_lifecycle [OF v, of sample_env sample_ops] by auto
  show ?thesis using k d [rule_format, of "(sample_rm OMX_StateIdle)\<lparr>comps := [40 \<mapsto> oc'], env := e'\<rparr>" 40] by auto
qed

theorem handler_takes_oldest_witness:
  "handler_round sample_ops 10 (sample_rm OMX_StateIdle) = Blocked"
  using handler_takes_oldest [OF sample_private(1) sample_decoder_synced, of sample_ops OMX_StateIdle] by simp

end
