(* ===== verification/CSC_Memory.thy ===== *)
theory CSC_Memory
  imports OMX_Prelude
begin

text \<open>
  The memory and loop vocabulary of the software colour converter
  (\<open>exynos4/hal/libswconverter/swconvertor.c\<close>): a plane is a function from byte offsets to
  bytes, \<open>memcpy\<close> and its two interleaving variants write planes, and the counting loops
  run on 32-bit unsigned counters.

  A conversion is described by the pixels it has moved: \<open>moved f v S d d'\<close> says that
  \<open>d'\<close> differs from \<open>d\<close> exactly by holding the value \<open>v p\<close> at the offset \<open>f p\<close> for
  every pixel \<open>p\<close> of \<open>S\<close>.
\<close>

unbundle bit_operations_syntax

named_theorems csc_word \<open>unsigned words that stand for small natural numbers\<close>

type_synonym plane = "nat \<Rightarrow> u8"

section \<open>Copying\<close>

definition memcpy :: "plane \<Rightarrow> nat \<Rightarrow> plane \<Rightarrow> nat \<Rightarrow> u32 \<Rightarrow> plane" where
  "memcpy dest d_off src s_off n =
    (\<lambda>a. if d_off \<le> a \<and> a < d_off + unat n then src (s_off + (a - d_off)) else dest a)"

section \<open>Counting loops\<close>

text \<open>
  \<open>for (; i < b; i = i + k)\<close> and \<open>for (; i <= b; i = i + k)\<close> on unsigned counters. A
  counter that wraps may keep such a loop running for ever, which is the result \<open>None\<close>.
\<close>

partial_function (option) for_lt ::
  "u32 \<Rightarrow> u32 \<Rightarrow> (u32 \<Rightarrow> 's \<Rightarrow> 's option) \<Rightarrow> u32 \<Rightarrow> 's \<Rightarrow> 's option" where
  "for_lt k b body i s = (if i < b then Option.bind (body i s) (for_lt k b body (i + k)) else Some s)"

partial_function (option) for_le ::
  "u32 \<Rightarrow> u32 \<Rightarrow> (u32 \<Rightarrow> 's \<Rightarrow> 's option) \<Rightarrow> u32 \<Rightarrow> 's \<Rightarrow> (u32 \<times> 's) option" where
  "for_le k b body i s = (if i \<le> b then Option.bind (body i s) (for_le k b body (i + k)) else Some (i, s))"

text \<open>The counters of such a loop as natural numbers.\<close>

definition steps :: "nat \<Rightarrow> nat \<Rightarrow> nat \<Rightarrow> nat set" where
  "steps k i b = {n. i \<le> n \<and> n < b \<and> k dvd n - i}"

lemma of_nat_less_u32 [simp]:
  "a < 4294967296 \<Longrightarrow> b < 4294967296 \<Longrightarrow> (of_nat a < (of_nat b :: u32)) \<longleftrightarrow> a < b"
  by (simp add: word_less_nat_alt unat_of_nat)

lemma of_nat_le_u32 [simp]:
  "a < 4294967296 \<Longrightarrow> b < 4294967296 \<Longrightarrow> (of_nat a \<le> (of_nat b :: u32)) \<longleftrightarrow> a \<le> b"
  by (simp add: word_le_nat_alt unat_of_nat)

lemma steps_start: "i < b \<Longrightarrow> 0 < k \<Longrightarrow> steps k i b = insert i (steps k (i + k) b)"
proof -
  assume a: "i < b" "0 < k"
  have "k dvd n - i \<longleftrightarrow> n = i \<or> i + k \<le> n \<and> k dvd n - (i + k)" if "i \<le> n" for n
  proof (cases "n = i")
    case False
    have *: "k dvd n - i \<Longrightarrow> k \<le> n - i" using False that by (simp add: dvd_imp_le)
    have "k dvd n - i \<longleftrightarrow> k dvd (n - (i + k))" if "i + k \<le> n"
    proof -
      have "n - i = (n - (i + k)) + k" using that by simp
      then show ?thesis by (metis dvd_add_triv_right_iff)
    qed
    then show ?thesis using False * that by auto
  qed simp
  then show ?thesis using a by (auto simp: steps_def)
qed

lemma steps_end: "b \<le> i \<Longrightarrow> steps k i b = {}"
  by (auto simp: steps_def)

section \<open>Moved pixels\<close>

definition moved :: "('p \<Rightarrow> nat) \<Rightarrow> ('p \<Rightarrow> u8) \<Rightarrow> 'p set \<Rightarrow> plane \<Rightarrow> plane \<Rightarrow> bool" where
  "moved f v S d d' \<longleftrightarrow> (\<forall>p\<in>S. d' (f p) = v p) \<and> (\<forall>a. a \<notin> f ` S \<longrightarrow> d' a = d a)"

lemma moved_empty [simp]: "moved f v {} d d' \<longleftrightarrow> d' = d"
  by (auto simp: moved_def)

text \<open>
  The layout of a destination plane: distinct pixels of the region have distinct offsets.
  Two moves then add up.
\<close>

locale layout =
  fixes place :: "'p \<Rightarrow> nat" and region :: "'p set"
  assumes inj: "inj_on place region"
begin

lemma moved_Un:
  assumes "moved place v S d d1" "moved place v T d1 d2" "S \<subseteq> region" "T \<subseteq> region"
  shows "moved place v (S \<union> T) d d2"
  unfolding moved_def
proof (intro conjI ballI allI impI)
  fix p assume p: "p \<in> S \<union> T"
  show "d2 (place p) = v p"
  proof (cases "p \<in> T")
    case True then show ?thesis using assms(2) by (simp add: moved_def)
  next
    case False
    then have "place p \<notin> place ` T" using p assms(3,4) inj by (auto simp: inj_on_def)
    then show ?thesis using assms(1,2) p False by (auto simp: moved_def)
  qed
next
  fix a assume "a \<notin> place ` (S \<union> T)"
  then have "a \<notin> place ` S" "a \<notin> place ` T" by auto
  then show "d2 a = d a" using assms(1,2) by (simp add: moved_def)
qed

text \<open>A counting loop moves what its rounds move.\<close>

lemma for_lt_moved:
  assumes "0 < k" "b + k < 4294967296"
    and "\<And>n d. n \<in> steps k i b \<Longrightarrow> \<exists>d'. body (of_nat n) d = Some d' \<and> moved place v (S n) d d'"
    and "\<And>n. n \<in> steps k i b \<Longrightarrow> S n \<subseteq> region"
    and "i < 4294967296"
  shows "\<exists>d'. for_lt (of_nat k) (of_nat b) body (of_nat i) d = Some d' \<and>
              moved place v (\<Union>n\<in>steps k i b. S n) d d'"
  using assms
proof (induction "b - i" arbitrary: i d rule: less_induct)
  case less
  show ?case
  proof (cases "i < b")
    case False
    then show ?thesis using less.prems by (subst for_lt.simps) (simp add: steps_end)
  next
    case True
    note st = steps_start [OF True less.prems(1)]
    obtain d1 where d1: "body (of_nat i) d = Some d1" "moved place v (S i) d d1"
      using less.prems(3) [of i d] by (auto simp: st)
    have "\<exists>d'. for_lt (of_nat k) (of_nat b) body (of_nat (i + k)) d1 = Some d' \<and>
            moved place v (\<Union>n\<in>steps k (i + k) b. S n) d1 d'"
      by (rule less.hyps) (use less.prems True in \<open>auto simp: st\<close>)
    then obtain d2 where d2: "for_lt (of_nat k) (of_nat b) body (of_nat (i + k)) d1 = Some d2"
      "moved place v (\<Union>n\<in>steps k (i + k) b. S n) d1 d2" by blast
    have "moved place v (S i \<union> (\<Union>n\<in>steps k (i + k) b. S n)) d d2"
      by (rule moved_Un [OF d1(2) d2(2)]) (use less.prems(4) st in auto)
    then show ?thesis using d1 d2 True less.prems by (subst for_lt.simps) (simp add: st)
  qed
qed

end

lemma memcpy_moved:
  assumes "\<And>e. e < unat n \<Longrightarrow> f (p e) = d_off + e \<and> v (p e) = src (s_off + e)"
  shows "moved f v (p ` {..<unat n}) d (memcpy d d_off src s_off n)"
  unfolding moved_def memcpy_def
proof (intro conjI ballI allI impI)
  fix a assume "a \<notin> f ` p ` {..<unat n}"
  then have "\<not> (d_off \<le> a \<and> a < d_off + unat n)"
  proof (rule contrapos_nn)
    assume "d_off \<le> a \<and> a < d_off + unat n"
    then have "a - d_off < unat n" "f (p (a - d_off)) = a" using assms [of "a - d_off"] by auto
    then show "a \<in> f ` p ` {..<unat n}" by (metis imageI lessThan_iff)
  qed
  then show "(if d_off \<le> a \<and> a < d_off + unat n then src (s_off + (a - d_off)) else d a) = d a"
    by (rule if_not_P)
qed (use assms in auto)

section \<open>Words that stand for small numbers\<close>

lemma drop_bit_u32 [csc_word]: "n < 4294967296 \<Longrightarrow> drop_bit k (of_nat n :: u32) = of_nat (n div 2 ^ k)"
proof -
  assume n: "n < 4294967296"
  then have "n div 2 ^ k < 4294967296" by (meson div_le_dividend le_less_trans)
  moreover have "unat (drop_bit k (of_nat n :: u32)) = drop_bit k (unat (of_nat n :: u32))" by (rule unat_drop_bit_eq)
  ultimately show ?thesis using n by (simp add: word_unat_eq_iff unat_of_nat drop_bit_eq_div [of k n])
qed

lemma push_bit_u32 [csc_word]: "push_bit k (of_nat n :: u32) = of_nat (n * 2 ^ k)"
  by (simp add: push_bit_eq_mult)

lemma and_u32 [csc_word]:
  assumes "n < 4294967296"
  shows "(of_nat n :: u32) AND 1 = of_nat (n mod 2)" "(of_nat n :: u32) AND 3 = of_nat (n mod 4)"
    "(of_nat n :: u32) AND 0x1F = of_nat (n mod 32)" "(of_nat n :: u32) AND 0x3F = of_nat (n mod 64)"
proof -
  have m: "n AND 1 = n mod 2" "n AND 3 = n mod 4" "n AND 31 = n mod 32" "n AND 63 = n mod 64"
    using take_bit_eq_mask [of 1 n] take_bit_eq_mask [of 2 n] take_bit_eq_mask [of 5 n] take_bit_eq_mask [of 6 n]
    by (simp_all add: take_bit_eq_mod mask_eq_exp_minus_1)
  have lt: "n mod 2 < 4294967296" "n mod 4 < 4294967296" "n mod 32 < 4294967296" "n mod 64 < 4294967296"
    using assms by (meson le_less_trans mod_less_eq_dividend)+
  show "(of_nat n :: u32) AND 1 = of_nat (n mod 2)" "(of_nat n :: u32) AND 3 = of_nat (n mod 4)"
    "(of_nat n :: u32) AND 0x1F = of_nat (n mod 32)" "(of_nat n :: u32) AND 0x3F = of_nat (n mod 64)"
    using assms lt m by (simp_all add: word_unat_eq_iff unsigned_and_eq unat_of_nat)
qed

lemma unat_u32 [csc_word]: "n < 4294967296 \<Longrightarrow> unat (of_nat n :: u32) = n"
  by (simp add: unat_of_nat)

lemma sint_u32 [csc_word]: "n < 2147483648 \<Longrightarrow> sint (of_nat n :: u32) = int n"
  by (simp add: signed_of_nat signed_take_bit_int_eq_self)

section \<open>Loops with an invariant\<close>

lemma for_le_inv:
  assumes "P i s" "0 < k" "b + k < 4294967296" "i < 4294967296"
    and "\<And>n s. P n s \<Longrightarrow> n \<le> b \<Longrightarrow> \<exists>s'. body (of_nat n) s = Some s' \<and> P (n + k) s'"
  shows "\<exists>n s'. for_le (of_nat k) (of_nat b) body (of_nat i) s = Some (of_nat n, s') \<and> P n s' \<and> b < n \<and> n < 4294967296"
  using assms
proof (induction "Suc b - i" arbitrary: i s rule: less_induct)
  case less
  show ?case
  proof (cases "i \<le> b")
    case False
    then show ?thesis using less.prems by (subst for_le.simps) (auto intro!: exI [of _ i])
  next
    case True
    obtain s1 where s1: "body (of_nat i) s = Some s1" "P (i + k) s1" using less.prems True by blast
    have "\<exists>n s'. for_le (of_nat k) (of_nat b) body (of_nat (i + k)) s1 = Some (of_nat n, s') \<and> P n s' \<and> b < n \<and> n < 4294967296"
      by (rule less.hyps) (use less.prems s1 True in auto)
    then show ?thesis using s1 True less.prems by (subst for_le.simps) simp
  qed
qed

lemma for_lt_inv:
  assumes "P i s" "0 < k" "b + k < 4294967296" "i < 4294967296"
    and "\<And>n s. P n s \<Longrightarrow> n < b \<Longrightarrow> \<exists>s'. body (of_nat n) s = Some s' \<and> P (n + k) s'"
  shows "\<exists>n s'. for_lt (of_nat k) (of_nat b) body (of_nat i) s = Some s' \<and> P n s' \<and> b \<le> n \<and> n < 4294967296"
  using assms
proof (induction "b - i" arbitrary: i s rule: less_induct)
  case less
  show ?case
  proof (cases "i < b")
    case False
    then show ?thesis using less.prems by (subst for_lt.simps) (auto intro!: exI [of _ i])
  next
    case True
    obtain s1 where s1: "body (of_nat i) s = Some s1" "P (i + k) s1" using less.prems True by blast
    have "\<exists>n s'. for_lt (of_nat k) (of_nat b) body (of_nat (i + k)) s1 = Some s' \<and> P n s' \<and> b \<le> n \<and> n < 4294967296"
      by (rule less.hyps) (use less.prems s1 True in auto)
    then show ?thesis using s1 True less.prems by (subst for_lt.simps) simp
  qed
qed

end
