(* ===== verification/CSC_Tile.thy ===== *)
theory CSC_Tile
  imports CSC_Memory
begin

text \<open>
  The tiled picture layout NV12T of the video hardware, in \<open>swconvertor.c\<close>. A plane is cut
  into tiles of 64 x 32 bytes, and the tiles of two rows of tiles are interleaved. The code
  computes the offset of a byte twice, by the bit manipulations of \<open>tile_4x2_read\<close> and by
  the formulas written in the comments of the conversion loops; \<open>tile_addr\<close> is the common
  reference definition.
\<close>

section \<open>The layout\<close>

definition tile_columns :: "nat \<Rightarrow> nat" where
  "tile_columns w = 2 * ((w + 127) div 128)"

definition tile_rows :: "nat \<Rightarrow> nat" where
  "tile_rows h = (h + 31) div 32"

definition tile_index :: "nat \<Rightarrow> nat \<Rightarrow> nat \<Rightarrow> nat \<Rightarrow> nat" where
  "tile_index w h X Y =
    (if odd Y then 2 + X + 4 * (X div 4) + tile_columns w * (Y - 1)
     else if Y + 1 < tile_rows h then X + 4 * ((X + 2) div 4) + tile_columns w * Y
     else X + tile_columns w * Y)"

definition tile_addr :: "nat \<Rightarrow> nat \<Rightarrow> nat \<Rightarrow> nat \<Rightarrow> nat" where
  "tile_addr w h x y = 2048 * tile_index w h (x div 64) (y div 32) + 64 * (y mod 32) + x mod 64"

section \<open>The address computation of the code\<close>

definition tile_4x2_read :: "int \<Rightarrow> int \<Rightarrow> int \<Rightarrow> int \<Rightarrow> int" where
  "tile_4x2_read x_size y_size x_pos y_pos =
    (let pixel_x_m1 = x_size - 1;
         pixel_y_m1 = y_size - 1;
         roundup_x = drop_bit 7 pixel_x_m1 + 1;
         x_addr = drop_bit 2 x_pos;
         linear_addr0 = push_bit 4 (y_pos AND 0x1f) OR (x_addr AND 0xf);
         linear_addr1 =
           (if y_size \<le> y_pos + 32 \<and> y_pos < y_size \<and>
               drop_bit 5 pixel_y_m1 AND 1 = 0 \<and> drop_bit 5 y_pos AND 1 = 0
            then (drop_bit 6 y_pos AND 0xff) * roundup_x + (drop_bit 6 x_addr AND 0x3f)
            else (drop_bit 6 y_pos AND 0xff) * roundup_x + (drop_bit 5 x_addr AND 0x7f));
         bank_addr =
           (if drop_bit 5 x_addr AND 1 = drop_bit 5 y_pos AND 1
            then drop_bit 4 x_addr AND 1
            else 2 OR (drop_bit 4 x_addr AND 1))
     in push_bit 13 linear_addr1 OR push_bit 11 bank_addr OR push_bit 2 linear_addr0)"

section \<open>Both agree\<close>

lemma mask_and_int:
  "(a::int) AND 1 = a mod 2" "a AND 0xf = a mod 16" "a AND 0x1f = a mod 32" "a AND 0x3f = a mod 64"
  "a AND 0x7f = a mod 128" "a AND 0xff = a mod 256"
  using take_bit_eq_mask [of 1 a] take_bit_eq_mask [of 4 a] take_bit_eq_mask [of 5 a]
    take_bit_eq_mask [of 6 a] take_bit_eq_mask [of 7 a] take_bit_eq_mask [of 8 a]
  by (simp_all add: take_bit_eq_mod mask_eq_exp_minus_1)

lemma drop_bit_int:
  "drop_bit 2 (a::int) = a div 4" "drop_bit 4 a = a div 16" "drop_bit 5 a = a div 32"
  "drop_bit 6 a = a div 64" "drop_bit 7 a = a div 128"
  by (simp_all add: drop_bit_eq_div)

lemma push_bit_or_int: "0 \<le> b \<Longrightarrow> b < 2 ^ k \<Longrightarrow> push_bit k a OR b = 2 ^ k * a + (b::int)"
proof -
  assume "0 \<le> b" "b < 2 ^ k"
  then have b: "take_bit k b = b" by (simp add: take_bit_int_eq_self)
  have "push_bit k a OR take_bit k b = push_bit k a + take_bit k b"
    by (rule disjunctive_add [symmetric]) (auto simp: bit_simps)
  then show ?thesis by (simp add: b push_bit_eq_mult mult.commute)
qed

lemma bank_or_int:
  assumes "0 \<le> B" "B \<le> 3" "0 \<le> l" "l < 512"
  shows "push_bit 13 L OR (push_bit 11 B OR push_bit 2 l) = 8192 * L + (2048 * B + 4 * (l::int))"
proof -
  have "push_bit 11 B OR push_bit 2 l = 2048 * B + 4 * l"
    using assms by (subst push_bit_or_int) (simp_all add: push_bit_eq_mult)
  then show ?thesis using assms by (simp add: push_bit_or_int)
qed

lemma tile_4x2_read_arith:
  assumes "x < 16384" "y < 16384"
  shows "tile_4x2_read (int w) (int h) (int x) (int y) =
    8192 * (int (y div 64) * ((int w - 1) div 128 + 1) +
            (if h \<le> y + 32 \<and> y < h \<and> even ((int h - 1) div 32) \<and> even (y div 32)
             then int (x div 256) else int (x div 128))) +
    2048 * (if even (x div 128) = even (y div 32) then int (x div 64 mod 2) else 2 + int (x div 64 mod 2)) +
    int (64 * (y mod 32) + 4 * (x div 4 mod 16))"
proof -
  let ?l0 = "16 * (int y mod 32) + int x div 4 mod 16"
  let ?s = "h \<le> y + 32 \<and> y < h \<and> even ((int h - 1) div 32) \<and> even (y div 32)"
  let ?L = "int (y div 64) * ((int w - 1) div 128 + 1) + (if ?s then int (x div 256) else int (x div 128))"
  let ?B = "if even (x div 128) = even (y div 32) then int (x div 64 mod 2) else 2 + int (x div 64 mod 2)"
  have l0: "push_bit 4 (int y mod 32) OR (int x div 4 mod 16) = ?l0"
    by (subst push_bit_or_int) simp_all
  have two: "2 OR (a mod 2) = 2 + a mod 2" for a :: int
    using push_bit_or_int [of "a mod 2" 1 1] by simp
  have small: "y div 64 mod 256 = y div 64" "x div 256 mod 64 = x div 256" "x div 128 mod 128 = x div 128"
    using assms by (simp_all add: less_mult_imp_div_less)
  have d: "int x div 4 div 16 = int (x div 64)" "int x div 4 div 32 = int (x div 128)"
    "int x div 4 div 64 = int (x div 256)" "int y div 32 = int (y div 32)" "int y div 64 = int (y div 64)"
    by (simp_all add: zdiv_int zdiv_zmult2_eq [symmetric])
  have m: "int a mod 2 = int (a mod 2)" "int a mod 256 = int (a mod 256)" "int a mod 64 = int (a mod 64)"
    "int a mod 128 = int (a mod 128)" for a
    by (simp_all add: zmod_int)
  have ev: "a mod 2 = b mod 2 \<longleftrightarrow> even a = even b" for a b :: nat
    by (simp add: even_iff_mod_2_eq_zero) linarith
  have B: "(if int x div 4 div 32 mod 2 = int y div 32 mod 2 then int x div 4 div 16 mod 2
            else 2 OR (int x div 4 div 16 mod 2)) = ?B"
    unfolding two unfolding d m of_nat_eq_iff ev ..
  have L: "(if int h \<le> int y + 32 \<and> int y < int h \<and> (int h - 1) div 32 mod 2 = 0 \<and> int y div 32 mod 2 = 0
            then (int y div 64 mod 256) * ((int w - 1) div 128 + 1) + int x div 4 div 64 mod 64
            else (int y div 64 mod 256) * ((int w - 1) div 128 + 1) + int x div 4 div 32 mod 128) = ?L"
    unfolding d m small by (simp add: even_iff_mod_2_eq_zero)
  have Bb: "0 \<le> ?B" "?B \<le> 3" by auto
  have "0 \<le> int y mod 32" "int y mod 32 < 32" "0 \<le> int x div 4 mod 16" "int x div 4 mod 16 < 16" by simp_all
  then have l0b: "0 \<le> ?l0" "?l0 < 512" by linarith+
  have "push_bit 13 ?L OR (push_bit 11 ?B OR push_bit 2 ?l0) = 8192 * ?L + (2048 * ?B + 4 * ?l0)"
    by (rule bank_or_int [OF Bb l0b])
  then have "tile_4x2_read (int w) (int h) (int x) (int y) = 8192 * ?L + (2048 * ?B + 4 * ?l0)"
    unfolding tile_4x2_read_def Let_def drop_bit_int mask_and_int l0 L B by (simp only: or.assoc)
  moreover have "4 * ?l0 = int (64 * (y mod 32) + 4 * (x div 4 mod 16))" by (simp add: zmod_int zdiv_int)
  ultimately show ?thesis by linarith
qed

text \<open>The last row of tiles is laid out alone when the number of rows is odd.\<close>

lemma last_row_alone:
  "y < h \<Longrightarrow> even (y div 32) \<Longrightarrow>
   (h \<le> y + 32 \<and> even ((int h - 1) div 32)) \<longleftrightarrow> \<not> y div 32 + 1 < tile_rows h"
proof -
  assume a: "y < h" "even (y div 32)"
  have i: "(int h - 1) div 32 = int ((h - 1) div 32)" using a by (simp add: zdiv_int of_nat_diff)
  have r: "tile_rows h = (h - 1) div 32 + 1" using a by (simp add: tile_rows_def)
  have le: "y div 32 \<le> (h - 1) div 32" using a by (simp add: div_le_mono)
  show ?thesis
  proof (cases "y div 32 = (h - 1) div 32")
    case True
    then have "h \<le> y + 32" by linarith
    then show ?thesis using True a by (simp add: i r)
  next
    case False
    then have lt: "y div 32 < (h - 1) div 32" using le by simp
    have "\<not> (h \<le> y + 32 \<and> even ((h - 1) div 32))"
    proof
      assume b: "h \<le> y + 32 \<and> even ((h - 1) div 32)"
      then have "y div 32 + 2 \<le> (h - 1) div 32" using a lt by (auto elim!: evenE)
      then show False using b a by linarith
    qed
    then show ?thesis using lt by (simp add: i r)
  qed
qed

lemma tile_index_read:
  assumes "y < h" "0 < w"
  shows "4 * (y div 64 * ((w - 1) div 128 + 1) +
            (if h \<le> y + 32 \<and> y < h \<and> even ((int h - 1) div 32) \<and> even (y div 32) then x div 256 else x div 128)) +
         (if even (x div 128) = even (y div 32) then x div 64 mod 2 else 2 + x div 64 mod 2) =
         tile_index w h (x div 64) (y div 32)"
proof -
  define X Y R where "X = x div 64" and "Y = y div 32" and "R = (w - 1) div 128 + 1"
  have c: "tile_columns w = 2 * R" using assms by (cases w) (simp_all add: tile_columns_def R_def div_add_self1)
  have d: "y div 64 = Y div 2" "x div 128 = X div 2" "x div 256 = X div 4"
    by (simp_all add: X_def Y_def div_mult2_eq [symmetric])
  have X4: "4 * (X div 4) + (if even (X div 2) then X mod 2 else 2 + X mod 2) = X"
    "4 * (X div 2) + (if even (X div 2) then X mod 2 else 2 + X mod 2) = X + 4 * ((X + 2) div 4)"
    "4 * (X div 2) + (if odd (X div 2) then X mod 2 else 2 + X mod 2) = 2 + X + 4 * (X div 4)"
  proof -
    define a b where "a = X div 4" and "b = X mod 4"
    have X: "X = 4 * a + b" and b: "b < 4" by (simp_all add: a_def b_def)
    have e: "X div 4 = a" "X div 2 = 2 * a + b div 2" "X mod 2 = b mod 2" "(X + 2) div 4 = a + (b + 2) div 4"
      unfolding X using b by presburger+
    consider "b = 0" | "b = 1" | "b = 2" | "b = 3" using b by linarith
    then have "4 * (X div 4) + (if even (X div 2) then X mod 2 else 2 + X mod 2) = X \<and>
      4 * (X div 2) + (if even (X div 2) then X mod 2 else 2 + X mod 2) = X + 4 * ((X + 2) div 4) \<and>
      4 * (X div 2) + (if odd (X div 2) then X mod 2 else 2 + X mod 2) = 2 + X + 4 * (X div 4)"
      unfolding e by cases (simp_all add: X)
    then show "4 * (X div 4) + (if even (X div 2) then X mod 2 else 2 + X mod 2) = X"
      "4 * (X div 2) + (if even (X div 2) then X mod 2 else 2 + X mod 2) = X + 4 * ((X + 2) div 4)"
      "4 * (X div 2) + (if odd (X div 2) then X mod 2 else 2 + X mod 2) = 2 + X + 4 * (X div 4)"
      by blast+
  qed
  show ?thesis
  proof (cases "even Y")
    case True
    then have YY: "4 * (Y div 2 * R) = tile_columns w * Y" by (auto simp: c elim!: evenE)
    have "(h \<le> y + 32 \<and> y < h \<and> even ((int h - 1) div 32) \<and> even Y) \<longleftrightarrow> \<not> Y + 1 < tile_rows h"
      using last_row_alone [OF assms(1)] True assms(1) by (auto simp: Y_def)
    then show ?thesis using True X4(1,2) YY
      unfolding tile_index_def d R_def [symmetric] X_def [symmetric] Y_def [symmetric] distrib_left by simp
  next
    case False
    then have YY: "4 * (Y div 2 * R) = tile_columns w * (Y - 1)" by (auto simp: c elim!: oddE)
    show ?thesis using False X4(3) YY
      unfolding tile_index_def d R_def [symmetric] X_def [symmetric] Y_def [symmetric] distrib_left by simp
  qed
qed

lemma tile_4x2_read_addr:
  assumes "x < 16384" "y < h" "y < 16384" "0 < w"
  shows "tile_4x2_read (int w) (int h) (int x) (int y) + int (x mod 4) = int (tile_addr w h x y)"
proof -
  have w: "(int w - 1) div 128 = int ((w - 1) div 128)" using assms by (simp add: zdiv_int of_nat_diff)
  have "4 * (x div 4 mod 16) + x mod 4 = x mod 64" using mod_mult2_eq [of x 4 16] by simp
  then have x: "int (64 * (y mod 32) + 4 * (x div 4 mod 16)) + int (x mod 4) = int (64 * (y mod 32) + x mod 64)"
    by linarith
  show ?thesis
    unfolding tile_4x2_read_arith [OF assms(1,3)] tile_addr_def tile_index_read [OF assms(2,4), of x, symmetric] w
    using x by (simp add: distrib_left)
qed

section \<open>The layout is compact\<close>

text \<open>Where a tile lies among the tiles of its pair of rows.\<close>

definition pair_offset :: "nat \<Rightarrow> nat \<Rightarrow> nat \<Rightarrow> nat" where
  "pair_offset h X Y =
    (if odd Y then 2 + X + 4 * (X div 4) else if Y + 1 < tile_rows h then X + 4 * ((X + 2) div 4) else X)"

lemma tile_index_pair: "tile_index w h X Y = pair_offset h X Y + 2 * tile_columns w * (Y div 2)"
  by (auto simp: tile_index_def pair_offset_def elim!: oddE evenE)

lemma pair_offset_bound: "X < tile_columns w \<Longrightarrow> pair_offset h X Y < 2 * tile_columns w"
proof -
  define R where "R = (w + 127) div 128"
  assume "X < tile_columns w"
  then have X: "X < 2 * R" by (simp add: tile_columns_def R_def)
  have "2 + X + 4 * (X div 4) < 4 * R" "X + 4 * ((X + 2) div 4) < 4 * R" "X < 4 * R"
    using X by presburger+
  then show ?thesis by (simp add: pair_offset_def tile_columns_def R_def [symmetric])
qed

lemma pair_offset_inj:
  assumes "pair_offset h X Y = pair_offset h X' Y'" "Y div 2 = Y' div 2" "Y < tile_rows h" "Y' < tile_rows h"
  shows "X = X' \<and> Y = Y'"
proof -
  have np: "8 * p + (4 + q) \<noteq> 8 * r + s" if "q < 4" "s < 4" for p q r s :: nat
  proof
    assume "8 * p + (4 + q) = 8 * r + s"
    then have "(8 * p + (4 + q)) mod 8 = (8 * r + s) mod 8" by (rule arg_cong)
    then show False using that by simp
  qed
  have ne: "2 + a + 4 * (a div 4) \<noteq> b + 4 * ((b + 2) div 4)" for a b :: nat
    using np [of "a mod 4" "(b + 2) mod 4" "a div 4" "(b + 2) div 4"]
      mult_div_mod_eq [of 4 a] mult_div_mod_eq [of 4 "b + 2"] by linarith
  have mono: "a < b \<Longrightarrow> a + 4 * ((a + k) div 4) < b + 4 * ((b + k) div 4)" for a b k :: nat
    using div_le_mono [of "a + k" "b + k" 4] by simp
  have e: "2 + a + 4 * (a div 4) = 2 + b + 4 * (b div 4) \<Longrightarrow> a = b"
    "a + 4 * ((a + 2) div 4) = b + 4 * ((b + 2) div 4) \<Longrightarrow> a = b" for a b :: nat
    using mono [of a b 0] mono [of b a 0] mono [of a b 2] mono [of b a 2] by (cases a b rule: linorder_cases; simp)+
  have p: "even a \<Longrightarrow> odd b \<Longrightarrow> a div 2 = b div 2 \<Longrightarrow> b = a + 1" for a b :: nat
    by (auto elim!: evenE oddE)
  consider "odd Y = odd Y'" | "even Y" "odd Y'" | "odd Y" "even Y'" by blast
  then show ?thesis
  proof cases
    case 1
    then have "Y = Y'" using assms(2) by (cases "odd Y") (auto elim!: evenE oddE)
    then show ?thesis using assms(1) e(1) [of X X'] e(2) [of X X']
      by (cases "odd Y"; cases "Y + 1 < tile_rows h") (simp_all add: pair_offset_def)
  next
    case 2
    then have "Y' = Y + 1" using assms(2) p by blast
    then show ?thesis using 2 assms ne [of X' X] by (simp add: pair_offset_def)
  next
    case 3
    then have "Y = Y' + 1" using assms(2) p by metis
    then show ?thesis using 3 assms ne [of X X'] by (simp add: pair_offset_def)
  qed
qed

lemma tile_index_inj:
  assumes "tile_index w h X Y = tile_index w h X' Y'" "X < tile_columns w" "X' < tile_columns w"
    "Y < tile_rows h" "Y' < tile_rows h"
  shows "X = X' \<and> Y = Y'"
proof -
  let ?B = "2 * tile_columns w"
  note b = pair_offset_bound [OF assms(2), of h Y] pair_offset_bound [OF assms(3), of h Y']
  have eq: "pair_offset h X Y + ?B * (Y div 2) = pair_offset h X' Y' + ?B * (Y' div 2)"
    using assms(1) by (simp add: tile_index_pair)
  have "Y div 2 = (pair_offset h X Y + ?B * (Y div 2)) div ?B" using b by simp
  moreover have "Y' div 2 = (pair_offset h X' Y' + ?B * (Y' div 2)) div ?B" using b by simp
  ultimately have "Y div 2 = Y' div 2" using eq by simp
  moreover from this eq have "pair_offset h X Y = pair_offset h X' Y'" by simp
  ultimately show ?thesis using pair_offset_inj assms by blast
qed

lemma tile_index_bound:
  assumes "X < tile_columns w" "Y < tile_rows h"
  shows "tile_index w h X Y < tile_columns w * tile_rows h"
proof (cases "even Y \<and> Y + 1 = tile_rows h")
  case True
  then have r: "tile_rows h = Y + 1" by simp
  have "tile_index w h X Y = X + tile_columns w * Y" using True by (simp add: tile_index_def)
  then show ?thesis unfolding r using assms by simp
next
  case False
  then have "2 * (Y div 2 + 1) \<le> tile_rows h" using assms by (auto elim!: evenE oddE)
  then have "tile_columns w * (2 * (Y div 2 + 1)) \<le> tile_columns w * tile_rows h" by (rule mult_le_mono2)
  moreover have "tile_columns w * (2 * (Y div 2 + 1)) = 2 * tile_columns w * (Y div 2) + 2 * tile_columns w"
    by (simp add: distrib_left)
  ultimately show ?thesis using pair_offset_bound [OF assms(1), of h Y] unfolding tile_index_pair by linarith
qed

lemma tile_addr_parts:
  "tile_addr w h x y div 2048 = tile_index w h (x div 64) (y div 32)"
  "tile_addr w h x y mod 2048 div 64 = y mod 32" "tile_addr w h x y mod 64 = x mod 64"
proof -
  let ?i = "tile_index w h (x div 64) (y div 32)" and ?r = "64 * (y mod 32) + x mod 64"
  have "y mod 32 < 32" "x mod 64 < 64" by simp_all
  then have r: "?r < 2048" by linarith
  have t: "tile_addr w h x y = ?r + 2048 * ?i" by (simp add: tile_addr_def)
  show "tile_addr w h x y div 2048 = ?i" unfolding t using r by simp
  have m: "tile_addr w h x y mod 2048 = ?r" unfolding t using r by simp
  show "tile_addr w h x y mod 2048 div 64 = y mod 32" unfolding m by simp
  have "tile_addr w h x y mod 64 = ?r mod 64" unfolding m [symmetric] by (simp add: mod_mod_cancel)
  then show "tile_addr w h x y mod 64 = x mod 64" by simp
qed

lemma tile_addr_inj:
  assumes "tile_addr w h x y = tile_addr w h x' y'"
    "x < 64 * tile_columns w" "x' < 64 * tile_columns w" "y < 32 * tile_rows h" "y' < 32 * tile_rows h"
  shows "x = x' \<and> y = y'"
proof -
  have "x div 64 = x' div 64 \<and> y div 32 = y' div 32"
  proof (rule tile_index_inj)
    show "tile_index w h (x div 64) (y div 32) = tile_index w h (x' div 64) (y' div 32)"
      unfolding tile_addr_parts(1) [symmetric] assms(1) ..
  qed (use assms in \<open>simp_all add: less_mult_imp_div_less mult.commute\<close>)
  moreover have "y mod 32 = y' mod 32" "x mod 64 = x' mod 64"
    using assms(1) tile_addr_parts(2,3) [of w h x y] tile_addr_parts(2,3) [of w h x' y'] by simp_all
  ultimately show ?thesis by (metis div_mult_mod_eq)
qed

lemma tile_addr_bound:
  assumes "x < 64 * tile_columns w" "y < 32 * tile_rows h"
  shows "tile_addr w h x y < 2048 * (tile_columns w * tile_rows h)"
proof -
  have "tile_index w h (x div 64) (y div 32) < tile_columns w * tile_rows h"
    using assms by (intro tile_index_bound) (simp_all add: less_mult_imp_div_less mult.commute)
  then show ?thesis using tile_addr_parts(1) [of w h x y]
    by (metis div_less_iff_less_mult mult.commute zero_less_numeral)
qed

lemma picture_in_tiles: "w \<le> 64 * tile_columns w" "h \<le> 32 * tile_rows h"
  unfolding tile_columns_def tile_rows_def by linarith+

text \<open>
  The tiled layout is a compact bijection: the bytes of all tiles of a plane take up, each
  exactly once, the offsets from 0 to the size of the plane rounded up to whole tiles.
\<close>

lemma tile_layout_bijective:
  "bij_betw (\<lambda>(x, y). tile_addr w h x y) ({..<64 * tile_columns w} \<times> {..<32 * tile_rows h})
     {..<64 * tile_columns w * (32 * tile_rows h)}"
proof -
  let ?A = "{..<64 * tile_columns w} \<times> {..<32 * tile_rows h}" and ?B = "{..<64 * tile_columns w * (32 * tile_rows h)}"
  let ?f = "\<lambda>(x, y). tile_addr w h x y"
  have inj: "inj_on ?f ?A" by (auto simp: inj_on_def dest: tile_addr_inj)
  have "?f ` ?A \<subseteq> ?B" using tile_addr_bound [of _ w _ h] by (auto simp: mult.assoc mult.left_commute)
  moreover have "card (?f ` ?A) = card ?B" using card_image [OF inj] by (simp add: card_cartesian_product)
  ultimately have "?f ` ?A = ?B" by (intro card_subset_eq) auto
  then show ?thesis using inj by (simp add: bij_betw_def)
qed

text \<open>C31. For every position inside the picture, the bit manipulations of \<open>tile_4x2_read\<close>
  compute the offset of the layout, for pictures of up to 16384 x 16384 bytes (the masks of
  the code cut larger positions off).\<close>


theorem tile_4x2_read_is_layout:
  assumes "x < w" "y < h" "w \<le> 16384" "h \<le> 16384"
  shows "tile_4x2_read (int w) (int h) (int x) (int y) + int (x mod 4) = int (tile_addr w h x y)"
  using tile_4x2_read_addr [of x y h w] assms by simp

theorem tile_4x2_read_is_layout_witness:
  "(70::nat) < 176 \<and> (100::nat) < 144 \<and>
   tile_4x2_read (int 176) (int 144) (int 70) (int 100) + int (70 mod 4) = int (tile_addr 176 144 70 100)"
  using tile_4x2_read_is_layout [of 70 176 100 144] by simp

text \<open>C31. In a picture of up to 16384 x 16384 bytes \<open>tile_4x2_read\<close> gives different positions
  different offsets, all of them inside the picture rounded up to whole tiles (an even number
  of tiles per row), so no conversion that uses it reads or writes past such a plane.\<close>

theorem tile_4x2_read_injective_and_bounded:
  assumes "w \<le> 16384" "h \<le> 16384"
  shows "inj_on (\<lambda>(x, y). tile_4x2_read (int w) (int h) (int x) (int y) + int (x mod 4)) ({..<w} \<times> {..<h}) \<and>
    (\<lambda>(x, y). tile_4x2_read (int w) (int h) (int x) (int y) + int (x mod 4)) ` ({..<w} \<times> {..<h}) \<subseteq>
      {0..<int (64 * tile_columns w * (32 * tile_rows h))}"
proof -
  let ?f = "\<lambda>(x, y). tile_4x2_read (int w) (int h) (int x) (int y) + int (x mod 4)"
  let ?g = "\<lambda>(x, y). tile_addr w h x y" and ?A = "{..<w} \<times> {..<h}"
  have eq: "?f p = int (?g p)" if "p \<in> ?A" for p
    using that tile_4x2_read_addr [of "fst p" "snd p" h w] assms by (auto simp: split_beta)
  have sub: "?A \<subseteq> {..<64 * tile_columns w} \<times> {..<32 * tile_rows h}" using picture_in_tiles(1) [of w] picture_in_tiles(2) [of h] by (intro Sigma_mono) auto
  have "inj_on ?g ?A" using tile_layout_bijective [of w h] sub using inj_on_subset by (auto simp only: bij_betw_def)
  moreover have "?g ` ?A \<subseteq> {..<64 * tile_columns w * (32 * tile_rows h)}"
    using image_mono [OF sub, of ?g] bij_betw_imp_surj_on [OF tile_layout_bijective [of w h]] by simp
  moreover have "inj_on ?f ?A \<longleftrightarrow> inj_on (\<lambda>p. int (?g p)) ?A" by (rule inj_on_cong) (rule eq)
  moreover have "?f ` ?A = int ` (?g ` ?A)" unfolding image_image by (rule image_cong [OF refl]) (rule eq)
  ultimately show ?thesis by (simp only: inj_on_def of_nat_eq_iff) (force simp only: image_subset_iff lessThan_iff atLeastLessThan_iff of_nat_less_iff of_nat_0_le_iff)
qed

theorem tile_4x2_read_injective_and_bounded_witness:
  "inj_on (\<lambda>(x, y). tile_4x2_read (int 176) (int 144) (int x) (int y) + int (x mod 4)) ({..<176} \<times> {..<144}) \<and>
   (\<lambda>(x, y). tile_4x2_read (int 176) (int 144) (int x) (int y) + int (x mod 4)) ` ({..<176} \<times> {..<144}) \<subseteq>
     {0..<int (256 * 160)}"
  using tile_4x2_read_injective_and_bounded [of 176 144] by (simp add: tile_columns_def tile_rows_def)

end
