(* ===== verification/CSC_ToLinear.thy ===== *)
theory CSC_ToLinear
  imports CSC_Tile
begin

text \<open>
  The conversion of a tiled plane to a linear one, cropped on all four sides:
  \<open>csc_tiled_to_linear_crop\<close> of \<open>swconvertor.c\<close>. The code treats pictures of at least 256
  bytes per line, of at least 64, and the narrower ones differently; the three loops are the
  three row functions below. All arithmetic is on 32-bit unsigned words.
\<close>

section \<open>The formulas of the code\<close>

text \<open>The offsets of a tile, by the three formulas of the comments; \<open>x\<close> and \<open>y\<close> count tiles.\<close>

definition x_block_num :: "u32 \<Rightarrow> u32" where
  "x_block_num yuv420_width = drop_bit 6 (push_bit 7 (drop_bit 7 (yuv420_width + 127)))"

definition odd_formula :: "u32 \<Rightarrow> u32 \<Rightarrow> u32 \<Rightarrow> u32" where
  "odd_formula w x y = push_bit 11 ((y - 1) * x_block_num w + x + 2 + push_bit 2 (drop_bit 2 x))"

definition even1_formula :: "u32 \<Rightarrow> u32 \<Rightarrow> u32 \<Rightarrow> u32" where
  "even1_formula w x y = push_bit 11 (x + push_bit 2 (drop_bit 2 (x + 2)) + y * x_block_num w)"

definition even2_formula :: "u32 \<Rightarrow> u32 \<Rightarrow> u32 \<Rightarrow> u32" where
  "even2_formula w x y = push_bit 11 (y * x_block_num w + x)"

text \<open>
  For a line and the group of four tiles that holds column \<open>j\<close>: the offsets of the first
  and of the third tile of the group, and the number of tiles to the next group.
\<close>

definition tile_group :: "u32 \<Rightarrow> u32 \<Rightarrow> u32 \<Rightarrow> u32 \<Rightarrow> u32 \<times> u32 \<times> u32" where
  "tile_group yuv420_width yuv420_height j i =
    (let temp3 = drop_bit 6 (push_bit 8 (drop_bit 8 j));
         temp4 = drop_bit 5 i in
     if temp4 AND 1 \<noteq> 0 then
       let tiled_offset = odd_formula yuv420_width temp3 temp4 in (tiled_offset, tiled_offset + 2048 * 2, 8)
     else let temp2 = push_bit 5 (drop_bit 5 (yuv420_height + 31)) in
       if i + 32 < temp2 then
         let tiled_offset = even1_formula yuv420_width temp3 temp4 in (tiled_offset, tiled_offset + 2048 * 6, 8)
       else
         let tiled_offset = even2_formula yuv420_width temp3 temp4 in (tiled_offset, tiled_offset + 2048 * 2, 4))"

section \<open>One line of a wide picture\<close>

text \<open>
  The tiles from the left edge to the end of its group of four. In the first case the code also
  sets \<open>temp2\<close> and \<open>temp3\<close>, which it overwrites before it reads them again.
\<close>

definition wide_first :: "plane \<Rightarrow> u32 \<Rightarrow> u32 \<Rightarrow> u32 \<Rightarrow> u32 \<Rightarrow> u32 \<Rightarrow> plane \<Rightarrow> plane \<times> u32" where
  "wide_first src temp3 temp1 linear_offset tiled_offset tiled_offset1 dest =
    (let lin = unat linear_offset; t0 = unat tiled_offset; t1 = unat tiled_offset1; x = unat temp1 in
     if temp3 > 192 then
       (let dest = memcpy dest lin src (t0 + x) (64 - temp1);
            dest = memcpy dest (lin + 64 - x) src (t0 + 2048) 64;
            dest = memcpy dest (lin + 128 - x) src t1 64;
            dest = memcpy dest (lin + 192 - x) src (t1 + 2048) 64
        in (dest, linear_offset + 256 - temp1))
     else if temp3 > 128 then
       (let dest = memcpy dest lin src (t0 + 2048 + x) (64 - temp1);
            dest = memcpy dest (lin + 64 - x) src t1 64;
            dest = memcpy dest (lin + 128 - x) src (t1 + 2048) 64
        in (dest, linear_offset + 192 - temp1))
     else if temp3 > 64 then
       (let dest = memcpy dest lin src (t1 + x) (64 - temp1);
            dest = memcpy dest (lin + 64 - x) src (t1 + 2048) 64
        in (dest, linear_offset + 128 - temp1))
     else if temp3 > 0 then
       (let dest = memcpy dest lin src (t1 + 2048 + x) (64 - temp1)
        in (dest, linear_offset + 64 - temp1))
     else (dest, linear_offset))"

text \<open>A whole group of four tiles.\<close>

definition wide_round ::
  "plane \<Rightarrow> u32 \<Rightarrow> u32 \<Rightarrow> plane \<times> u32 \<times> u32 \<times> u32 \<Rightarrow> (plane \<times> u32 \<times> u32 \<times> u32) option" where
  "wide_round src temp4 j = (\<lambda>(dest, linear_offset, tiled_offset, tiled_offset1).
    let lin = unat linear_offset;
        dest = memcpy dest lin src (unat tiled_offset) 64;
        tiled_offset1 = tiled_offset1 + temp4 * 2048;
        dest = memcpy dest (lin + 64) src (unat tiled_offset + 2048) 64;
        dest = memcpy dest (lin + 128) src (unat tiled_offset1) 64;
        dest = memcpy dest (lin + 192) src (unat tiled_offset1 + 2048) 64
    in Some (dest, linear_offset + 256, tiled_offset + temp4 * 2048, tiled_offset1))"

text \<open>The rest of the line.\<close>

definition wide_last :: "plane \<Rightarrow> u32 \<Rightarrow> u32 \<Rightarrow> u32 \<Rightarrow> u32 \<Rightarrow> plane \<Rightarrow> plane" where
  "wide_last src temp2 linear_offset tiled_offset tiled_offset1 dest =
    (let lin = unat linear_offset; t0 = unat tiled_offset; t1 = unat tiled_offset1 in
     if temp2 > 192 then
       (let dest = memcpy dest lin src t0 64;
            dest = memcpy dest (lin + 64) src (t0 + 2048) 64;
            dest = memcpy dest (lin + 128) src t1 64
        in memcpy dest (lin + 192) src (t1 + 2048) (temp2 - 192))
     else if temp2 > 128 then
       (let dest = memcpy dest lin src t0 64;
            dest = memcpy dest (lin + 64) src (t0 + 2048) 64
        in memcpy dest (lin + 128) src t1 (temp2 - 128))
     else if temp2 > 64 then
       (let dest = memcpy dest lin src t0 64
        in memcpy dest (lin + 64) src (t0 + 2048) (temp2 - 64))
     else memcpy dest lin src t0 temp2)"

definition wide_row :: "plane \<Rightarrow> u32 \<Rightarrow> u32 \<Rightarrow> u32 \<Rightarrow> u32 \<Rightarrow> u32 \<Rightarrow> u32 \<Rightarrow> plane \<Rightarrow> plane option" where
  "wide_row src yuv420_width yuv420_height left top' right i dest =
    (case tile_group yuv420_width yuv420_height left i of (tiled_offset, tiled_offset1, temp4) \<Rightarrow>
     let temp1 = i AND 0x1F;
         tiled_offset = tiled_offset + 64 * temp1;
         tiled_offset1 = tiled_offset1 + 64 * temp1;
         temp2 = yuv420_width - left - right;
         linear_offset = temp2 * (i - top');
         temp3 = push_bit 8 (drop_bit 8 (left + 256)) - left;
         temp1 = left AND 0x3F
     in (case wide_first src temp3 temp1 linear_offset tiled_offset tiled_offset1 dest of (dest, linear_offset) \<Rightarrow>
     let tiled_offset = tiled_offset + temp4 * 2048;
         j = push_bit 8 (drop_bit 8 left) + 256;
         temp2 = yuv420_width - right - 256
     in Option.bind (for_le 256 temp2 (wide_round src temp4) j (dest, linear_offset, tiled_offset, tiled_offset1))
       (\<lambda>(j, dest, linear_offset, tiled_offset, tiled_offset1).
          Some (wide_last src (yuv420_width - right - j) linear_offset tiled_offset
                  (tiled_offset1 + temp4 * 2048) dest))))"

section \<open>One line of a narrower picture\<close>

definition tile_read :: "u32 \<Rightarrow> u32 \<Rightarrow> u32 \<Rightarrow> u32 \<Rightarrow> u32" where
  "tile_read x_size y_size x_pos y_pos =
    word_of_int (tile_4x2_read (sint x_size) (sint y_size) (sint x_pos) (sint y_pos))"

text \<open>At most two whole tiles follow the first one; \<open>temp1\<close> is the width and \<open>temp3\<close> the right edge.\<close>

definition mid_tile ::
  "plane \<Rightarrow> u32 \<Rightarrow> u32 \<Rightarrow> u32 \<Rightarrow> u32 \<Rightarrow> plane \<times> u32 \<times> u32 \<Rightarrow> plane \<times> u32 \<times> u32" where
  "mid_tile src yuv420_width yuv420_height i temp3 = (\<lambda>(dest, linear_offset, j).
    if j + 64 \<le> temp3 then
      (let tiled_offset = tile_read yuv420_width yuv420_height j i
       in (memcpy dest (unat linear_offset) src (unat tiled_offset) 64, linear_offset + 64, j + 64))
    else (dest, linear_offset, j))"

definition mid_row ::
  "plane \<Rightarrow> u32 \<Rightarrow> u32 \<Rightarrow> u32 \<Rightarrow> u32 \<Rightarrow> u32 \<Rightarrow> u32 \<Rightarrow> u32 \<Rightarrow> plane \<Rightarrow> plane option" where
  "mid_row src yuv420_width yuv420_height left top' temp1 temp3 i dest =
    (let j = left;
         tiled_offset = tile_read yuv420_width yuv420_height j i;
         temp2 = push_bit 6 (drop_bit 6 (j + 64)) - j;
         linear_offset = temp1 * (i - top');
         tiled_offset = tiled_offset + (j AND 3);
         dest = memcpy dest (unat linear_offset) src (unat tiled_offset) temp2
     in (case mid_tile src yuv420_width yuv420_height i temp3
               (mid_tile src yuv420_width yuv420_height i temp3 (dest, linear_offset + temp2, j + temp2)) of
         (dest, linear_offset, j) \<Rightarrow>
           if j < temp3 then
             let tiled_offset = tile_read yuv420_width yuv420_height j i;
                 temp2 = temp3 - j
             in Some (memcpy dest (unat linear_offset) src (unat tiled_offset) temp2)
           else Some dest))"

definition narrow_pair ::
  "plane \<Rightarrow> u32 \<Rightarrow> u32 \<Rightarrow> u32 \<Rightarrow> u32 \<Rightarrow> plane \<times> u32 \<Rightarrow> (plane \<times> u32) option" where
  "narrow_pair src yuv420_width yuv420_height i j = (\<lambda>(dest, linear_offset).
    let tiled_offset = tile_read yuv420_width yuv420_height j i;
        temp4 = j AND 3;
        tiled_offset = tiled_offset + temp4
    in Some (memcpy dest (unat linear_offset) src (unat tiled_offset) 2, linear_offset + 2))"

definition narrow_row ::
  "plane \<Rightarrow> u32 \<Rightarrow> u32 \<Rightarrow> u32 \<Rightarrow> u32 \<Rightarrow> u32 \<Rightarrow> u32 \<Rightarrow> u32 \<Rightarrow> plane \<Rightarrow> plane option" where
  "narrow_row src yuv420_width yuv420_height left top' right temp1 i dest =
    map_option fst (for_lt 2 (yuv420_width - right) (narrow_pair src yuv420_width yuv420_height i) left
      (dest, temp1 * (i - top')))"

section \<open>The conversion\<close>

definition csc_tiled_to_linear_crop ::
  "plane \<Rightarrow> plane \<Rightarrow> u32 \<Rightarrow> u32 \<Rightarrow> u32 \<Rightarrow> u32 \<Rightarrow> u32 \<Rightarrow> u32 \<Rightarrow> plane option" where
  "csc_tiled_to_linear_crop yuv420_dest nv12t_src yuv420_width yuv420_height left top' right buttom =
    (let temp3 = yuv420_width - right;
         temp1 = temp3 - left in
     if temp1 \<ge> 256 then
       for_lt 1 (yuv420_height - buttom)
         (wide_row nv12t_src yuv420_width yuv420_height left top' right) top' yuv420_dest
     else if temp1 \<ge> 64 then
       for_lt 1 (yuv420_height - buttom)
         (mid_row nv12t_src yuv420_width yuv420_height left top' temp1 temp3) top' yuv420_dest
     else
       for_lt 1 (yuv420_height - buttom)
         (narrow_row nv12t_src yuv420_width yuv420_height left top' right temp1) top' yuv420_dest)"

definition csc_tiled_to_linear_y :: "plane \<Rightarrow> plane \<Rightarrow> u32 \<Rightarrow> u32 \<Rightarrow> plane option" where
  "csc_tiled_to_linear_y y_dst y_src width height = csc_tiled_to_linear_crop y_dst y_src width height 0 0 0 0"

definition csc_tiled_to_linear_uv :: "plane \<Rightarrow> plane \<Rightarrow> u32 \<Rightarrow> u32 \<Rightarrow> plane option" where
  "csc_tiled_to_linear_uv uv_dst uv_src width height = csc_tiled_to_linear_crop uv_dst uv_src width height 0 0 0 0"

section \<open>The formulas compute the layout\<close>

lemma x_block_num_nat: "w \<le> 16384 \<Longrightarrow> x_block_num (of_nat w) = of_nat (tile_columns w)"
proof -
  assume "w \<le> 16384"
  then have "drop_bit 7 (of_nat (w + 127) :: u32) = of_nat ((w + 127) div 128)" by (simp only: csc_word) simp
  moreover have "((w + 127) div 128) * 128 div 64 = tile_columns w" by (simp add: tile_columns_def)
  moreover have "((w + 127) div 128) * 128 < 4294967296" using \<open>w \<le> 16384\<close> by linarith
  ultimately show ?thesis by (simp add: x_block_num_def push_bit_u32 drop_bit_u32 del: of_nat_mult)
qed

lemma odd_formula_nat:
  "w \<le> 16384 \<Longrightarrow> x < 4294967296 \<Longrightarrow> odd y \<Longrightarrow>
   odd_formula (of_nat w) (of_nat x) (of_nat y) = of_nat (2048 * tile_index w h x y)"
  by (auto simp: odd_formula_def x_block_num_nat drop_bit_u32 push_bit_eq_mult tile_index_def algebra_simps elim!: oddE)

lemma even1_formula_nat:
  "w \<le> 16384 \<Longrightarrow> x + 2 < 4294967296 \<Longrightarrow> even y \<Longrightarrow> y + 1 < tile_rows h \<Longrightarrow>
   even1_formula (of_nat w) (of_nat x) (of_nat y) = of_nat (2048 * tile_index w h x y)"
  using drop_bit_u32 [of "x + 2" 2]
  by (simp add: even1_formula_def x_block_num_nat push_bit_eq_mult tile_index_def algebra_simps)

lemma even2_formula_nat:
  "w \<le> 16384 \<Longrightarrow> even y \<Longrightarrow> \<not> y + 1 < tile_rows h \<Longrightarrow>
   even2_formula (of_nat w) (of_nat x) (of_nat y) = of_nat (2048 * tile_index w h x y)"
  by (simp add: even2_formula_def x_block_num_nat push_bit_eq_mult tile_index_def algebra_simps)

lemma rows_test_nat:
  assumes "h \<le> 16384" "i < h"
  shows "(of_nat i + 32 < (push_bit 5 (drop_bit 5 (of_nat h + 31)) :: u32)) \<longleftrightarrow> i div 32 + 1 < tile_rows h"
proof -
  have "push_bit 5 (drop_bit 5 (of_nat h + 31)) = (of_nat (tile_rows h * 32) :: u32)"
    using assms drop_bit_u32 [of "h + 31" 5] by (simp add: push_bit_eq_mult tile_rows_def mult.commute)
  moreover have "of_nat i + 32 = (of_nat (i + 32) :: u32)" by simp
  moreover have "tile_rows h * 32 < 4294967296" "i + 32 < 4294967296" using assms by (simp_all add: tile_rows_def)
  moreover have "i + 32 < tile_rows h * 32 \<longleftrightarrow> i div 32 + 1 < tile_rows h" by linarith
  ultimately show ?thesis by (simp only: of_nat_less_u32)
qed

text \<open>How the layout continues along a line: tiles come in pairs, pairs in groups of four.\<close>

definition group_step :: "nat \<Rightarrow> nat \<Rightarrow> nat" where
  "group_step h Y = (if even Y \<and> \<not> Y + 1 < tile_rows h then 4 else 8)"

definition half_step :: "nat \<Rightarrow> nat \<Rightarrow> nat" where
  "half_step h Y = (if even Y \<and> Y + 1 < tile_rows h then 6 else 2)"

lemma tile_index_next_group: "tile_index w h (X + 4) Y = tile_index w h X Y + group_step h Y"
  using div_add_self2 [of 4 X] div_add_self2 [of 4 "X + 2"] by (auto simp: tile_index_def group_step_def add.commute)

lemma tile_index_in_group:
  "tile_index w h (4 * g + 1) Y = tile_index w h (4 * g) Y + 1"
  "tile_index w h (4 * g + 2) Y = tile_index w h (4 * g) Y + half_step h Y"
  "tile_index w h (4 * g + 3) Y = tile_index w h (4 * g) Y + half_step h Y + 1"
proof -
  have d: "(4 * g + k) div 4 = g" if "k < 4" for k using that by simp
  have d': "(4 * g + k + 2) div 4 = g + (if k < 2 then 0 else 1)" if "k < 4" for k
    using that by (cases "k < 2") simp_all
  show "tile_index w h (4 * g + 1) Y = tile_index w h (4 * g) Y + 1"
    "tile_index w h (4 * g + 2) Y = tile_index w h (4 * g) Y + half_step h Y"
    "tile_index w h (4 * g + 3) Y = tile_index w h (4 * g) Y + half_step h Y + 1"
    using d [of 0] d [of 1] d [of 2] d [of 3] d' [of 0] d' [of 1] d' [of 2] d' [of 3]
    unfolding tile_index_def half_step_def by simp_all
qed

lemma tile_group_nat:
  assumes "w \<le> 16384" "h \<le> 16384" "l \<le> w" "i < h"
  shows "tile_group (of_nat w) (of_nat h) (of_nat l) (of_nat i) =
    (of_nat (2048 * tile_index w h (4 * (l div 256)) (i div 32)),
     of_nat (2048 * tile_index w h (4 * (l div 256) + 2) (i div 32)), of_nat (group_step h (i div 32)))"
proof -
  let ?X = "4 * (l div 256)" and ?Y = "i div 32"
  have X: "drop_bit 6 (push_bit 8 (drop_bit 8 (of_nat l :: u32))) = of_nat ?X"
    using assms drop_bit_u32 [of l 8] drop_bit_u32 [of "l div 256 * 256" 6] by (simp add: push_bit_u32 del: of_nat_mult)
  have Y: "drop_bit 5 (of_nat i :: u32) = of_nat ?Y" using assms drop_bit_u32 [of i 5] by simp
  have par: "(of_nat ?Y AND (1::u32) \<noteq> 0) \<longleftrightarrow> odd ?Y"
    using assms and_u32(1) [of ?Y] by (cases "odd ?Y") (simp_all add: odd_iff_mod_2_eq_one even_iff_mod_2_eq_zero)
  have two: "2048 * tile_index w h (?X + 2) ?Y = 2048 * tile_index w h ?X ?Y + 2048 * half_step h ?Y"
    by (simp only: tile_index_in_group(2) distrib_left)
  have b: "?X + 2 < 4294967296" using assms by simp
  show ?thesis
    unfolding tile_group_def Let_def X Y par rows_test_nat [OF assms(2,4)] two
    using assms odd_formula_nat [of w ?X ?Y h] even1_formula_nat [of w ?X ?Y h] even2_formula_nat [of w ?Y h ?X] b
    by (simp add: half_step_def group_step_def)
qed

section \<open>Lines of the linear picture\<close>

definition linear_place :: "nat \<Rightarrow> nat \<times> nat \<Rightarrow> nat" where
  "linear_place rw = (\<lambda>(px, py). rw * py + px)"

lemma linear_place_inj: "inj_on (linear_place rw) ({..<rw} \<times> UNIV)"
proof (rule inj_onI, clarsimp simp: linear_place_def)
  fix px py px' py' assume a: "rw * py + px = rw * py' + px'" "px < rw" "px' < rw"
  have "(rw * py + px) div rw = py" "(rw * py' + px') div rw = py'"
    "(rw * py + px) mod rw = px" "(rw * py' + px') mod rw = px'" using a(2,3) by simp_all
  then show "px = px' \<and> py = py'" using a(1) by metis
qed

interpretation linear: layout "linear_place rw" "{..<rw} \<times> UNIV" for rw
  by unfold_locales (rule linear_place_inj)

text \<open>Columns \<open>a\<close> to \<open>b\<close> of line \<open>py\<close> have been written.\<close>

definition line_done :: "nat \<Rightarrow> (nat \<times> nat \<Rightarrow> u8) \<Rightarrow> nat \<Rightarrow> nat \<Rightarrow> nat \<Rightarrow> plane \<Rightarrow> plane \<Rightarrow> bool" where
  "line_done rw v py a b d d' \<longleftrightarrow> moved (linear_place rw) v ({a..<b} \<times> {py}) d d'"

lemma line_done_trans:
  assumes "line_done rw v py a b d d1" "line_done rw v py b c d1 d2" "a \<le> b" "b \<le> c" "c \<le> rw"
  shows "line_done rw v py a c d d2"
proof -
  have "moved (linear_place rw) v ({a..<b} \<times> {py} \<union> {b..<c} \<times> {py}) d d2"
    using assms unfolding line_done_def by (intro linear.moved_Un) auto
  moreover have "{a..<b} \<times> {py} \<union> {b..<c} \<times> {py} = {a..<c} \<times> {py}" using assms by auto
  ultimately show ?thesis by (simp add: line_done_def)
qed

lemma line_done_refl: "line_done rw v py a a d d"
  by (simp add: line_done_def)

lemma line_done_memcpy:
  assumes "\<And>e. e < n \<Longrightarrow> v (a + e, py) = src (s_off + e)" "d_off = rw * py + a" "unat m = n" "b = a + n"
  shows "line_done rw v py a b d (memcpy d d_off src s_off m)"
proof -
  have "moved (linear_place rw) v ((\<lambda>e. (a + e, py)) ` {..<unat m}) d (memcpy d d_off src s_off m)"
    by (rule memcpy_moved) (use assms in \<open>auto simp: linear_place_def\<close>)
  moreover have "(\<lambda>e. (a + e, py)) ` {..<unat m} = {a..<b} \<times> {py}"
  proof -
    have "\<exists>e\<in>{..<unat m}. x = a + e" if "a \<le> x" "x < b" for x
      using that assms(3,4) by (intro bexI [of _ "x - a"]) auto
    then show ?thesis using assms(3,4) by (auto simp: image_iff)
  qed
  ultimately show ?thesis by (simp add: line_done_def)
qed

text \<open>What a line of the picture should hold.\<close>

definition tiled_pixel :: "plane \<Rightarrow> nat \<Rightarrow> nat \<Rightarrow> nat \<Rightarrow> nat \<Rightarrow> nat \<times> nat \<Rightarrow> u8" where
  "tiled_pixel src w h l t = (\<lambda>(px, py). src (tile_addr w h (l + px) (t + py)))"

lemma tile_addr_run: "x mod 64 + e < 64 \<Longrightarrow> tile_addr w h (x + e) y = tile_addr w h x y + e"
proof -
  assume a: "x mod 64 + e < 64"
  have "(64 * q + (r + e)) div 64 = q" "(64 * q + (r + e)) mod 64 = r + e" if "r + e < 64" for q r
    using that by simp_all
  from this [OF a, of "x div 64"] have "(x + e) div 64 = x div 64" "(x + e) mod 64 = x mod 64 + e"
    by (simp_all only: add.assoc [symmetric] mult_div_mod_eq)
  then show ?thesis by (simp add: tile_addr_def)
qed

lemma line_done_tile:
  assumes "(l + a) mod 64 + n \<le> 64" "d_off = rw * py + a" "unat m = n" "b = a + n"
    "s_off = tile_addr w h (l + a) (t + py)"
  shows "line_done rw (tiled_pixel src w h l t) py a b d (memcpy d d_off src s_off m)"
  by (rule line_done_memcpy [where n = n])
    (use assms tile_addr_run [of "l + a" _ w h "t + py"] in \<open>auto simp: tiled_pixel_def add.assoc\<close>)

section \<open>A line of a wide picture\<close>

lemma tile_addr_next_group: "tile_addr w h (x + 256) y = tile_addr w h x y + 2048 * group_step h (y div 32)"
proof -
  have "(x + 256) div 64 = x div 64 + 4" "(x + 256) mod 64 = x mod 64"
    using div_mult_self3 [of 64 x 4] mod_mult_self1 [of x 4 64] by simp_all
  then show ?thesis by (simp add: tile_addr_def tile_index_next_group distrib_left)
qed

lemma tile_addr_in_group:
  "tile_addr w h (256 * g + 64) y = tile_addr w h (256 * g) y + 2048"
  "tile_addr w h (256 * g + 192) y = tile_addr w h (256 * g + 128) y + 2048"
proof -
  have "(256 * g + 64 * k) div 64 = 4 * g + k" "(256 * g + 64 * k) mod 64 = 0" for k
  proof -
    have e: "256 * g + 64 * k = 64 * (4 * g + k)" by simp
    show "(256 * g + 64 * k) div 64 = 4 * g + k" "(256 * g + 64 * k) mod 64 = 0" unfolding e by simp_all
  qed
  from this [of 0] this [of 1] this [of 2] this [of 3] show
    "tile_addr w h (256 * g + 64) y = tile_addr w h (256 * g) y + 2048"
    "tile_addr w h (256 * g + 192) y = tile_addr w h (256 * g + 128) y + 2048"
    using tile_index_in_group [of w h g "y div 32"] unfolding tile_addr_def by simp_all
qed

lemma tile_addr_small:
  assumes "w \<le> 16384" "x \<le> 17000" "y < 16384"
  shows "tile_addr w h x y < 1073741824"
proof -
  have Y: "y div 32 \<le> 511" using assms by linarith
  have C: "tile_columns w \<le> 256" using assms div_le_mono [of "w + 127" 16511 128] by (simp add: tile_columns_def)
  have X: "x div 64 \<le> 265" using assms by linarith
  have CY: "tile_columns w * (y div 32) \<le> 256 * 511" using mult_le_mono [OF C Y] .
  have CY': "tile_columns w * (y div 32 - 1) \<le> 256 * 511"
    using mult_le_mono [OF C, of "y div 32 - 1" 511] Y by simp
  have X2: "4 * ((x div 64 + 2) div 4) \<le> 267" "4 * (x div 64 div 4) \<le> 265" using X by linarith+
  have "tile_index w h (x div 64) (y div 32) \<le> 131400"
    unfolding tile_index_def using X X2 CY CY' by (auto split: if_splits)
  moreover have "y mod 32 < 32" "x mod 64 < 64" by simp_all
  ultimately show ?thesis unfolding tile_addr_def by linarith
qed

text \<open>The setting of the row lemmas.\<close>

definition crop_fits :: "nat \<Rightarrow> nat \<Rightarrow> nat \<Rightarrow> nat \<Rightarrow> nat \<Rightarrow> nat \<Rightarrow> bool" where
  "crop_fits w h l t r b \<longleftrightarrow> w \<le> 16384 \<and> h \<le> 16384 \<and> l + r \<le> w \<and> t + b \<le> h"

lemma line_done_step:
  assumes "line_done rw (tiled_pixel src w h l t) py 0 a d d1"
    "l + a = x" "x mod 64 + n \<le> 64" "d_off = rw * py + a" "unat m = n"
    "s_off = tile_addr w h x (t + py)" "b = a + n" "b \<le> rw"
  shows "line_done rw (tiled_pixel src w h l t) py 0 b d (memcpy d1 d_off src s_off m)"
proof (rule line_done_trans [OF assms(1)])
  show "line_done rw (tiled_pixel src w h l t) py a b d1 (memcpy d1 d_off src s_off m)"
    by (rule line_done_tile) (use assms in auto)
qed (use assms in auto)

lemma wide_first_nat:
  fixes src d :: plane
  assumes "A < 1073741824" "B < 1073741824" "P < 1073741824" "m < 64"
  defines "d1 \<equiv> \<lambda>s. memcpy d P src s (of_nat (64 - m))"
  shows
    "wide_first src (of_nat (256 - m)) (of_nat m) (of_nat P) (of_nat A) (of_nat B) d =
       (memcpy (memcpy (memcpy (d1 (A + m)) (P + (64 - m)) src (A + 2048) 64) (P + (128 - m)) src B 64)
          (P + (192 - m)) src (B + 2048) 64, of_nat (P + (256 - m)))" (is ?w0)
    "wide_first src (of_nat (192 - m)) (of_nat m) (of_nat P) (of_nat A) (of_nat B) d =
       (memcpy (memcpy (d1 (A + 2048 + m)) (P + (64 - m)) src B 64)
          (P + (128 - m)) src (B + 2048) 64, of_nat (P + (192 - m)))" (is ?w1)
    "wide_first src (of_nat (128 - m)) (of_nat m) (of_nat P) (of_nat A) (of_nat B) d =
       (memcpy (d1 (B + m)) (P + (64 - m)) src (B + 2048) 64, of_nat (P + (128 - m)))" (is ?w2)
    "wide_first src (of_nat (64 - m)) (of_nat m) (of_nat P) (of_nat A) (of_nat B) d =
       (d1 (B + 2048 + m), of_nat (P + (64 - m)))" (is ?w3)
proof -
  have un: "unat (of_nat m :: u32) = m" "unat (of_nat A :: u32) = A" "unat (of_nat B :: u32) = B"
    "unat (of_nat P :: u32) = P"
    using assms by (simp_all add: unat_u32)
  have s: "64 - of_nat m = (of_nat (64 - m) :: u32)" using assms by (simp add: of_nat_diff)
  have lin: "of_nat P + 256 - of_nat m = (of_nat (P + (256 - m)) :: u32)" "of_nat P + 192 - of_nat m = (of_nat (P + (192 - m)) :: u32)"
    "of_nat P + 128 - of_nat m = (of_nat (P + (128 - m)) :: u32)" "of_nat P + 64 - of_nat m = (of_nat (P + (64 - m)) :: u32)"
    using assms by (simp_all add: of_nat_diff)
  have P: "P + 64 - m = P + (64 - m)" "P + 128 - m = P + (128 - m)" "P + 192 - m = P + (192 - m)" using assms by simp_all
  have gt: "((192 :: u32) < of_nat c) \<longleftrightarrow> 192 < c" "((128 :: u32) < of_nat c) \<longleftrightarrow> 128 < c"
    "((64 :: u32) < of_nat c) \<longleftrightarrow> 64 < c" "((0 :: u32) < of_nat c) \<longleftrightarrow> 0 < c" if "c \<le> 256" for c
    using that of_nat_less_u32 [of 192 c] of_nat_less_u32 [of 128 c] of_nat_less_u32 [of 64 c] of_nat_less_u32 [of 0 c]
    by simp_all
  have g: "(192 :: u32) < of_nat (256 - m)" "\<not> (192 :: u32) < of_nat (192 - m)" "(128 :: u32) < of_nat (192 - m)"
    "\<not> (192 :: u32) < of_nat (128 - m)" "\<not> (128 :: u32) < of_nat (128 - m)" "(64 :: u32) < of_nat (128 - m)"
    "\<not> (192 :: u32) < of_nat (64 - m)" "\<not> (128 :: u32) < of_nat (64 - m)" "\<not> (64 :: u32) < of_nat (64 - m)"
    "(0 :: u32) < of_nat (64 - m)"
    using assms(4) by (simp_all add: gt del: of_nat_diff)
  show ?w0 ?w1 ?w2 ?w3
    unfolding wide_first_def Let_def s un lin P d1_def by (simp_all only: g if_True if_False not_False_eq_True)
qed

lemma column_split:
  fixes l :: nat
  obtains g k where "l = 256 * g + 64 * k + l mod 64" "k < 4" "g = l div 256" "l mod 64 < 64"
proof
  have "l mod 256 mod 64 = l mod 64" by (rule mod_mod_cancel) simp
  then have "l mod 256 = 64 * (l mod 256 div 64) + l mod 64" using mult_div_mod_eq [of 64 "l mod 256"] by simp
  then show "l = 256 * (l div 256) + 64 * (l mod 256 div 64) + l mod 64" using mult_div_mod_eq [of 256 l] by linarith
  show "l mod 256 div 64 < 4" by (simp add: less_mult_imp_div_less)
qed simp_all

lemma mod_64_group [simp]: "(256 * g + 64) mod 64 = 0" "(256 * g + 128) mod 64 = 0" "(256 * g + 192) mod 64 = 0"
  "(256 * g) mod 64 = (0::nat)"
  using mod_mult_self2 [of 0 64 "4 * g"] mod_mult_self2 [of 0 64 "4 * g + 1"] mod_mult_self2 [of 0 64 "4 * g + 2"]
    mod_mult_self2 [of 0 64 "4 * g + 3"] by (simp_all add: algebra_simps)

lemma wide_first_done:
  assumes "w \<le> 16384" "l + 256 \<le> w" "y = t + py" "y < 16384" "256 \<le> rw" "P = rw * py" "P < 1073741824"
    "g = l div 256" "c = 256 * (g + 1) - l"
  shows "\<exists>d'. wide_first src (of_nat c) (of_nat (l mod 64)) (of_nat P) (of_nat (tile_addr w h (256 * g) y))
      (of_nat (tile_addr w h (256 * g + 128) y)) d = (d', of_nat (P + c)) \<and>
    line_done rw (tiled_pixel src w h l t) py 0 c d d'"
proof -
  obtain k where l: "l = 256 * g + 64 * k + l mod 64" and k: "k < 4" using column_split [of l] assms(8) by metis
  define m where "m = l mod 64"
  have m: "m < 64" by (simp add: m_def)
  have l': "l = 256 * g + 64 * k + m" using l by (simp add: m_def)
  have c: "c = 256 - 64 * k - m" unfolding assms(9) using l' by simp
  let ?A = "tile_addr w h (256 * g) y" and ?B = "tile_addr w h (256 * g + 128) y"
  have gl: "256 * g \<le> l" using l' by linarith
  have A: "?A < 1073741824" "?B < 1073741824" by (rule tile_addr_small, use assms(1,2,4) gl in simp_all)+
  have um: "unat (of_nat (64 - m) :: u32) = 64 - m" by (rule unat_u32) simp
  have "(256 * g + 64 * k) mod 64 = 0" using mod_mult_self2 [of 0 64 "4 * g + k"] by (simp add: algebra_simps)
  then have run: "tile_addr w h (256 * g + 64 * k) y + m = tile_addr w h l y"
    using tile_addr_run [of "256 * g + 64 * k" m w h y] m l' by simp
  have start: "line_done rw (tiled_pixel src w h l t) py 0 (64 - m) d
      (memcpy d P src (tile_addr w h l y) (of_nat (64 - m)))"
    by (rule line_done_step [OF line_done_refl, where n = "64 - m" and x = l])
      (use assms(3,5,6) um m in \<open>simp_all add: m_def [symmetric]\<close>)
  note step = line_done_step [where n = 64]
  note nat = wide_first_nat [OF A assms(7) m, of src d]
  consider "k = 0" | "k = 1" | "k = 2" | "k = 3" using k by linarith
  then show ?thesis
  proof cases
    case 1
    then have r: "?A + m = tile_addr w h l y" and l0: "l = 256 * g + m" using run l' by simp_all
    show ?thesis unfolding c 1 m_def [symmetric] mult_0_right diff_zero nat(1) r
      by (intro exI conjI, rule refl)
        (rule step [where x = "256 * g + 192" and a = "192 - m"], rule step [where x = "256 * g + 128" and a = "128 - m"],
         rule step [where x = "256 * g + 64" and a = "64 - m"], rule start,
         use assms(3,5,6) m l0 in \<open>auto simp: tile_addr_in_group\<close>)
  next
    case 2
    then have r: "?A + 2048 + m = tile_addr w h l y" and l0: "l = 256 * g + 64 + m" and c': "c = 192 - m"
      using run l' c by (simp_all add: tile_addr_in_group)
    show ?thesis unfolding c' m_def [symmetric] nat(2) r
      by (intro exI conjI, rule refl)
        (rule step [where x = "256 * g + 192" and a = "128 - m"], rule step [where x = "256 * g + 128" and a = "64 - m"],
         rule start, use assms(3,5,6) m l0 in \<open>auto simp: tile_addr_in_group\<close>)
  next
    case 3
    then have r: "?B + m = tile_addr w h l y" and l0: "l = 256 * g + 128 + m" and c': "c = 128 - m"
      using run l' c by (simp_all add: tile_addr_in_group)
    show ?thesis unfolding c' m_def [symmetric] nat(3) r
      by (intro exI conjI, rule refl)
        (rule step [where x = "256 * g + 192" and a = "64 - m"], rule start,
         use assms(3,5,6) m l0 in \<open>auto simp: tile_addr_in_group\<close>)
  next
    case 4
    then have r: "?B + 2048 + m = tile_addr w h l y" and c': "c = 64 - m"
      using run l' c by (simp_all add: tile_addr_in_group)
    show ?thesis unfolding c' m_def [symmetric] nat(4) r using start by blast
  qed
qed

lemma wide_round_done:
  assumes "w \<le> 16384" "256 * g + 256 \<le> w" "y = t + py" "y < 16384" "P = rw * py + a" "P < 1073741824"
    "l + a = 256 * g" "0 < g" "a + 256 \<le> rw" "line_done rw (tiled_pixel src w h l t) py 0 a d d1"
  shows "\<exists>d2. wide_round src (of_nat (group_step h (y div 32))) J
      (d1, of_nat P, of_nat (tile_addr w h (256 * g) y), of_nat (tile_addr w h (256 * g - 128) y)) =
      Some (d2, of_nat (P + 256), of_nat (tile_addr w h (256 * g + 256) y), of_nat (tile_addr w h (256 * g + 128) y)) \<and>
    line_done rw (tiled_pixel src w h l t) py 0 (a + 256) d d2"
proof -
  let ?A = "tile_addr w h (256 * g) y" and ?B = "tile_addr w h (256 * g + 128) y" and ?K = "group_step h (y div 32)"
  have A: "?A < 1073741824" "?B < 1073741824" by (rule tile_addr_small, use assms(1,2,4) in simp_all)+
  have un: "unat (of_nat P :: u32) = P" "unat (of_nat ?A :: u32) = ?A" "unat (of_nat ?B :: u32) = ?B"
    using A assms(6) by (simp_all add: unat_u32)
  have g: "256 * g - 128 + 256 = 256 * g + 128" using assms(8) by simp
  have K: "?A + 2048 * ?K = tile_addr w h (256 * g + 256) y" "tile_addr w h (256 * g - 128) y + 2048 * ?K = ?B"
    using tile_addr_next_group [of w h "256 * g" y] tile_addr_next_group [of w h "256 * g - 128" y] g by simp_all
  have K': "of_nat ?A + of_nat ?K * 2048 = (of_nat (tile_addr w h (256 * g + 256) y) :: u32)"
    "of_nat (tile_addr w h (256 * g - 128) y) + of_nat ?K * 2048 = (of_nat ?B :: u32)"
    unfolding K [symmetric] by (simp_all add: mult.commute)
  note step = line_done_step [where n = 64]
  show ?thesis
    unfolding wide_round_def prod.case Let_def K' un
    by (intro exI conjI, simp)
      (rule step [where x = "256 * g + 192" and a = "a + 192"], rule step [where x = "256 * g + 128" and a = "a + 128"],
       rule step [where x = "256 * g + 64" and a = "a + 64"], rule step [where x = "256 * g" and a = a],
       use assms(7,9,10) in \<open>simp_all add: assms(3,5) tile_addr_in_group\<close>)
qed

lemma wide_last_done:
  assumes "w \<le> 16384" "256 * g \<le> w" "y = t + py" "y < 16384" "P = rw * py + a" "P < 1073741824"
    "l + a = 256 * g" "rw = a + n" "n < 256" "line_done rw (tiled_pixel src w h l t) py 0 a d d1"
  shows "line_done rw (tiled_pixel src w h l t) py 0 rw d
    (wide_last src (of_nat n) (of_nat P) (of_nat (tile_addr w h (256 * g) y)) (of_nat (tile_addr w h (256 * g + 128) y)) d1)"
proof -
  let ?A = "tile_addr w h (256 * g) y" and ?B = "tile_addr w h (256 * g + 128) y"
  have A: "?A < 1073741824" "?B < 1073741824" by (rule tile_addr_small, use assms(1,2,4) in simp_all)+
  have un: "unat (of_nat P :: u32) = P" "unat (of_nat ?A :: u32) = ?A" "unat (of_nat ?B :: u32) = ?B"
    using A assms(6) by (simp_all add: unat_u32)
  have gt: "((192 :: u32) < of_nat n) \<longleftrightarrow> 192 < n" "((128 :: u32) < of_nat n) \<longleftrightarrow> 128 < n" "((64 :: u32) < of_nat n) \<longleftrightarrow> 64 < n"
    using assms(9) of_nat_less_u32 [of 192 n] of_nat_less_u32 [of 128 n] of_nat_less_u32 [of 64 n] by simp_all
  have rest: "unat (of_nat n :: u32) = n" "192 < n \<Longrightarrow> unat (of_nat n - 192 :: u32) = n - 192"
    "128 < n \<Longrightarrow> unat (of_nat n - 128 :: u32) = n - 128" "64 < n \<Longrightarrow> unat (of_nat n - 64 :: u32) = n - 64"
    using assms(9) unat_u32 [of n] unat_u32 [of "n - 192"] unat_u32 [of "n - 128"] unat_u32 [of "n - 64"]
    by (simp_all add: of_nat_diff)
  note step = line_done_step [where n = 64]
  consider "192 < n" | "128 < n" "n \<le> 192" | "64 < n" "n \<le> 128" | "n \<le> 64" by linarith
  then show ?thesis
  proof cases
    case 1
    then show ?thesis unfolding wide_last_def Let_def un gt
      by (simp, intro line_done_step [where x = "256 * g + 192" and a = "a + 192" and n = "n - 192"] step [where x = "256 * g + 128" and a = "a + 128"]
         step [where x = "256 * g + 64" and a = "a + 64"] step [where x = "256 * g" and a = a])
        (use assms(7,9,10) rest in \<open>simp_all add: assms(3,5,8) tile_addr_in_group\<close>)
  next
    case 2
    then show ?thesis unfolding wide_last_def Let_def un gt
      by (simp, intro line_done_step [where x = "256 * g + 128" and a = "a + 128" and n = "n - 128"]
         step [where x = "256 * g + 64" and a = "a + 64"] step [where x = "256 * g" and a = a])
        (use assms(7,9,10) rest in \<open>simp_all add: assms(3,5,8) tile_addr_in_group\<close>)
  next
    case 3
    then show ?thesis unfolding wide_last_def Let_def un gt
      by (simp, intro line_done_step [where x = "256 * g + 64" and a = "a + 64" and n = "n - 64"] step [where x = "256 * g" and a = a])
        (use assms(7,9,10) rest in \<open>simp_all add: assms(3,5,8) tile_addr_in_group\<close>)
  next
    case 4
    then show ?thesis unfolding wide_last_def Let_def un gt
      by (simp, intro line_done_step [where x = "256 * g" and a = a and n = n])
        (use assms(7,9,10) rest in \<open>simp_all add: assms(3,5,8) tile_addr_in_group\<close>)
  qed
qed

lemma tile_addr_group_start:
  "tile_addr w h (256 * g) y = 2048 * tile_index w h (4 * g) (y div 32) + 64 * (y mod 32)"
  "tile_addr w h (256 * g + 128) y = 2048 * tile_index w h (4 * g + 2) (y div 32) + 64 * (y mod 32)"
proof -
  have "256 * g div 64 = 4 * g" by simp
  moreover have "(256 * g + 128) div 64 = 4 * g + 2" by simp
  ultimately show "tile_addr w h (256 * g) y = 2048 * tile_index w h (4 * g) (y div 32) + 64 * (y mod 32)"
    "tile_addr w h (256 * g + 128) y = 2048 * tile_index w h (4 * g + 2) (y div 32) + 64 * (y mod 32)"
    unfolding tile_addr_def by simp_all
qed

lemma wide_loop_done:
  assumes "w \<le> 16384" "r \<le> w" "rw = w - l - r" "y = t + py" "y < 16384" "P = rw * py" "P < 268500000"
    "0 < g" "l + a = 256 * g" "256 * g \<le> w - r" "line_done rw (tiled_pixel src w h l t) py 0 a d d1"
  shows "\<exists>d2 g' a'. for_le 256 (of_nat (w - r - 256)) (wide_round src (of_nat (group_step h (y div 32)))) (of_nat (256 * g))
      (d1, of_nat (P + a), of_nat (tile_addr w h (256 * g) y), of_nat (tile_addr w h (256 * g - 128) y)) =
      Some (of_nat (256 * g'), d2, of_nat (P + a'), of_nat (tile_addr w h (256 * g') y), of_nat (tile_addr w h (256 * g' - 128) y)) \<and>
    0 < g' \<and> l + a' = 256 * g' \<and> 256 * g' \<le> w - r \<and> w - r - 256 < 256 * g' \<and>
    line_done rw (tiled_pixel src w h l t) py 0 a' d d2"
proof -
  let ?body = "wide_round src (of_nat (group_step h (y div 32)))"
  define Inv where "Inv n s \<longleftrightarrow> (case s of (d', lo, to, to1) \<Rightarrow> \<exists>g' a. n = 256 * g' \<and> 0 < g' \<and> l + a = n \<and> n \<le> w - r \<and>
      lo = of_nat (P + a) \<and> to = of_nat (tile_addr w h n y) \<and> to1 = of_nat (tile_addr w h (n - 128) y) \<and>
      line_done rw (tiled_pixel src w h l t) py 0 a d d')"
    for n and s :: "plane \<times> u32 \<times> u32 \<times> u32"
  have start: "Inv (256 * g) (d1, of_nat (P + a), of_nat (tile_addr w h (256 * g) y), of_nat (tile_addr w h (256 * g - 128) y))"
    unfolding Inv_def prod.case using assms(8-11) by blast
  have round: "\<exists>s'. ?body (of_nat n) s = Some s' \<and> Inv (n + 256) s'" if Is: "Inv n s" and n: "n \<le> w - r - 256" for n s
  proof -
    obtain d' g' a where s: "s = (d', of_nat (P + a), of_nat (tile_addr w h (256 * g') y), of_nat (tile_addr w h (256 * g' - 128) y))"
      and n': "n = 256 * g'" "0 < g'" "l + a = 256 * g'" "line_done rw (tiled_pixel src w h l t) py 0 a d d'"
      using Is unfolding Inv_def by (auto split: prod.splits)
    have w: "256 * g' + 256 \<le> w" "a + 256 \<le> rw" "P + a < 1073741824" "256 * g' + 256 \<le> w - r"
      using n n' assms(1,2,3,7) by auto
    obtain d2 where d2: "?body (of_nat n) s =
        Some (d2, of_nat (P + a + 256), of_nat (tile_addr w h (256 * g' + 256) y), of_nat (tile_addr w h (256 * g' + 128) y))"
      "line_done rw (tiled_pixel src w h l t) py 0 (a + 256) d d2"
      using wide_round_done [OF assms(1) w(1) assms(4,5) _ w(3) n'(3,2) w(2) n'(4), of "of_nat n"] unfolding s assms(6) by blast
    have "Inv (n + 256) (d2, of_nat (P + a + 256), of_nat (tile_addr w h (256 * g' + 256) y), of_nat (tile_addr w h (256 * g' + 128) y))"
      unfolding Inv_def prod.case using n' d2(2) w
      by (intro exI [of _ "g' + 1"] exI [of _ "a + 256"]) (simp add: algebra_simps)
    then show ?thesis using d2(1) by blast
  qed
  have "\<exists>n s'. for_le (of_nat 256) (of_nat (w - r - 256)) ?body (of_nat (256 * g))
      (d1, of_nat (P + a), of_nat (tile_addr w h (256 * g) y), of_nat (tile_addr w h (256 * g - 128) y)) = Some (of_nat n, s') \<and>
      Inv n s' \<and> w - r - 256 < n \<and> n < 4294967296"
    by (rule for_le_inv [where P = Inv, OF start]) (use assms(1,2,8-10) round in auto)
  then obtain n s' where L: "for_le 256 (of_nat (w - r - 256)) ?body (of_nat (256 * g))
      (d1, of_nat (P + a), of_nat (tile_addr w h (256 * g) y), of_nat (tile_addr w h (256 * g - 128) y)) = Some (of_nat n, s')"
    and n: "Inv n s'" "w - r - 256 < n" unfolding of_nat_numeral by blast
  obtain d2 g' a' where "s' = (d2, of_nat (P + a'), of_nat (tile_addr w h (256 * g') y), of_nat (tile_addr w h (256 * g' - 128) y))"
    "n = 256 * g'" "0 < g'" "l + a' = 256 * g'" "256 * g' \<le> w - r" "line_done rw (tiled_pixel src w h l t) py 0 a' d d2"
    using n(1) unfolding Inv_def by (auto split: prod.splits)
  then show ?thesis using L n(2) by blast
qed

lemma wide_row_done:
  assumes fits: "crop_fits w h l t r b" and rw: "rw = w - l - r" "256 \<le> rw" and i: "i = t + py" "i < h - b"
  shows "\<exists>d'. wide_row src (of_nat w) (of_nat h) (of_nat l) (of_nat t) (of_nat r) (of_nat i) d = Some d' \<and>
    line_done rw (tiled_pixel src w h l t) py 0 rw d d'"
proof -
  define g y P c where "g = l div 256" and "y = i" and "P = rw * py" and "c = 256 * (g + 1) - l"
  have f: "w \<le> 16384" "h \<le> 16384" "l + r \<le> w" "l + 256 \<le> w" "i < h" "l \<le> w" "y = t + py" "y < 16384" "rw = w - l - r"
    using fits rw i by (auto simp: crop_fits_def y_def)
  have "rw \<le> 16384" "py \<le> 16384" using f rw i by auto
  then have P: "P < 268500000" unfolding P_def using mult_le_mono [of rw 16384 py 16384] by simp
  let ?A = "tile_addr w h (256 * g) y" and ?B = "tile_addr w h (256 * g + 128) y" and ?K = "group_step h (y div 32)"
  have gl: "256 * g \<le> l" "l < 256 * (g + 1)" unfolding g_def by simp_all
  have c: "l + c = 256 * (g + 1)" "c \<le> 256" "0 < c" unfolding c_def using gl by simp_all
  have i31: "of_nat i AND (0x1F :: u32) = of_nat (i mod 32)" by (rule and_u32) (use f in simp)
  have l63: "of_nat l AND (0x3F :: u32) = of_nat (l mod 64)" by (rule and_u32) (use f in simp)
  have lin: "(of_nat w - of_nat l - of_nat r) * (of_nat i - of_nat t) = (of_nat P :: u32)"
    using f i by (simp add: P_def of_nat_diff diff_diff_eq)
  have t3: "push_bit 8 (drop_bit 8 (of_nat l + 256)) - of_nat l = (of_nat c :: u32)"
  proof -
    have "(l + 256) div 256 = g + 1" by (simp add: g_def)
    then have "drop_bit 8 (of_nat l + 256) = (of_nat (g + 1) :: u32)" using f drop_bit_u32 [of "l + 256" 8] by simp
    then show ?thesis using gl by (simp add: c_def push_bit_eq_mult of_nat_diff algebra_simps)
  qed
  have j: "push_bit 8 (drop_bit 8 (of_nat l)) + 256 = (of_nat (256 * (g + 1)) :: u32)"
    using f drop_bit_u32 [of l 8] by (simp add: push_bit_eq_mult g_def algebra_simps)
  have t2: "of_nat w - of_nat r - 256 = (of_nat (w - r - 256) :: u32)"
    using f rw by (simp add: of_nat_diff diff_diff_eq)
  have to: "of_nat (2048 * tile_index w h (4 * g) (i div 32)) + 64 * of_nat (i mod 32) = (of_nat ?A :: u32)"
    "of_nat (2048 * tile_index w h (4 * g + 2) (i div 32)) + 64 * of_nat (i mod 32) = (of_nat ?B :: u32)"
    unfolding tile_addr_group_start y_def by simp_all
  have next_group: "of_nat ?A + of_nat ?K * 2048 = (of_nat (tile_addr w h (256 * (g + 1)) y) :: u32)"
    using tile_addr_next_group [of w h "256 * g" y] by (simp add: algebra_simps)
  obtain d1 where d1: "wide_first src (of_nat c) (of_nat (l mod 64)) (of_nat P) (of_nat ?A) (of_nat ?B) d = (d1, of_nat (P + c))"
    "line_done rw (tiled_pixel src w h l t) py 0 c d d1"
    using wide_first_done [OF f(1,4,7,8) rw(2) P_def less_trans [OF P] g_def c_def, of src h d] by auto
  have "256 * (g + 1) - 128 = 256 * g + 128" "r \<le> w" "0 < g + 1" "256 * (g + 1) \<le> w - r" using f rw gl by simp_all
  then obtain d2 g' a where loop: "for_le 256 (of_nat (w - r - 256)) (wide_round src (of_nat ?K)) (of_nat (256 * (g + 1)))
      (d1, of_nat (P + c), of_nat (tile_addr w h (256 * (g + 1)) y), of_nat ?B) =
      Some (of_nat (256 * g'), d2, of_nat (P + a), of_nat (tile_addr w h (256 * g') y), of_nat (tile_addr w h (256 * g' - 128) y))"
    and e: "0 < g'" "l + a = 256 * g'" "256 * g' \<le> w - r" "w - r - 256 < 256 * g'" "line_done rw (tiled_pixel src w h l t) py 0 a d d2"
    using wide_loop_done [OF f(1) _ rw(1) f(7,8) P_def P _ c(1) _ d1(2)] by metis
  have "256 * g' - 128 + 256 = 256 * g' + 128" using e(1) by simp
  then have last1: "of_nat (tile_addr w h (256 * g' - 128) y) + of_nat ?K * 2048 = (of_nat (tile_addr w h (256 * g' + 128) y) :: u32)"
    using tile_addr_next_group [of w h "256 * g' - 128" y] by (simp add: algebra_simps)
  have last2: "of_nat w - of_nat r - of_nat (256 * g') = (of_nat (w - r - 256 * g') :: u32)"
    using f e by (simp add: of_nat_diff diff_diff_eq)
  have "line_done rw (tiled_pixel src w h l t) py 0 rw d
      (wide_last src (of_nat (w - r - 256 * g')) (of_nat (P + a)) (of_nat (tile_addr w h (256 * g') y))
        (of_nat (tile_addr w h (256 * g' + 128) y)) d2)"
    by (rule wide_last_done) (use f e P rw in \<open>auto simp: P_def\<close>)
  then show ?thesis
    unfolding wide_row_def tile_group_nat [OF f(1,2,6,5)] prod.case Let_def g_def [symmetric]
    unfolding i31 l63 lin t3 j t2 to
    unfolding y_def [symmetric] d1(1) prod.case next_group loop bind.bind_lunit last1 last2 by blast
qed

section \<open>A line of a narrower picture\<close>

lemma tile_read_nat:
  assumes "w \<le> 16384" "h \<le> 16384" "x < w" "y < h"
  shows "tile_read (of_nat w) (of_nat h) (of_nat x) (of_nat y) + (of_nat x AND 3) = of_nat (tile_addr w h x y)"
    and "x mod 64 = 0 \<Longrightarrow> tile_read (of_nat w) (of_nat h) (of_nat x) (of_nat y) = of_nat (tile_addr w h x y)"
proof -
  have r: "tile_read (of_nat w) (of_nat h) (of_nat x) (of_nat y) = word_of_int (tile_4x2_read (int w) (int h) (int x) (int y))"
    using assms by (simp add: tile_read_def sint_u32)
  have a: "tile_4x2_read (int w) (int h) (int x) (int y) + int (x mod 4) = int (tile_addr w h x y)"
    by (rule tile_4x2_read_addr) (use assms in auto)
  have "of_nat x AND (3::u32) = of_nat (x mod 4)" by (rule and_u32) (use assms in simp)
  moreover have "(word_of_int (tile_4x2_read (int w) (int h) (int x) (int y)) + of_nat (x mod 4) :: u32) =
      word_of_int (tile_4x2_read (int w) (int h) (int x) (int y) + int (x mod 4))" by simp
  ultimately show one: "tile_read (of_nat w) (of_nat h) (of_nat x) (of_nat y) + (of_nat x AND 3) = of_nat (tile_addr w h x y)"
    unfolding r a by simp
  assume "x mod 64 = 0"
  then have "x mod 4 = 0" using mod_mod_cancel [of 4 64 x] by simp
  then show "tile_read (of_nat w) (of_nat h) (of_nat x) (of_nat y) = of_nat (tile_addr w h x y)"
    using a unfolding r by simp
qed

lemma line_done_extend:
  assumes "line_done rw v py 0 a d d1" "\<And>e. e < n \<Longrightarrow> v (a + e, py) = src (s_off + e)"
    "d_off = rw * py + a" "unat m = n" "b = a + n" "b \<le> rw"
  shows "line_done rw v py 0 b d (memcpy d1 d_off src s_off m)"
proof (rule line_done_trans [OF assms(1)])
  show "line_done rw v py a b d1 (memcpy d1 d_off src s_off m)" by (rule line_done_memcpy) (use assms in auto)
qed (use assms in auto)

text \<open>
  What the loop for middle widths writes. With a left edge inside a tile, the part of the line
  after the first piece and two whole tiles can be longer than a tile; the code then goes on
  reading behind the line of the tile, which is the next line of the same tile.
\<close>

definition mid_pixel :: "plane \<Rightarrow> nat \<Rightarrow> nat \<Rightarrow> nat \<Rightarrow> nat \<Rightarrow> nat \<times> nat \<Rightarrow> u8" where
  "mid_pixel src w h l t = (\<lambda>(px, py).
    if px < 256 - l mod 64 then src (tile_addr w h (l + px) (t + py))
    else src (tile_addr w h (l + px - 64) (t + py) + 64))"

lemma mid_tile_done:
  assumes "w \<le> 16384" "h \<le> 16384" "r \<le> w" "rw = w - l - r" "y = t + py" "y < h" "P = rw * py + a" "P < 1073741824"
    "l + a \<le> w - r" "(l + a) mod 64 = 0" "a + 64 \<le> 256 - l mod 64" "l + r \<le> w" "line_done rw (mid_pixel src w h l t) py 0 a d d1"
  defines "n \<equiv> (if a + 64 \<le> rw then 64 else 0)"
  shows "\<exists>d2. mid_tile src (of_nat w) (of_nat h) (of_nat y) (of_nat (w - r)) (d1, of_nat P, of_nat (l + a)) =
      (d2, of_nat (P + n), of_nat (l + (a + n))) \<and> line_done rw (mid_pixel src w h l t) py 0 (a + n) d d2"
proof -
  have j: "of_nat (l + a) + 64 = (of_nat (l + a + 64) :: u32)" by simp
  have test: "(of_nat (l + a + 64) \<le> (of_nat (w - r) :: u32)) \<longleftrightarrow> a + 64 \<le> rw"
    using assms by (subst of_nat_le_u32) auto
  show ?thesis
  proof (cases "a + 64 \<le> rw")
    case False
    then show ?thesis using assms(13) unfolding mid_tile_def prod.case j test n_def by simp
  next
    case True
    have A: "tile_addr w h (l + a) y < 1073741824" by (rule tile_addr_small) (use assms in auto)
    have rd: "tile_read (of_nat w) (of_nat h) (of_nat (l + a)) (of_nat y) = of_nat (tile_addr w h (l + a) y)"
      by (rule tile_read_nat) (use assms True in auto)
    have "line_done rw (mid_pixel src w h l t) py 0 (a + 64) d (memcpy d1 P src (tile_addr w h (l + a) y) 64)"
    proof (rule line_done_extend [OF assms(13), where n = 64])
      fix e :: nat assume e: "e < 64"
      show "mid_pixel src w h l t (a + e, py) = src (tile_addr w h (l + a) y + e)"
        using assms(5,10,11) e tile_addr_run [of "l + a" e w h y] by (simp add: mid_pixel_def add.assoc)
    qed (use assms True in auto)
    then show ?thesis
      using True A assms(8) unfolding mid_tile_def prod.case j test n_def rd Let_def by (simp add: unat_u32 add.assoc)
  qed
qed

lemma mid_rest_done:
  assumes f: "w \<le> 16384" "h \<le> 16384" "l + r \<le> w" "i < h" and rw: "rw = w - l - r" and i: "i = t + py"
    and P: "P = rw * py" "P + a < 1073741824" and c256: "256 - l mod 64 = c + 192"
    and a: "(l + a) mod 64 = 0" "a \<le> c + 128" "rw - a < 128" "64 \<le> rw - a \<Longrightarrow> a = c + 128" and lt: "a < rw"
    and d3: "line_done rw (mid_pixel src w h l t) py 0 a d d3"
  shows "line_done rw (mid_pixel src w h l t) py 0 rw d (memcpy d3 (unat (of_nat (P + a) :: u32)) src
    (unat (tile_read (of_nat w) (of_nat h) (of_nat (l + a)) (of_nat i))) (of_nat (w - r) - of_nat (l + a)))"
proof -
  have A: "tile_addr w h (l + a) i < 1073741824" by (rule tile_addr_small) (use f rw lt in auto)
  have rd: "tile_read (of_nat w) (of_nat h) (of_nat (l + a)) (of_nat i) = of_nat (tile_addr w h (l + a) i)"
    by (rule tile_read_nat) (use f rw lt a in auto)
  have sz: "of_nat (w - r) - of_nat (l + a) = (of_nat (rw - a) :: u32)"
    using f rw lt by (simp add: of_nat_diff diff_diff_eq algebra_simps)
  have un2: "unat (of_nat (P + a) :: u32) = P + a" "unat (of_nat (tile_addr w h (l + a) i) :: u32) = tile_addr w h (l + a) i"
    "unat (of_nat (rw - a) :: u32) = rw - a"
    using A P rw f lt by (intro unat_u32; simp)+
  have "line_done rw (mid_pixel src w h l t) py 0 rw d (memcpy d3 (P + a) src (tile_addr w h (l + a) i) (of_nat (rw - a)))"
  proof (rule line_done_extend [OF d3, where n = "rw - a"])
    fix e assume e: "e < rw - a"
    show "mid_pixel src w h l t (a + e, py) = src (tile_addr w h (l + a) i + e)"
    proof (cases "e < 64")
      case True
      then show ?thesis using a i tile_addr_run [of "l + a" e w h i] by (simp add: mid_pixel_def c256 add.assoc)
    next
      case False
      then have a': "a = c + 128" and e': "e - 64 < 64" using e a by auto
      have "l + (a + e) - 64 = (l + a) + (e - 64)" "\<not> a + e < c + 192" using False a' by simp_all
      then have "mid_pixel src w h l t (a + e, py) = src (tile_addr w h (l + a + (e - 64)) i + 64)"
        using i unfolding mid_pixel_def c256 prod.case by (simp only: if_False)
      then show ?thesis using tile_addr_run [of "l + a" "e - 64" w h i] a(1) e' False by simp
    qed
  qed (use un2 a P lt in auto)
  then show ?thesis unfolding rd sz un2 .
qed

lemma mid_row_done:
  assumes fits: "crop_fits w h l t r b" and rw: "rw = w - l - r" "64 \<le> rw" "rw < 256" and i: "i = t + py" "i < h - b"
  shows "\<exists>d'. mid_row src (of_nat w) (of_nat h) (of_nat l) (of_nat t) (of_nat rw) (of_nat (w - r)) (of_nat i) d = Some d' \<and>
    line_done rw (mid_pixel src w h l t) py 0 rw d d'"
proof -
  define c P where "c = 64 - l mod 64" and "P = rw * py"
  have f: "w \<le> 16384" "h \<le> 16384" "l + r \<le> w" "i < h" "r \<le> w" "l < w" "py \<le> 16384"
    using fits rw i by (auto simp: crop_fits_def)
  have lm: "l mod 64 < 64" by simp
  then have c: "0 < c" "c \<le> 64" "l mod 64 + c = 64" by (simp_all add: c_def)
  then have c256: "256 - l mod 64 = c + 192" by simp
  have lc: "(l + c) mod 64 = 0"
    using c(3) mod_add_left_eq [of l 64 c] by simp
  have P: "P \<le> 4194304" unfolding P_def using mult_le_mono [of rw 256 py 16384] f rw by simp
  have lin: "of_nat rw * (of_nat i - of_nat t) = (of_nat P :: u32)" using i by (simp add: P_def)
  have t2: "push_bit 6 (drop_bit 6 (of_nat l + 64)) - of_nat l = (of_nat c :: u32)"
  proof -
    have d: "drop_bit 6 (of_nat l + 64) = (of_nat ((l + 64) div 64) :: u32)" using f drop_bit_u32 [of "l + 64" 6] by simp
    have "(l + 64) div 64 = l div 64 + 1" by simp
    then have "(l + 64) div 64 * 64 = l + c" using mult_div_mod_eq [of 64 l] c by linarith
    then have "(of_nat ((l + 64) div 64) * 64 :: u32) = of_nat l + of_nat c" by (metis of_nat_add of_nat_mult of_nat_numeral)
    then show ?thesis unfolding d by (simp add: push_bit_eq_mult)
  qed
  have un: "unat (of_nat P :: u32) = P" "unat (of_nat c :: u32) = c" "unat (of_nat (tile_addr w h l i) :: u32) = tile_addr w h l i"
    using P c tile_addr_small [of w l i h] f by (simp_all add: unat_u32)
  let ?d1 = "memcpy d P src (tile_addr w h l i) (of_nat c)"
  have d1: "line_done rw (mid_pixel src w h l t) py 0 c d ?d1"
  proof (rule line_done_extend [OF line_done_refl, where n = c])
    fix e assume e: "e < c"
    show "mid_pixel src w h l t (0 + e, py) = src (tile_addr w h l i + e)"
      using e c i tile_addr_run [of l e w h i] by (simp add: mid_pixel_def c256)
  qed (use un c rw P_def in auto)
  have small: "P + e < 1073741824" if "e \<le> 256" for e using that P by simp
  define n1 where "n1 = (if c + 64 \<le> rw then 64 else 0 :: nat)"
  have q: "P + c = rw * py + c" "P + c < 1073741824" "l + c \<le> w - r" and q': "c + 64 \<le> 256 - l mod 64"
    using small [of c] c c256 rw f by (auto simp: P_def)
  obtain d2 where d2: "mid_tile src (of_nat w) (of_nat h) (of_nat i) (of_nat (w - r)) (?d1, of_nat (P + c), of_nat (l + c)) =
      (d2, of_nat (P + c + n1), of_nat (l + (c + n1)))" "line_done rw (mid_pixel src w h l t) py 0 (c + n1) d d2"
    using mid_tile_done [OF f(1,2,5) rw(1) i(1) f(4) q lc q' f(3) d1] unfolding n1_def by blast
  define n2 where "n2 = (if c + n1 + 64 \<le> rw then 64 else 0 :: nat)"
  have lc2: "(l + (c + n1)) mod 64 = 0" using lc unfolding n1_def by (simp add: add.assoc [symmetric])
  have q2: "P + c + n1 = rw * py + (c + n1)" "P + c + n1 < 1073741824" "l + (c + n1) \<le> w - r" and q2': "c + n1 + 64 \<le> 256 - l mod 64"
    using small [of "c + n1"] c c256 rw f by (auto simp: P_def n1_def)
  obtain d3 where d3: "mid_tile src (of_nat w) (of_nat h) (of_nat i) (of_nat (w - r)) (d2, of_nat (P + c + n1), of_nat (l + (c + n1))) =
      (d3, of_nat (P + c + n1 + n2), of_nat (l + (c + n1 + n2)))" "line_done rw (mid_pixel src w h l t) py 0 (c + n1 + n2) d d3"
    using mid_tile_done [OF f(1,2,5) rw(1) i(1) f(4) q2 lc2 q2' f(3) d2(2)] unfolding n2_def by blast
  let ?a = "c + n1 + n2" and ?n = "rw - (c + n1 + n2)"
  have "(l + (c + n1) + n2) mod 64 = 0" using lc2 unfolding n2_def by simp
  then have a: "(l + ?a) mod 64 = 0" "?a \<le> rw" "?a \<le> c + 128" "?n < 128" "64 \<le> ?n \<Longrightarrow> ?a = c + 128"
    using c rw unfolding n1_def n2_def by (auto simp: add.assoc)
  have test: "(of_nat (l + ?a) < (of_nat (w - r) :: u32)) \<longleftrightarrow> ?a < rw"
    using f rw a(2) by (subst of_nat_less_u32) auto
  have start: "mid_row src (of_nat w) (of_nat h) (of_nat l) (of_nat t) (of_nat rw) (of_nat (w - r)) (of_nat i) d =
      (if ?a < rw then Some (memcpy d3 (unat (of_nat (P + ?a) :: u32)) src
          (unat (tile_read (of_nat w) (of_nat h) (of_nat (l + ?a)) (of_nat i))) (of_nat (w - r) - of_nat (l + ?a)))
       else Some d3)"
    using d2(1) d3(1) unfolding mid_row_def Let_def lin t2 tile_read_nat(1) [OF f(1,2,6,4)] un test [symmetric]
    by (simp add: add.assoc)
  show ?thesis
  proof (cases "?a < rw")
    case False
    then have "?a = rw" using a(2) by simp
    then show ?thesis using start d3(2) by auto
  next
    case True
    have "line_done rw (mid_pixel src w h l t) py 0 rw d (memcpy d3 (unat (of_nat (P + ?a) :: u32)) src
        (unat (tile_read (of_nat w) (of_nat h) (of_nat (l + ?a)) (of_nat i))) (of_nat (w - r) - of_nat (l + ?a)))"
      by (rule mid_rest_done [OF f(1-4) rw(1) i(1) _ _ c256 a(1,3-5) True d3(2)]) (use small [of ?a] rw True P_def in auto)
    then show ?thesis using start True by auto
  qed
qed

lemma narrow_row_done:
  assumes fits: "crop_fits w h l t r b" and rw: "rw = w - l - r" and ev: "even l" "even rw" and i: "i = t + py" "i < h - b"
  shows "\<exists>d'. narrow_row src (of_nat w) (of_nat h) (of_nat l) (of_nat t) (of_nat r) (of_nat rw) (of_nat i) d = Some d' \<and>
    line_done rw (tiled_pixel src w h l t) py 0 rw d d'"
proof -
  define P where "P = rw * py"
  have f: "w \<le> 16384" "h \<le> 16384" "l + r \<le> w" "i < h" "r \<le> w" "py \<le> 16384"
    using fits rw i by (auto simp: crop_fits_def)
  have P: "P \<le> 268435456" unfolding P_def using mult_le_mono [of rw 16384 py 16384] f rw by simp
  have lin: "of_nat rw * (of_nat i - of_nat t) = (of_nat P :: u32)" using i by (simp add: P_def)
  have bnd: "of_nat w - of_nat r = (of_nat (w - r) :: u32)" using f by (simp add: of_nat_diff)
  let ?body = "narrow_pair src (of_nat w) (of_nat h) (of_nat i)"
  define Inv where "Inv n s \<longleftrightarrow> (case s of (d', lo) \<Rightarrow> \<exists>a. n = l + a \<and> even a \<and> a \<le> rw \<and> lo = of_nat (P + a) \<and>
      line_done rw (tiled_pixel src w h l t) py 0 a d d')" for n and s :: "plane \<times> u32"
  have start: "Inv l (d, of_nat P)" unfolding Inv_def using line_done_refl by auto
  have round: "\<exists>s'. ?body (of_nat n) s = Some s' \<and> Inv (n + 2) s'" if Is: "Inv n s" "n < w - r" for n s
  proof -
    obtain d' a where s: "s = (d', of_nat (P + a))" and n: "n = l + a" "even a" "a \<le> rw"
      "line_done rw (tiled_pixel src w h l t) py 0 a d d'"
      using Is(1) by (cases s) (auto simp: Inv_def)
    have "a < rw" using n(1) Is(2) rw by simp
    then have a: "a + 2 \<le> rw" using n(2) ev(2) by presburger
    have A: "tile_addr w h n i < 1073741824" by (rule tile_addr_small) (use f Is(2) in auto)
    have rd: "tile_read (of_nat w) (of_nat h) (of_nat n) (of_nat i) + (of_nat n AND 3) = of_nat (tile_addr w h n i)"
      by (rule tile_read_nat) (use f Is(2) in auto)
    have un: "unat (of_nat (P + a) :: u32) = P + a" "unat (of_nat (tile_addr w h n i) :: u32) = tile_addr w h n i"
      using P a A f rw by (intro unat_u32; simp)+
    have "even (n mod 64)" using n(1,2) ev(1) by (simp add: dvd_mod)
    moreover have "m + 2 \<le> 64" if "even m" "m < 64" for m :: nat using that by presburger
    ultimately have run: "n mod 64 + 2 \<le> 64" by simp
    have "line_done rw (tiled_pixel src w h l t) py 0 (a + 2) d (memcpy d' (P + a) src (tile_addr w h n i) 2)"
      by (rule line_done_step [OF n(4), where n = 2 and x = n]) (use run n(1) a i P_def in auto)
    then have "Inv (n + 2) (memcpy d' (P + a) src (tile_addr w h n i) 2, of_nat (P + (a + 2)))"
      unfolding Inv_def prod.case using n a by (intro exI [of _ "a + 2"]) simp
    moreover have "of_nat (P + a) + 2 = (of_nat (P + (a + 2)) :: u32)" by simp
    ultimately show ?thesis unfolding s narrow_pair_def prod.case Let_def rd un by metis
  qed
  have "\<exists>n s'. for_lt (of_nat 2) (of_nat (w - r)) ?body (of_nat l) (d, of_nat P) = Some s' \<and> Inv n s' \<and> w - r \<le> n \<and> n < 4294967296"
    by (rule for_lt_inv [where P = Inv, OF start]) (use f round in auto)
  then obtain n s' where L: "for_lt 2 (of_nat (w - r)) ?body (of_nat l) (d, of_nat P) = Some s'" "Inv n s'" "w - r \<le> n"
    unfolding of_nat_numeral by blast
  then obtain d' a where "s' = (d', of_nat (P + a))" "n = l + a" "a \<le> rw" "line_done rw (tiled_pixel src w h l t) py 0 a d d'"
    by (cases s') (auto simp: Inv_def)
  moreover from this have "a = rw" using L(3) rw by simp
  ultimately show ?thesis unfolding narrow_row_def lin bnd L(1) by simp
qed

section \<open>The whole conversion\<close>

lemma steps_one: "steps 1 i b = {i..<b}"
  by (auto simp: steps_def)

text \<open>A loop over the lines writes the whole picture if its body writes every line.\<close>

lemma lines_done:
  assumes "h - b < 4294967295" "t \<le> h - b" "rh = h - b - t"
    and "\<And>py d. py < rh \<Longrightarrow> \<exists>d'. body (of_nat (t + py)) d = Some d' \<and> line_done rw v py 0 rw d d'"
  shows "\<exists>d'. for_lt 1 (of_nat (h - b)) body (of_nat t) d = Some d' \<and>
    (\<forall>py < rh. \<forall>px < rw. d' (rw * py + px) = v (px, py)) \<and> (\<forall>a \<ge> rw * rh. d' a = d a)"
proof -
  let ?S = "\<lambda>n. {0..<rw} \<times> {n - t}"
  have "\<exists>d'. for_lt (of_nat 1) (of_nat (h - b)) body (of_nat t) d = Some d' \<and>
      moved (linear_place rw) v (\<Union>n\<in>steps 1 t (h - b). ?S n) d d'"
  proof (rule linear.for_lt_moved)
    fix n d assume "n \<in> steps 1 t (h - b)"
    then have "n - t < rh" "t + (n - t) = n" using assms(3) unfolding steps_one by auto
    then show "\<exists>d'. body (of_nat n) d = Some d' \<and> moved (linear_place rw) v (?S n) d d'"
      using assms(4) [of "n - t" d] unfolding line_done_def by simp
  qed (use assms in auto)
  then obtain d' where d': "for_lt 1 (of_nat (h - b)) body (of_nat t) d = Some d'"
    "moved (linear_place rw) v (\<Union>n\<in>steps 1 t (h - b). ?S n) d d'" by auto
  have "(\<Union>n\<in>steps 1 t (h - b). ?S n) = {0..<rw} \<times> {0..<rh}"
    unfolding steps_one using assms(2,3) by (auto intro!: bexI [of _ "t + _"])
  then have m: "moved (linear_place rw) v ({0..<rw} \<times> {0..<rh}) d d'" using d'(2) by simp
  have "a \<notin> linear_place rw ` ({0..<rw} \<times> {0..<rh})" if "rw * rh \<le> a" for a
  proof
    assume "a \<in> linear_place rw ` ({0..<rw} \<times> {0..<rh})"
    then obtain px py where p: "a = rw * py + px" "px < rw" "py < rh" by (auto simp: linear_place_def)
    then have "rw * (py + 1) \<le> rw * rh" by (intro mult_le_mono2) simp
    then show False using p that by simp
  qed
  then show ?thesis using d'(1) m by (auto simp: moved_def linear_place_def)
qed

lemma tiled_to_linear_cases:
  assumes fits: "crop_fits w h l t r b" and rw: "rw = w - l - r"
  shows "csc_tiled_to_linear_crop d src (of_nat w) (of_nat h) (of_nat l) (of_nat t) (of_nat r) (of_nat b) =
    for_lt 1 (of_nat (h - b))
      (if 256 \<le> rw then wide_row src (of_nat w) (of_nat h) (of_nat l) (of_nat t) (of_nat r)
       else if 64 \<le> rw then mid_row src (of_nat w) (of_nat h) (of_nat l) (of_nat t) (of_nat rw) (of_nat (w - r))
       else narrow_row src (of_nat w) (of_nat h) (of_nat l) (of_nat t) (of_nat r) (of_nat rw)) (of_nat t) d"
proof -
  have f: "w \<le> 16384" "l + r \<le> w" "b \<le> h" using fits by (simp_all add: crop_fits_def)
  have d: "of_nat w - of_nat r = (of_nat (w - r) :: u32)" "of_nat (w - r) - of_nat l = (of_nat rw :: u32)"
    "of_nat h - of_nat b = (of_nat (h - b) :: u32)"
    using f rw by (simp_all add: of_nat_diff diff_diff_eq algebra_simps)
  have t: "((256 :: u32) \<le> of_nat rw) \<longleftrightarrow> 256 \<le> rw" "((64 :: u32) \<le> of_nat rw) \<longleftrightarrow> 64 \<le> rw"
    using f rw of_nat_le_u32 [of 256 rw] of_nat_le_u32 [of 64 rw] by simp_all
  show ?thesis unfolding csc_tiled_to_linear_crop_def Let_def d t by simp
qed

lemma mid_pixel_correct: "px < rw \<Longrightarrow> rw \<le> 256 - l mod 64 \<Longrightarrow> mid_pixel src w h l t (px, py) = tiled_pixel src w h l t (px, py)"
  by (simp add: mid_pixel_def tiled_pixel_def)

lemma mid_conversion:
  assumes fits: "crop_fits w h l t r b" and rw: "rw = w - l - r" "64 \<le> rw" "rw < 256" and rh: "rh = h - t - b"
  shows "\<exists>d'. csc_tiled_to_linear_crop d src (of_nat w) (of_nat h) (of_nat l) (of_nat t) (of_nat r) (of_nat b) = Some d' \<and>
    (\<forall>py < rh. \<forall>px < rw. d' (rw * py + px) = mid_pixel src w h l t (px, py)) \<and> (\<forall>a \<ge> rw * rh. d' a = d a)"
  unfolding tiled_to_linear_cases [OF fits rw(1)]
proof (rule lines_done)
  fix py d assume "py < rh"
  then show "\<exists>d'. (if 256 \<le> rw then wide_row src (of_nat w) (of_nat h) (of_nat l) (of_nat t) (of_nat r)
       else if 64 \<le> rw then mid_row src (of_nat w) (of_nat h) (of_nat l) (of_nat t) (of_nat rw) (of_nat (w - r))
       else narrow_row src (of_nat w) (of_nat h) (of_nat l) (of_nat t) (of_nat r) (of_nat rw)) (of_nat (t + py)) d = Some d' \<and>
     line_done rw (mid_pixel src w h l t) py 0 rw d d'"
    using mid_row_done [OF fits rw refl, of py src d] rw rh by (simp del: of_nat_add of_nat_diff)
qed (use fits rh in \<open>auto simp: crop_fits_def\<close>)

lemma conversion_done:
  assumes fits: "crop_fits w h l t r b" and rw: "rw = w - l - r" and rh: "rh = h - t - b"
    and narrow: "rw < 64 \<Longrightarrow> even l \<and> even rw" and mid: "64 \<le> rw \<Longrightarrow> rw < 256 \<Longrightarrow> rw \<le> 256 - l mod 64"
  shows "\<exists>d'. csc_tiled_to_linear_crop d src (of_nat w) (of_nat h) (of_nat l) (of_nat t) (of_nat r) (of_nat b) = Some d' \<and>
    (\<forall>py < rh. \<forall>px < rw. d' (rw * py + px) = tiled_pixel src w h l t (px, py)) \<and> (\<forall>a \<ge> rw * rh. d' a = d a)"
proof (cases "64 \<le> rw \<and> rw < 256")
  case True
  then show ?thesis using mid_conversion [OF fits rw _ _ rh, of d src] mid mid_pixel_correct [of _ rw l src w h t] by simp
next
  case False
  show ?thesis unfolding tiled_to_linear_cases [OF fits rw]
  proof (rule lines_done)
    fix py d assume py: "py < rh"
    then have i: "t + py < h - b" using rh by simp
    show "\<exists>d'. (if 256 \<le> rw then wide_row src (of_nat w) (of_nat h) (of_nat l) (of_nat t) (of_nat r)
         else if 64 \<le> rw then mid_row src (of_nat w) (of_nat h) (of_nat l) (of_nat t) (of_nat rw) (of_nat (w - r))
         else narrow_row src (of_nat w) (of_nat h) (of_nat l) (of_nat t) (of_nat r) (of_nat rw)) (of_nat (t + py)) d = Some d' \<and>
       line_done rw (tiled_pixel src w h l t) py 0 rw d d'"
    proof (cases "256 \<le> rw")
      case True
      then show ?thesis using wide_row_done [OF fits rw True refl i, of src d] by (simp del: of_nat_add of_nat_diff)
    next
      case f: False
      then have "\<not> 64 \<le> rw" using False by simp
      then show ?thesis using narrow_row_done [OF fits rw _ _ refl i, of src d] narrow f by (simp del: of_nat_add of_nat_diff)
    qed
  qed (use fits rh in \<open>auto simp: crop_fits_def\<close>)
qed

text \<open>C33. \<open>csc_tiled_to_linear_crop\<close> returns, for a picture of at most 16384 x 16384 bytes and a crop
  inside it, and writes the cropped picture line by line: byte (px, py) of the result is the byte of the
  tiled plane at (left + px, top + py), and nothing behind the result changes. A crop narrower than 64
  must have an even left edge and width, and one between 64 and 255 must not reach past the third tile
  behind the one that holds its left edge.\<close>

theorem tiled_to_linear_crop_correct:
  fixes w h l t r b :: u32
  defines "rw \<equiv> unat w - unat l - unat r" and "rh \<equiv> unat h - unat t - unat b"
  assumes "crop_fits (unat w) (unat h) (unat l) (unat t) (unat r) (unat b)"
    and "rw < 64 \<Longrightarrow> even (unat l) \<and> even rw" and "64 \<le> rw \<Longrightarrow> rw < 256 \<Longrightarrow> rw \<le> 256 - unat l mod 64"
  shows "\<exists>d'. csc_tiled_to_linear_crop d src w h l t r b = Some d' \<and>
    (\<forall>py < rh. \<forall>px < rw. d' (rw * py + px) = src (tile_addr (unat w) (unat h) (unat l + px) (unat t + py))) \<and>
    (\<forall>a \<ge> rw * rh. d' a = d a)"
  using conversion_done [OF assms(3) rw_def [THEN meta_eq_to_obj_eq] rh_def [THEN meta_eq_to_obj_eq] assms(4,5), of d src]
  by (simp add: tiled_pixel_def)

theorem tiled_to_linear_crop_correct_witness:
  "\<exists>d'. csc_tiled_to_linear_crop (\<lambda>_. 0) of_nat 352 288 32 0 0 0 = Some d' \<and> d' 320 = of_nat (tile_addr 352 288 32 1)"
proof -
  obtain d' where "csc_tiled_to_linear_crop (\<lambda>_. 0) of_nat 352 288 32 0 0 0 = Some d'"
    and v: "\<forall>py < 288. \<forall>px < 320. d' (320 * py + px) = of_nat (tile_addr 352 288 (32 + px) (0 + py))"
    using tiled_to_linear_crop_correct [of 352 288 32 0 0 0 "\<lambda>_. 0" of_nat] by (auto simp: crop_fits_def)
  moreover from v [rule_format, of 1 0] have "d' 320 = of_nat (tile_addr 352 288 32 1)" by simp
  ultimately show ?thesis by blast
qed

text \<open>C33. Between 64 and 255 bytes of width, the code copies what is left behind the first tile and two
  whole tiles in one piece. When that is more than a tile (the crop is wider than 256 - left mod 64), the
  columns behind the third full tile do not get the bytes of the next tile, but those of the following line
  of the same tile: the offset 64 behind the byte one tile to their left.\<close>

theorem mid_width_crop_reads_wrong_tile:
  fixes w h l t r b :: u32
  defines "rw \<equiv> unat w - unat l - unat r" and "rh \<equiv> unat h - unat t - unat b"
  assumes "crop_fits (unat w) (unat h) (unat l) (unat t) (unat r) (unat b)" and "64 \<le> rw" "rw < 256"
  shows "\<exists>d'. csc_tiled_to_linear_crop d src w h l t r b = Some d' \<and>
    (\<forall>py < rh. \<forall>px < rw. d' (rw * py + px) =
       (if px < 256 - unat l mod 64 then src (tile_addr (unat w) (unat h) (unat l + px) (unat t + py))
        else src (tile_addr (unat w) (unat h) (unat l + px - 64) (unat t + py) + 64)))"
  using mid_conversion [OF assms(3) rw_def [THEN meta_eq_to_obj_eq] assms(4,5) rh_def [THEN meta_eq_to_obj_eq], of d src]
  unfolding mid_pixel_def by auto

theorem mid_width_crop_reads_wrong_tile_witness:
  "\<exists>d'. csc_tiled_to_linear_crop (\<lambda>_. 0) (\<lambda>a. if a = tile_addr 272 32 256 0 then 1 else 0) 272 32 32 0 0 0 = Some d' \<and>
     d' 224 = 0"
proof -
  let ?src = "\<lambda>a. if a = tile_addr 272 32 256 0 then 1 else 0 :: u8"
  obtain d' where d': "csc_tiled_to_linear_crop (\<lambda>_. 0) ?src 272 32 32 0 0 0 = Some d'"
    and v: "\<forall>py < 32. \<forall>px < 240. d' (240 * py + px) =
       (if px < 224 then ?src (tile_addr 272 32 (32 + px) py) else ?src (tile_addr 272 32 (32 + px - 64) py + 64))"
    using mid_width_crop_reads_wrong_tile [of 272 32 32 0 0 0 "\<lambda>_. 0" ?src] by (auto simp: crop_fits_def)
  from v [rule_format, of 0 224]
  have "d' 224 = 0" by (simp add: tile_addr_def tile_index_def tile_columns_def tile_rows_def)
  then show ?thesis using d' by blast
qed

end
