(* ===== verification/CSC_ToTiled.thy ===== *)
theory CSC_ToTiled
  imports CSC_ToLinear
begin

text \<open>
  The conversion of a linear plane to a tiled one, cropped on all four sides:
  \<open>csc_linear_to_tiled_crop\<close> of \<open>swconvertor.c\<close>. The code moves whole tiles, then the lines
  below the last whole tile, then the columns to its right.
\<close>

section \<open>The loops\<close>

text \<open>The offset of the tile that holds column \<open>j\<close> of line \<open>i\<close> in a picture of the given size.\<close>

definition block_offset :: "u32 \<Rightarrow> u32 \<Rightarrow> u32 \<Rightarrow> u32 \<Rightarrow> u32" where
  "block_offset width height i j =
    (let tiled_x_index = drop_bit 6 j;
         tiled_y_index = drop_bit 5 i in
     if tiled_y_index AND 1 \<noteq> 0 then odd_formula width tiled_x_index tiled_y_index
     else let temp2 = push_bit 5 (drop_bit 5 (height + 31)) in
       if i + 32 < temp2 then even1_formula width tiled_x_index tiled_y_index
       else even2_formula width tiled_x_index tiled_y_index)"

text \<open>The 32 calls of \<open>memcpy\<close> for one tile.\<close>

definition copy_tile ::
  "plane \<Rightarrow> u32 \<Rightarrow> u32 \<Rightarrow> u32 \<Rightarrow> u32 \<Rightarrow> u32 \<Rightarrow> u32 \<Rightarrow> plane \<Rightarrow> plane option" where
  "copy_tile src yuv420_width left top' tiled_offset i j dest =
    Some (fold (\<lambda>k dest. memcpy dest (unat tiled_offset + 64 * k) src
             (unat left + unat j + unat (yuv420_width * (i + top' + of_nat k))) 64) [0..<32] dest)"

text \<open>Two lines of a tile, and two lines of a pair of columns.\<close>

definition copy_lines ::
  "plane \<Rightarrow> u32 \<Rightarrow> u32 \<Rightarrow> u32 \<Rightarrow> u32 \<Rightarrow> u32 \<Rightarrow> u32 \<Rightarrow> plane \<Rightarrow> plane option" where
  "copy_lines src yuv420_width left top' tiled_offset i j dest =
    (let temp1 = i AND 0x1F;
         dest = memcpy dest (unat tiled_offset + unat (64 * temp1)) src
                  (unat left + unat j + unat (yuv420_width * (i + top'))) 64;
         dest = memcpy dest (unat tiled_offset + unat (64 * (temp1 + 1))) src
                  (unat left + unat j + unat (yuv420_width * (i + top' + 1))) 64
     in Some dest)"

definition copy_pair ::
  "plane \<Rightarrow> u32 \<Rightarrow> u32 \<Rightarrow> u32 \<Rightarrow> u32 \<Rightarrow> u32 \<Rightarrow> u32 \<Rightarrow> plane \<Rightarrow> plane option" where
  "copy_pair src yuv420_width left top' tiled_offset i j dest =
    (let temp1 = i AND 0x1F;
         temp2 = j AND 0x3F;
         dest = memcpy dest (unat tiled_offset + unat temp2 + unat (64 * temp1)) src
                  (unat left + unat j + unat (yuv420_width * (i + top'))) 2;
         dest = memcpy dest (unat tiled_offset + unat temp2 + unat (64 * (temp1 + 1))) src
                  (unat left + unat j + unat (yuv420_width * (i + top' + 1))) 2
     in Some dest)"

definition csc_linear_to_tiled_crop ::
  "plane \<Rightarrow> plane \<Rightarrow> u32 \<Rightarrow> u32 \<Rightarrow> u32 \<Rightarrow> u32 \<Rightarrow> u32 \<Rightarrow> u32 \<Rightarrow> plane option" where
  "csc_linear_to_tiled_crop nv12t_dest yuv420_src yuv420_width yuv420_height left top' right buttom =
    (let height = yuv420_height - top' - buttom;
         width = yuv420_width - left - right;
         aligned_y_size = push_bit 5 (drop_bit 5 height);
         aligned_x_size = push_bit 6 (drop_bit 6 width) in
     Option.bind (for_lt 32 aligned_y_size (\<lambda>i.
         for_lt 64 aligned_x_size (\<lambda>j.
           copy_tile yuv420_src yuv420_width left top' (block_offset width height i j) i j) 0) 0 nv12t_dest) (\<lambda>dest.
     Option.bind (for_lt 2 height (\<lambda>i.
         for_lt 64 aligned_x_size (\<lambda>j.
           copy_lines yuv420_src yuv420_width left top' (block_offset width height i j) i j) 0) aligned_y_size dest) (\<lambda>dest.
     for_lt 2 height (\<lambda>i.
         for_lt 2 width (\<lambda>j.
           copy_pair yuv420_src yuv420_width left top' (block_offset width height i j) i j) aligned_x_size) 0 dest)))"

definition csc_linear_to_tiled_y :: "plane \<Rightarrow> plane \<Rightarrow> u32 \<Rightarrow> u32 \<Rightarrow> plane option" where
  "csc_linear_to_tiled_y y_dst y_src width height = csc_linear_to_tiled_crop y_dst y_src width height 0 0 0 0"

section \<open>Pixels of the tiled picture\<close>

definition tiled_place :: "nat \<Rightarrow> nat \<Rightarrow> nat \<times> nat \<Rightarrow> nat" where
  "tiled_place w h = (\<lambda>(x, y). tile_addr w h x y)"

interpretation tiled: layout "tiled_place w h" "{..<64 * tile_columns w} \<times> {..<32 * tile_rows h}" for w h
  by unfold_locales (auto simp: inj_on_def tiled_place_def dest: tile_addr_inj)

definition linear_pixel :: "plane \<Rightarrow> nat \<Rightarrow> nat \<Rightarrow> nat \<Rightarrow> nat \<times> nat \<Rightarrow> u8" where
  "linear_pixel src W l t = (\<lambda>(x, y). src (l + x + W * (y + t)))"

lemma block_offset_nat:
  assumes "rw \<le> 16384" "rh \<le> 16384" "i < rh" "j < rw"
  shows "block_offset (of_nat rw) (of_nat rh) (of_nat i) (of_nat j) = of_nat (2048 * tile_index rw rh (j div 64) (i div 32))"
proof -
  let ?X = "j div 64" and ?Y = "i div 32"
  have X: "drop_bit 6 (of_nat j :: u32) = of_nat ?X" using assms drop_bit_u32 [of j 6] by simp
  have Y: "drop_bit 5 (of_nat i :: u32) = of_nat ?Y" using assms drop_bit_u32 [of i 5] by simp
  have par: "(of_nat ?Y AND (1::u32) \<noteq> 0) \<longleftrightarrow> odd ?Y"
    using assms and_u32(1) [of ?Y] by (cases "odd ?Y") (simp_all add: odd_iff_mod_2_eq_one even_iff_mod_2_eq_zero)
  have b: "?X + 2 < 4294967296" using assms by simp
  show ?thesis
    unfolding block_offset_def Let_def X Y par rows_test_nat [OF assms(2,3)]
    using assms odd_formula_nat [of rw ?X ?Y rh] even1_formula_nat [of rw ?X ?Y rh] even2_formula_nat [of rw ?Y rh ?X] b
    by simp
qed

lemma segment_moved:
  assumes "x mod 64 + n \<le> 64" "d_off = tile_addr w h x y" "s_off = l + x + W * (y + t)" "unat m = n"
  shows "moved (tiled_place w h) (linear_pixel src W l t) ({x..<x + n} \<times> {y}) d (memcpy d d_off src s_off m)"
proof -
  have "moved (tiled_place w h) (linear_pixel src W l t) ((\<lambda>e. (x + e, y)) ` {..<unat m}) d (memcpy d d_off src s_off m)"
  proof (rule memcpy_moved)
    fix e assume "e < unat m"
    then show "tiled_place w h (x + e, y) = d_off + e \<and> linear_pixel src W l t (x + e, y) = src (s_off + e)"
      using assms tile_addr_run [of x e w h y] by (simp add: tiled_place_def linear_pixel_def algebra_simps)
  qed
  moreover have "(\<lambda>e. (x + e, y)) ` {..<unat m} = {x..<x + n} \<times> {y}"
  proof -
    have "\<exists>e\<in>{..<unat m}. z = x + e" if "x \<le> z" "z < x + n" for z
      using that assms(4) by (intro bexI [of _ "z - x"]) auto
    then show ?thesis using assms(4) by (auto simp: image_iff)
  qed
  ultimately show ?thesis by simp
qed

lemma tiled_extend:
  assumes "moved (tiled_place w h) v ({x..<x + n} \<times> {y..<y + k}) d d1" "moved (tiled_place w h) v ({x..<x + n} \<times> {y + k}) d1 d2"
    "x + n \<le> w" "y + k < h"
  shows "moved (tiled_place w h) v ({x..<x + n} \<times> {y..<y + Suc k}) d d2"
proof -
  have "moved (tiled_place w h) v ({x..<x + n} \<times> {y..<y + k} \<union> {x..<x + n} \<times> {y + k}) d d2"
    using assms picture_in_tiles(1) [of w] picture_in_tiles(2) [of h] by (intro tiled.moved_Un) auto
  moreover have "{x..<x + n} \<times> {y..<y + k} \<union> {x..<x + n} \<times> {y + k} = {x..<x + n} \<times> {y..<y + Suc k}" by auto
  ultimately show ?thesis by simp
qed

lemma tile_addr_lines: "y mod 32 + k < 32 \<Longrightarrow> tile_addr w h x (y + k) = tile_addr w h x y + 64 * k"
proof -
  assume a: "y mod 32 + k < 32"
  have "(32 * q + (r + k)) div 32 = q" "(32 * q + (r + k)) mod 32 = r + k" if "r + k < 32" for q r
    using that by simp_all
  from this [OF a, of "y div 32"] have "(y + k) div 32 = y div 32" "(y + k) mod 32 = y mod 32 + k"
    by (simp_all only: add.assoc [symmetric] mult_div_mod_eq)
  then show ?thesis by (simp add: tile_addr_def)
qed

lemma tile_addr_split: "tile_addr w h x y = 2048 * tile_index w h (x div 64) (y div 32) + x mod 64 + 64 * (y mod 32)"
  by (simp add: tile_addr_def)

text \<open>The offset of a line of the source picture.\<close>

lemma source_offset:
  assumes "crop_fits W H l t r b" "i + k < H - t"
  shows "unat (of_nat W * (of_nat i + of_nat t + of_nat k) :: u32) = W * (i + k + t)"
proof -
  have "W * (i + k + t) \<le> 16384 * 16384" by (rule mult_le_mono) (use assms in \<open>auto simp: crop_fits_def\<close>)
  then have "unat (of_nat (W * (i + k + t)) :: u32) = W * (i + k + t)" by (intro unat_u32) simp
  then show ?thesis by (simp add: algebra_simps)
qed

lemma copy_tile_moved:
  assumes fits: "crop_fits W H l t r b" and rw: "rw = W - l - r" "rh = H - t - b"
    and ij: "i mod 32 = 0" "i + 32 \<le> rh" "j mod 64 = 0" "j + 64 \<le> rw"
  shows "\<exists>d'. copy_tile src (of_nat W) (of_nat l) (of_nat t) (block_offset (of_nat rw) (of_nat rh) (of_nat i) (of_nat j))
      (of_nat i) (of_nat j) d = Some d' \<and>
    moved (tiled_place rw rh) (linear_pixel src W l t) ({j..<j + 64} \<times> {i..<i + 32}) d d'"
proof -
  have f: "rw \<le> 16384" "rh \<le> 16384" "i < rh" "j < rw" using fits rw ij by (auto simp: crop_fits_def)
  have A: "tile_addr rw rh j i < 1073741824" by (rule tile_addr_small) (use f in auto)
  have o: "block_offset (of_nat rw) (of_nat rh) (of_nat i) (of_nat j) = of_nat (tile_addr rw rh j i)"
    using block_offset_nat [OF f] ij by (simp add: tile_addr_def)
  have un: "unat (of_nat (tile_addr rw rh j i) :: u32) = tile_addr rw rh j i" "unat (of_nat l :: u32) = l" "unat (of_nat j :: u32) = j"
    using A f fits by (auto intro!: unat_u32 simp: crop_fits_def)
  let ?f = "\<lambda>k dest. memcpy dest (tile_addr rw rh j i + 64 * k) src (l + j + unat (of_nat W * (of_nat i + of_nat t + of_nat k) :: u32)) 64"
  have "moved (tiled_place rw rh) (linear_pixel src W l t) ({j..<j + 64} \<times> {i..<i + n}) d (fold ?f [0..<n] d)" if "n \<le> 32" for n
    using that
  proof (induction n)
    case (Suc n)
    have "unat (of_nat W * (of_nat i + of_nat t + of_nat n) :: u32) = W * (i + n + t)"
      by (rule source_offset [OF fits]) (use rw ij Suc.prems in auto)
    then have "moved (tiled_place rw rh) (linear_pixel src W l t) ({j..<j + 64} \<times> {i + n}) (fold ?f [0..<n] d) (?f n (fold ?f [0..<n] d))"
      using Suc.prems ij tile_addr_lines [of i n rw rh j] by (intro segment_moved) auto
    then have "moved (tiled_place rw rh) (linear_pixel src W l t) ({j..<j + 64} \<times> {i..<i + Suc n}) d (?f n (fold ?f [0..<n] d))"
      by (rule tiled_extend [rotated]) (use Suc ij in auto)
    then show ?case by simp
  qed simp
  from this [of 32] show ?thesis unfolding copy_tile_def o un by simp
qed

lemma copy_two_moved:
  assumes fits: "crop_fits W H l t r b" and rw: "rw = W - l - r" "rh = H - t - b"
    and ij: "even i" "i + 2 \<le> rh" "j mod 64 + n \<le> 64" "j + n \<le> rw" and n: "unat m = n"
    and off: "o0 = tile_addr rw rh j i" "o1 = tile_addr rw rh j i + 64"
    and s0: "s0 = l + j + unat (of_nat W * (of_nat i + of_nat t) :: u32)"
    and s1: "s1 = l + j + unat (of_nat W * (of_nat i + of_nat t + 1) :: u32)"
  shows "moved (tiled_place rw rh) (linear_pixel src W l t) ({j..<j + n} \<times> {i..<i + 2}) d
    (memcpy (memcpy d o0 src s0 m) o1 src s1 m)"
proof -
  have src: "s0 = l + j + W * (i + t)" "s1 = l + j + W * (i + 1 + t)"
    unfolding s0 s1 using source_offset [OF fits, of i 0] source_offset [OF fits, of i 1] rw ij by auto
  have "m' + 1 < 32" if "even m'" "m' < 32" for m' :: nat using that by presburger
  moreover have "even (i mod 32)" using ij(1) by (simp add: dvd_mod)
  ultimately have "i mod 32 + 1 < 32" by simp
  then have o1: "o1 = tile_addr rw rh j (i + 1)" unfolding off using tile_addr_lines [of i 1 rw rh j] by simp
  have "moved (tiled_place rw rh) (linear_pixel src W l t) ({j..<j + n} \<times> {i..<i + Suc 0}) d (memcpy d o0 src s0 m)"
    using segment_moved [OF ij(3) off(1) src(1) n, of src d] by simp
  moreover have "moved (tiled_place rw rh) (linear_pixel src W l t) ({j..<j + n} \<times> {i + Suc 0}) (memcpy d o0 src s0 m)
      (memcpy (memcpy d o0 src s0 m) o1 src s1 m)"
    using segment_moved [OF ij(3) o1 src(2) n] by simp
  ultimately have "moved (tiled_place rw rh) (linear_pixel src W l t) ({j..<j + n} \<times> {i..<i + Suc (Suc 0)}) d
      (memcpy (memcpy d o0 src s0 m) o1 src s1 m)"
    by (rule tiled_extend) (use ij in auto)
  then show ?thesis by (simp add: numeral_2_eq_2)
qed

text \<open>The words of the two-line copies.\<close>

lemma two_line_words:
  assumes "rw \<le> 16384" "rh \<le> 16384" "i < rh" "j < rw"
  shows "unat (block_offset (of_nat rw) (of_nat rh) (of_nat i) (of_nat j)) = 2048 * tile_index rw rh (j div 64) (i div 32)"
    "unat (64 * (of_nat i AND 0x1F) :: u32) = 64 * (i mod 32)" "unat (64 * ((of_nat i AND 0x1F) + 1) :: u32) = 64 * (i mod 32) + 64"
    "unat (of_nat j AND 0x3F :: u32) = j mod 64" "unat (of_nat j :: u32) = j"
proof -
  have A: "tile_addr rw rh j i < 1073741824" by (rule tile_addr_small) (use assms in auto)
  then show "unat (block_offset (of_nat rw) (of_nat rh) (of_nat i) (of_nat j)) = 2048 * tile_index rw rh (j div 64) (i div 32)"
    unfolding block_offset_nat [OF assms] by (intro unat_u32) (simp add: tile_addr_def)
  have i: "of_nat i AND 0x1F = (of_nat (i mod 32) :: u32)" and j: "of_nat j AND 0x3F = (of_nat (j mod 64) :: u32)"
    by (rule and_u32, use assms in simp)+
  have m: "i mod 32 < 32" by simp
  have w: "64 * of_nat (i mod 32) = (of_nat (64 * (i mod 32)) :: u32)" "64 * (of_nat (i mod 32) + 1) = (of_nat (64 * (i mod 32) + 64) :: u32)"
    by (simp_all add: algebra_simps)
  show "unat (64 * (of_nat i AND 0x1F) :: u32) = 64 * (i mod 32)" unfolding i w(1) by (rule unat_u32) (use m in linarith)
  show "unat (64 * ((of_nat i AND 0x1F) + 1) :: u32) = 64 * (i mod 32) + 64" unfolding i w(2) by (rule unat_u32) (use m in linarith)
  show "unat (of_nat j AND 0x3F :: u32) = j mod 64" unfolding j by (rule unat_u32) (use assms in \<open>auto intro: le_less_trans [OF mod_less_eq_dividend]\<close>)
  show "unat (of_nat j :: u32) = j" by (rule unat_u32) (use assms in simp)
qed

lemma copy_lines_moved:
  assumes fits: "crop_fits W H l t r b" and rw: "rw = W - l - r" "rh = H - t - b"
    and ij: "even i" "i + 2 \<le> rh" "j mod 64 = 0" "j + 64 \<le> rw"
  shows "\<exists>d'. copy_lines src (of_nat W) (of_nat l) (of_nat t) (block_offset (of_nat rw) (of_nat rh) (of_nat i) (of_nat j))
      (of_nat i) (of_nat j) d = Some d' \<and>
    moved (tiled_place rw rh) (linear_pixel src W l t) ({j..<j + 64} \<times> {i..<i + 2}) d d'"
proof -
  have f: "rw \<le> 16384" "rh \<le> 16384" "i < rh" "j < rw" using fits rw ij by (auto simp: crop_fits_def)
  have l: "unat (of_nat l :: u32) = l" using fits by (intro unat_u32) (auto simp: crop_fits_def)
  show ?thesis unfolding copy_lines_def Let_def two_line_words [OF f] l
    by (intro exI conjI, rule refl, rule copy_two_moved [OF fits rw ij(1,2) _ ij(4)])
      (use ij tile_addr_split [of rw rh j i] in auto)
qed

lemma copy_pair_moved:
  assumes fits: "crop_fits W H l t r b" and rw: "rw = W - l - r" "rh = H - t - b"
    and ij: "even i" "i + 2 \<le> rh" "even j" "j + 2 \<le> rw"
  shows "\<exists>d'. copy_pair src (of_nat W) (of_nat l) (of_nat t) (block_offset (of_nat rw) (of_nat rh) (of_nat i) (of_nat j))
      (of_nat i) (of_nat j) d = Some d' \<and>
    moved (tiled_place rw rh) (linear_pixel src W l t) ({j..<j + 2} \<times> {i..<i + 2}) d d'"
proof -
  have f: "rw \<le> 16384" "rh \<le> 16384" "i < rh" "j < rw" using fits rw ij by (auto simp: crop_fits_def)
  have l: "unat (of_nat l :: u32) = l" using fits by (intro unat_u32) (auto simp: crop_fits_def)
  have "m + 2 \<le> 64" if "even m" "m < 64" for m :: nat using that by presburger
  moreover have "even (j mod 64)" using ij(3) by (simp add: dvd_mod)
  ultimately have run: "j mod 64 + 2 \<le> 64" by simp
  show ?thesis unfolding copy_pair_def Let_def two_line_words [OF f] l
    by (intro exI conjI, rule refl, rule copy_two_moved [OF fits rw ij(1,2) run ij(4)])
      (use ij tile_addr_split [of rw rh j i] in auto)
qed

section \<open>The loops cover the picture\<close>

lemma steps_fit:
  assumes "n \<in> steps k i b" "k dvd b - i"
  shows "n + k \<le> b" "k dvd i \<Longrightarrow> k dvd n"
proof -
  have n: "i \<le> n" "n < b" "k dvd n - i" using assms(1) by (auto simp: steps_def)
  have "k dvd b - n" using assms(2) n dvd_diff_nat [of k "b - i" "n - i"] by simp
  then have "k \<le> b - n" using n(2) by (simp add: dvd_imp_le)
  then show "n + k \<le> b" using n(2) by simp
  show "k dvd n" if "k dvd i" using that n dvd_add [of k "n - i" i] by simp
qed

lemma steps_cover:
  assumes "0 < k" "k dvd b - i"
  shows "(\<Union>n\<in>steps k i b. {n..<n + k}) = {i..<b}"
proof (intro equalityI subsetI)
  fix x assume "x \<in> (\<Union>n\<in>steps k i b. {n..<n + k})"
  then obtain n where n: "n \<in> steps k i b" "i \<le> n" "n \<le> x" "x < n + k" by (auto simp: steps_def)
  then show "x \<in> {i..<b}" using steps_fit(1) [OF n(1) assms(2)] by simp
next
  fix x assume x: "x \<in> {i..<b}"
  define n where "n = i + k * ((x - i) div k)"
  have e: "k * ((x - i) div k) + (x - i) mod k = x - i" by (rule mult_div_mod_eq)
  have "(x - i) mod k < k" "i \<le> x" using assms(1) x by simp_all
  then have "n \<le> x" "x < n + k" unfolding n_def using e by linarith+
  moreover have "n \<in> steps k i b" using x \<open>n \<le> x\<close> by (auto simp: steps_def n_def)
  ultimately show "x \<in> (\<Union>n\<in>steps k i b. {n..<n + k})" by auto
qed

lemma grid_moved:
  assumes k: "0 < kj" "0 < ki" "kj dvd jb - j0" "ki dvd ib - i0" and b: "jb \<le> rw" "ib \<le> rh" "jb + kj < 4294967296" "ib + ki < 4294967296"
      "i0 < 4294967296" "j0 < 4294967296"
    and body: "\<And>i j d. i \<in> steps ki i0 ib \<Longrightarrow> j \<in> steps kj j0 jb \<Longrightarrow>
      \<exists>d'. body (of_nat i) (of_nat j) d = Some d' \<and> moved (tiled_place rw rh) v ({j..<j + kj} \<times> {i..<i + ki}) d d'"
  shows "\<exists>d'. for_lt (of_nat ki) (of_nat ib) (\<lambda>i. for_lt (of_nat kj) (of_nat jb) (body i) (of_nat j0)) (of_nat i0) d = Some d' \<and>
    moved (tiled_place rw rh) v ({j0..<jb} \<times> {i0..<ib}) d d'"
proof -
  let ?R = "{..<64 * tile_columns rw} \<times> {..<32 * tile_rows rh}"
  have sub: "{j0..<jb} \<times> {i0..<ib} \<subseteq> ?R" using b(1,2) picture_in_tiles(1) [of rw] picture_in_tiles(2) [of rh] by (intro Sigma_mono) auto
  have cj: "(\<Union>j\<in>steps kj j0 jb. {j..<j + kj}) = {j0..<jb}" and ci: "(\<Union>i\<in>steps ki i0 ib. {i..<i + ki}) = {i0..<ib}"
    using steps_cover k by blast+
  have inR: "{j..<j + kj} \<times> {i..<i + ki} \<subseteq> ?R" if "i \<in> steps ki i0 ib" "j \<in> steps kj j0 jb" for i j
    using that sub cj ci by blast
  have row: "\<exists>d'. for_lt (of_nat kj) (of_nat jb) (body (of_nat i)) (of_nat j0) d = Some d' \<and>
      moved (tiled_place rw rh) v ({j0..<jb} \<times> {i..<i + ki}) d d'" if i: "i \<in> steps ki i0 ib" for i d
  proof -
    have "\<exists>d'. for_lt (of_nat kj) (of_nat jb) (body (of_nat i)) (of_nat j0) d = Some d' \<and>
        moved (tiled_place rw rh) v (\<Union>j\<in>steps kj j0 jb. {j..<j + kj} \<times> {i..<i + ki}) d d'"
      by (rule tiled.for_lt_moved, rule k(1), rule b(3), rule body [OF i], assumption, rule inR [OF i], assumption, rule b(6))
    moreover have "(\<Union>j\<in>steps kj j0 jb. {j..<j + kj} \<times> {i..<i + ki}) = {j0..<jb} \<times> {i..<i + ki}" using cj by auto
    ultimately show ?thesis by simp
  qed
  have rR: "{j0..<jb} \<times> {i..<i + ki} \<subseteq> ?R" if "i \<in> steps ki i0 ib" for i using that sub ci by blast
  have "\<exists>d'. for_lt (of_nat ki) (of_nat ib) (\<lambda>i. for_lt (of_nat kj) (of_nat jb) (body i) (of_nat j0)) (of_nat i0) d = Some d' \<and>
      moved (tiled_place rw rh) v (\<Union>i\<in>steps ki i0 ib. {j0..<jb} \<times> {i..<i + ki}) d d'"
    by (rule tiled.for_lt_moved, rule k(2), rule b(4), rule row, assumption, rule rR, assumption, rule b(5))
  moreover have "(\<Union>i\<in>steps ki i0 ib. {j0..<jb} \<times> {i..<i + ki}) = {j0..<jb} \<times> {i0..<ib}" using ci by auto
  ultimately show ?thesis by simp
qed

lemma linear_to_tiled_done:
  assumes fits: "crop_fits W H l t r b" and rw: "rw = W - l - r" "rh = H - t - b" and ev: "even rw" "even rh"
  shows "\<exists>d'. csc_linear_to_tiled_crop d src (of_nat W) (of_nat H) (of_nat l) (of_nat t) (of_nat r) (of_nat b) = Some d' \<and>
    moved (tiled_place rw rh) (linear_pixel src W l t) ({..<rw} \<times> {..<rh}) d d'"
proof -
  define ax ay where "ax = 64 * (rw div 64)" and "ay = 32 * (rh div 32)"
  have f: "rw \<le> 16384" "rh \<le> 16384" using fits rw by (auto simp: crop_fits_def)
  have words: "of_nat W - of_nat l - of_nat r = (of_nat rw :: u32)" "of_nat H - of_nat t - of_nat b = (of_nat rh :: u32)"
    using fits rw by (simp_all add: crop_fits_def of_nat_diff diff_diff_eq)
  have al: "push_bit 5 (drop_bit 5 (of_nat rh)) = (of_nat ay :: u32)" "push_bit 6 (drop_bit 6 (of_nat rw)) = (of_nat ax :: u32)"
    using f drop_bit_u32 [of rh 5] drop_bit_u32 [of rw 6] by (simp_all add: push_bit_eq_mult ax_def ay_def mult.commute)
  have a: "ax \<le> rw" "ay \<le> rh" "even ax" "even ay" "64 dvd ax" "32 dvd ay" "ax \<le> 16384" "ay \<le> 16384"
    unfolding ax_def ay_def using f by auto
  let ?R = "{..<64 * tile_columns rw} \<times> {..<32 * tile_rows rh}"
  let ?M = "moved (tiled_place rw rh) (linear_pixel src W l t)"
  note grid = grid_moved [where rw = rw and rh = rh and v = "linear_pixel src W l t"]
  have "\<exists>d'. for_lt (of_nat 32) (of_nat ay) (\<lambda>i. for_lt (of_nat 64) (of_nat ax)
      (\<lambda>j. copy_tile src (of_nat W) (of_nat l) (of_nat t) (block_offset (of_nat rw) (of_nat rh) i j) i j) (of_nat 0)) (of_nat 0) d = Some d' \<and>
      ?M ({0..<ax} \<times> {0..<ay}) d d'"
  proof (rule grid)
    fix i j d assume ij: "i \<in> steps 32 0 ay" "j \<in> steps 64 0 ax"
    show "\<exists>d'. copy_tile src (of_nat W) (of_nat l) (of_nat t) (block_offset (of_nat rw) (of_nat rh) (of_nat i) (of_nat j)) (of_nat i) (of_nat j) d = Some d' \<and>
        ?M ({j..<j + 64} \<times> {i..<i + 32}) d d'"
      by (rule copy_tile_moved [OF fits rw]) (use steps_fit [OF ij(1)] steps_fit [OF ij(2)] a in auto)
  qed (use a in auto)
  then obtain d1 where d1: "for_lt 32 (of_nat ay) (\<lambda>i. for_lt 64 (of_nat ax)
      (\<lambda>j. copy_tile src (of_nat W) (of_nat l) (of_nat t) (block_offset (of_nat rw) (of_nat rh) i j) i j) 0) 0 d = Some d1"
    "?M ({0..<ax} \<times> {0..<ay}) d d1" by auto
  have "\<exists>d'. for_lt (of_nat 2) (of_nat rh) (\<lambda>i. for_lt (of_nat 64) (of_nat ax)
      (\<lambda>j. copy_lines src (of_nat W) (of_nat l) (of_nat t) (block_offset (of_nat rw) (of_nat rh) i j) i j) (of_nat 0)) (of_nat ay) d1 = Some d' \<and>
      ?M ({0..<ax} \<times> {ay..<rh}) d1 d'"
  proof (rule grid)
    fix i j d assume ij: "i \<in> steps 2 ay rh" "j \<in> steps 64 0 ax"
    show "\<exists>d'. copy_lines src (of_nat W) (of_nat l) (of_nat t) (block_offset (of_nat rw) (of_nat rh) (of_nat i) (of_nat j)) (of_nat i) (of_nat j) d = Some d' \<and>
        ?M ({j..<j + 64} \<times> {i..<i + 2}) d d'"
      by (rule copy_lines_moved [OF fits rw]) (use steps_fit [OF ij(1)] steps_fit [OF ij(2)] a ev in auto)
  qed (use a ev f in auto)
  then obtain d2 where d2: "for_lt 2 (of_nat rh) (\<lambda>i. for_lt 64 (of_nat ax)
      (\<lambda>j. copy_lines src (of_nat W) (of_nat l) (of_nat t) (block_offset (of_nat rw) (of_nat rh) i j) i j) 0) (of_nat ay) d1 = Some d2"
    "?M ({0..<ax} \<times> {ay..<rh}) d1 d2" by auto
  have "\<exists>d'. for_lt (of_nat 2) (of_nat rh) (\<lambda>i. for_lt (of_nat 2) (of_nat rw)
      (\<lambda>j. copy_pair src (of_nat W) (of_nat l) (of_nat t) (block_offset (of_nat rw) (of_nat rh) i j) i j) (of_nat ax)) (of_nat 0) d2 = Some d' \<and>
      ?M ({ax..<rw} \<times> {0..<rh}) d2 d'"
  proof (rule grid)
    fix i j d assume ij: "i \<in> steps 2 0 rh" "j \<in> steps 2 ax rw"
    show "\<exists>d'. copy_pair src (of_nat W) (of_nat l) (of_nat t) (block_offset (of_nat rw) (of_nat rh) (of_nat i) (of_nat j)) (of_nat i) (of_nat j) d = Some d' \<and>
        ?M ({j..<j + 2} \<times> {i..<i + 2}) d d'"
      by (rule copy_pair_moved [OF fits rw]) (use steps_fit [OF ij(1)] steps_fit [OF ij(2)] a ev in auto)
  qed (use a ev f in auto)
  then obtain d3 where d3: "for_lt 2 (of_nat rh) (\<lambda>i. for_lt 2 (of_nat rw)
      (\<lambda>j. copy_pair src (of_nat W) (of_nat l) (of_nat t) (block_offset (of_nat rw) (of_nat rh) i j) i j) (of_nat ax)) 0 d2 = Some d3"
    "?M ({ax..<rw} \<times> {0..<rh}) d2 d3" by auto
  have sub: "{0..<ax} \<times> {0..<ay} \<subseteq> ?R" "{0..<ax} \<times> {ay..<rh} \<subseteq> ?R" "{ax..<rw} \<times> {0..<rh} \<subseteq> ?R"
    using a picture_in_tiles(1) [of rw] picture_in_tiles(2) [of rh] by (intro Sigma_mono; auto)+
  then have "?M ({0..<ax} \<times> {0..<ay} \<union> {0..<ax} \<times> {ay..<rh} \<union> {ax..<rw} \<times> {0..<rh}) d d3"
    using d1(2) d2(2) d3(2) by (intro tiled.moved_Un) auto
  moreover have "{0..<ax} \<times> {0..<ay} \<union> {0..<ax} \<times> {ay..<rh} \<union> {ax..<rw} \<times> {0..<rh} = {..<rw} \<times> {..<rh}" using a by auto
  ultimately have "?M ({..<rw} \<times> {..<rh}) d d3" by simp
  then show ?thesis unfolding csc_linear_to_tiled_crop_def Let_def words al d1(1) d2(1) d3(1) bind.bind_lunit by blast
qed

text \<open>C34. Tiling and untiling: for a picture of at most 16384 x 16384 bytes and a crop of even width and
  height inside it, \<open>csc_linear_to_tiled_crop\<close> returns and writes nothing behind the crop rounded up to
  whole tiles; converting its result back with \<open>csc_tiled_to_linear_crop\<close> returns the cropped picture.\<close>

theorem tiled_round_trip:
  fixes w h l t r b :: u32
  defines "rw \<equiv> unat w - unat l - unat r" and "rh \<equiv> unat h - unat t - unat b"
  assumes fits: "crop_fits (unat w) (unat h) (unat l) (unat t) (unat r) (unat b)" and ev: "even rw" "even rh"
  shows "\<exists>tiles out. csc_linear_to_tiled_crop d src w h l t r b = Some tiles \<and>
    (\<forall>a \<ge> 64 * tile_columns rw * (32 * tile_rows rh). tiles a = d a) \<and>
    csc_tiled_to_linear_crop d2 tiles (w - l - r) (h - t - b) 0 0 0 0 = Some out \<and>
    (\<forall>y < rh. \<forall>x < rw. out (rw * y + x) = src (unat l + x + unat w * (y + unat t)))"
proof -
  obtain tiles where tiles: "csc_linear_to_tiled_crop d src w h l t r b = Some tiles"
    and m: "moved (tiled_place rw rh) (linear_pixel src (unat w) (unat l) (unat t)) ({..<rw} \<times> {..<rh}) d tiles"
    using linear_to_tiled_done [OF fits rw_def [THEN meta_eq_to_obj_eq] rh_def [THEN meta_eq_to_obj_eq] ev, of d src]
    by auto
  have out: "tiles a = d a" if "64 * tile_columns rw * (32 * tile_rows rh) \<le> a" for a
  proof -
    have "a \<noteq> tile_addr rw rh x y" if "x < rw" "y < rh" for x y
      using \<open>64 * tile_columns rw * (32 * tile_rows rh) \<le> a\<close> tile_addr_bound [of x rw y rh] that
        picture_in_tiles(1) [of rw] picture_in_tiles(2) [of rh] by auto
    then have "a \<notin> tiled_place rw rh ` ({..<rw} \<times> {..<rh})" by (auto simp: tiled_place_def)
    then show ?thesis using m by (simp add: moved_def)
  qed
  have words: "w - l - r = of_nat rw" "h - t - b = of_nat rh"
    using fits unfolding rw_def rh_def crop_fits_def by (simp_all add: of_nat_diff diff_diff_eq)
  have fits': "crop_fits rw rh 0 0 0 0" using fits unfolding rw_def rh_def crop_fits_def by auto
  obtain out where out': "csc_tiled_to_linear_crop d2 tiles (w - l - r) (h - t - b) 0 0 0 0 = Some out"
    and o: "\<forall>y < rh. \<forall>x < rw. out (rw * y + x) = tiled_pixel tiles rw rh 0 0 (x, y)"
    using conversion_done [OF fits' _ _, of rw rh d2 tiles] ev unfolding words by auto
  have "out (rw * y + x) = src (unat l + x + unat w * (y + unat t))" if "y < rh" "x < rw" for x y
    using o m that by (auto simp: tiled_pixel_def moved_def tiled_place_def linear_pixel_def)
  then show ?thesis using tiles out out' by blast
qed

theorem tiled_round_trip_witness:
  "\<exists>tiles out. csc_linear_to_tiled_crop (\<lambda>_. 0) of_nat 176 144 16 8 0 0 = Some tiles \<and>
     csc_tiled_to_linear_crop (\<lambda>_. 0) tiles (176 - 16 - 0) (144 - 8 - 0) 0 0 0 0 = Some out \<and> out (160 * 3 + 5) = of_nat (16 + 5 + 176 * 11)"
proof -
  obtain tiles out where t: "csc_linear_to_tiled_crop (\<lambda>_. 0) of_nat 176 144 16 8 0 0 = Some tiles"
    "csc_tiled_to_linear_crop (\<lambda>_. 0) tiles (176 - 16 - 0) (144 - 8 - 0) 0 0 0 0 = Some out"
    and v: "\<forall>y < 136. \<forall>x < 160. out (160 * y + x) = (of_nat (16 + x + 176 * (y + 8)) :: u8)"
    using tiled_round_trip [of 176 144 16 8 0 0 "\<lambda>_. 0" of_nat "\<lambda>_. 0"] by (auto simp: crop_fits_def)
  from v [rule_format, of 3 5] have "out (160 * 3 + 5) = of_nat (16 + 5 + 176 * 11)" by simp
  then show ?thesis using t by blast
qed

end
