(* ===== verification/CSC_RGB.thy ===== *)
theory CSC_RGB
  imports CSC_Memory
begin

text \<open>
  The conversions from RGB to YUV420 of \<open>swconvertor.c\<close>, for the two pixel formats and for
  planar and semi-planar output. The arithmetic is on unsigned 32-bit words; the negative
  coefficients of the chroma samples wrap around.
\<close>

section \<open>Pixels\<close>

type_synonym rgb = "u32 \<times> u32 \<times> u32"

definition rgb565_planar :: "u16 \<Rightarrow> rgb" where
  "rgb565_planar px = (let tmp = ucast px :: u32 in
    (drop_bit 8 (tmp AND 0x0000F800), drop_bit 3 (tmp AND 0x000007E0), push_bit 3 (tmp AND 0x0000001F)))"

definition rgb565_semi :: "u16 \<Rightarrow> rgb" where
  "rgb565_semi px = (let tmp = ucast px :: u32 in
    (drop_bit 11 (tmp AND 0x0000F800) * 8, drop_bit 5 (tmp AND 0x000007E0) * 4, (tmp AND 0x0000001F) * 8))"

definition argb8888 :: "u32 \<Rightarrow> rgb" where
  "argb8888 tmp = (drop_bit 16 (tmp AND 0x00FF0000), drop_bit 8 (tmp AND 0x0000FF00), tmp AND 0x000000FF)"

definition luma :: "rgb \<Rightarrow> u8" where
  "luma = (\<lambda>(R, G, B). ucast (drop_bit 8 (66 * R + 129 * G + 25 * B + 128) + 16))"

definition chroma_u :: "rgb \<Rightarrow> u8" where
  "chroma_u = (\<lambda>(R, G, B). ucast (drop_bit 8 (- 38 * R - 74 * G + 112 * B + 128) + 128))"

definition chroma_v :: "rgb \<Rightarrow> u8" where
  "chroma_v = (\<lambda>(R, G, B). ucast (drop_bit 8 (112 * R - 94 * G - 18 * B + 128) + 128))"

section \<open>Planar output\<close>

record planar_state =
  y_dst :: plane
  u_dst :: plane
  v_dst :: plane
  yIndex :: u32
  uIndex :: u32
  vIndex :: u32

definition planar_pixel :: "(nat \<Rightarrow> rgb) \<Rightarrow> u32 \<Rightarrow> u32 \<Rightarrow> u32 \<Rightarrow> planar_state \<Rightarrow> planar_state option" where
  "planar_pixel pSrc width j i s =
    (let px = pSrc (unat (j * width + i));
         s = s\<lparr>y_dst := (y_dst s)(unat (yIndex s) := luma px), yIndex := yIndex s + 1\<rparr>
     in if j mod 2 = 0 \<and> i mod 2 = 0
        then Some (s\<lparr>u_dst := (u_dst s)(unat (uIndex s) := chroma_u px), uIndex := uIndex s + 1,
                     v_dst := (v_dst s)(unat (vIndex s) := chroma_v px), vIndex := vIndex s + 1\<rparr>)
        else Some s)"

definition planar_frame :: "(nat \<Rightarrow> rgb) \<Rightarrow> plane \<Rightarrow> plane \<Rightarrow> plane \<Rightarrow> u32 \<Rightarrow> u32 \<Rightarrow> (plane \<times> plane \<times> plane) option" where
  "planar_frame pSrc y u v width height =
    map_option (\<lambda>s. (y_dst s, u_dst s, v_dst s))
      (for_lt 1 height (\<lambda>j. for_lt 1 width (planar_pixel pSrc width j) 0) 0
        \<lparr>y_dst = y, u_dst = u, v_dst = v, yIndex = 0, uIndex = 0, vIndex = 0\<rparr>)"

definition csc_RGB565_to_YUV420P :: "plane \<Rightarrow> plane \<Rightarrow> plane \<Rightarrow> (nat \<Rightarrow> u16) \<Rightarrow> u32 \<Rightarrow> u32 \<Rightarrow> (plane \<times> plane \<times> plane) option" where
  "csc_RGB565_to_YUV420P y u v rgb_src width height = planar_frame (\<lambda>k. rgb565_planar (rgb_src k)) y u v width height"

definition csc_ARGB8888_to_YUV420P :: "plane \<Rightarrow> plane \<Rightarrow> plane \<Rightarrow> (nat \<Rightarrow> u32) \<Rightarrow> u32 \<Rightarrow> u32 \<Rightarrow> (plane \<times> plane \<times> plane) option" where
  "csc_ARGB8888_to_YUV420P y u v rgb_src width height = planar_frame (\<lambda>k. argb8888 (rgb_src k)) y u v width height"

section \<open>Semi-planar output\<close>

record semi_state =
  sy_dst :: plane
  uv_dst :: plane
  syIndex :: u32
  uvIndex :: u32

definition semi_pixel :: "(nat \<Rightarrow> rgb) \<Rightarrow> u32 \<Rightarrow> u32 \<Rightarrow> u32 \<Rightarrow> semi_state \<Rightarrow> semi_state option" where
  "semi_pixel pSrc width j i s =
    (let px = pSrc (unat (j * width + i));
         s = s\<lparr>sy_dst := (sy_dst s)(unat (syIndex s) := luma px), syIndex := syIndex s + 1\<rparr>
     in if j mod 2 = 0 \<and> i mod 2 = 0
        then Some (let s = s\<lparr>uv_dst := (uv_dst s)(unat (uvIndex s) := chroma_u px), uvIndex := uvIndex s + 1\<rparr>
                   in s\<lparr>uv_dst := (uv_dst s)(unat (uvIndex s) := chroma_v px), uvIndex := uvIndex s + 1\<rparr>)
        else Some s)"

definition semi_frame :: "(nat \<Rightarrow> rgb) \<Rightarrow> plane \<Rightarrow> plane \<Rightarrow> u32 \<Rightarrow> u32 \<Rightarrow> (plane \<times> plane) option" where
  "semi_frame pSrc y uv width height =
    map_option (\<lambda>s. (sy_dst s, uv_dst s))
      (for_lt 1 height (\<lambda>j. for_lt 1 width (semi_pixel pSrc width j) 0) 0
        \<lparr>sy_dst = y, uv_dst = uv, syIndex = 0, uvIndex = 0\<rparr>)"

definition csc_RGB565_to_YUV420SP :: "plane \<Rightarrow> plane \<Rightarrow> (nat \<Rightarrow> u16) \<Rightarrow> u32 \<Rightarrow> u32 \<Rightarrow> (plane \<times> plane) option" where
  "csc_RGB565_to_YUV420SP y uv rgb_src width height = semi_frame (\<lambda>k. rgb565_semi (rgb_src k)) y uv width height"

definition csc_ARGB8888_to_YUV420SP :: "plane \<Rightarrow> plane \<Rightarrow> (nat \<Rightarrow> u32) \<Rightarrow> u32 \<Rightarrow> u32 \<Rightarrow> (plane \<times> plane) option" where
  "csc_ARGB8888_to_YUV420SP y uv rgb_src width height = semi_frame (\<lambda>k. argb8888 (rgb_src k)) y uv width height"

section \<open>The colour arithmetic\<close>

text \<open>Components of at most 8 bits.\<close>

definition rgb_ok :: "rgb \<Rightarrow> bool" where
  "rgb_ok = (\<lambda>(R, G, B). R < 256 \<and> G < 256 \<and> B < 256)"

lemma sample_u8: "uint (ucast (drop_bit 8 (word_of_int a :: u32) + word_of_int c) :: u8) = (a div 256 + c) mod 256"
proof -
  have bits: "take_bit 8 (drop_bit 8 (take_bit 32 a)) = take_bit 8 (drop_bit 8 a)"
    by (rule bit_eqI) (auto simp: bit_simps)
  have "uint (ucast (drop_bit 8 (word_of_int a :: u32) + word_of_int c) :: u8) =
      take_bit 8 (take_bit 32 (drop_bit 8 (take_bit 32 a) + take_bit 32 c))"
    by (simp add: unsigned_ucast_eq uint_word_ariths uint_div uint_word_of_int take_bit_eq_mod drop_bit_eq_div mod_simps)
  also have "\<dots> = take_bit 8 (take_bit 8 (drop_bit 8 (take_bit 32 a)) + take_bit 8 c)"
    using take_bit_add [of 8 "drop_bit 8 (take_bit 32 a)" "take_bit 32 c"] by simp
  also have "\<dots> = take_bit 8 (drop_bit 8 a + c)" unfolding bits by (simp add: take_bit_add)
  finally show ?thesis by (simp add: take_bit_eq_mod drop_bit_eq_div)
qed

text \<open>The samples by signed arithmetic.\<close>

lemma samples:
  "uint (luma (R, G, B)) = ((66 * uint R + 129 * uint G + 25 * uint B + 128) div 256 + 16) mod 256"
  "uint (chroma_u (R, G, B)) = ((- 38 * uint R - 74 * uint G + 112 * uint B + 128) div 256 + 128) mod 256"
  "uint (chroma_v (R, G, B)) = ((112 * uint R - 94 * uint G - 18 * uint B + 128) div 256 + 128) mod 256"
  using sample_u8 [of "66 * uint R + 129 * uint G + 25 * uint B + 128" 16]
    sample_u8 [of "- 38 * uint R - 74 * uint G + 112 * uint B + 128" 128]
    sample_u8 [of "112 * uint R - 94 * uint G - 18 * uint B + 128" 128]
  by (simp_all add: luma_def chroma_u_def chroma_v_def)

lemma rgb_ok_samples:
  assumes "rgb_ok (R, G, B)"
  shows "uint (luma (R, G, B)) = (66 * uint R + 129 * uint G + 25 * uint B + 128) div 256 + 16"
    "uint (chroma_u (R, G, B)) = (- 38 * uint R - 74 * uint G + 112 * uint B + 128) div 256 + 128"
    "uint (chroma_v (R, G, B)) = (112 * uint R - 94 * uint G - 18 * uint B + 128) div 256 + 128"
    "16 \<le> uint (luma (R, G, B))" "uint (luma (R, G, B)) \<le> 235"
    "16 \<le> uint (chroma_u (R, G, B))" "uint (chroma_u (R, G, B)) \<le> 240"
    "16 \<le> uint (chroma_v (R, G, B))" "uint (chroma_v (R, G, B)) \<le> 240"
proof -
  have r: "0 \<le> uint R" "uint R \<le> 255" "0 \<le> uint G" "uint G \<le> 255" "0 \<le> uint B" "uint B \<le> 255"
    using assms by (simp_all add: rgb_ok_def word_less_def)
  let ?y = "(66 * uint R + 129 * uint G + 25 * uint B + 128) div 256"
  let ?u = "(- 38 * uint R - 74 * uint G + 112 * uint B + 128) div 256"
  let ?v = "(112 * uint R - 94 * uint G - 18 * uint B + 128) div 256"
  have b: "0 \<le> ?y" "?y \<le> 219" "- 112 \<le> ?u" "?u \<le> 112" "- 112 \<le> ?v" "?v \<le> 112"
    using r by linarith+
  show "uint (luma (R, G, B)) = ?y + 16" "uint (chroma_u (R, G, B)) = ?u + 128" "uint (chroma_v (R, G, B)) = ?v + 128"
    unfolding samples using b by simp_all
  then show "16 \<le> uint (luma (R, G, B))" "uint (luma (R, G, B)) \<le> 235"
    "16 \<le> uint (chroma_u (R, G, B))" "uint (chroma_u (R, G, B)) \<le> 240"
    "16 \<le> uint (chroma_v (R, G, B))" "uint (chroma_v (R, G, B)) \<le> 240" using b by simp_all
qed

text \<open>Both splittings of an RGB565 pixel give the three channels scaled to 8 bits.\<close>

definition channels565 :: "u16 \<Rightarrow> int \<times> int \<times> int" where
  "channels565 px = (let p = uint px in (p div 2048 * 8, p div 32 mod 64 * 4, p mod 32 * 8))"

definition channels8888 :: "u32 \<Rightarrow> int \<times> int \<times> int" where
  "channels8888 px = (let p = uint px in (p div 65536 mod 256, p div 256 mod 256, p mod 256))"

definition channels :: "rgb \<Rightarrow> int \<times> int \<times> int" where
  "channels = (\<lambda>(R, G, B). (uint R, uint G, uint B))"

lemma masked_field:
  "drop_bit k (x AND push_bit k (mask b)) = take_bit b (drop_bit k x)" for x :: u32
proof (rule bit_word_eqI)
  fix n assume "n < LENGTH(32)"
  then show "bit (drop_bit k (x AND push_bit k (mask b))) n = bit (take_bit b (drop_bit k x)) n"
    using bit_imp_le_length [of x "k + n"] by (auto simp: bit_simps)
qed

lemma mask_shift:
  fixes x :: u32
  assumes "j \<le> k"
  shows "drop_bit j (x AND push_bit k (mask b)) = push_bit (k - j) (drop_bit k (x AND push_bit k (mask b)))"
proof (rule bit_word_eqI)
  fix n assume "n < LENGTH(32)"
  then show "bit (drop_bit j (x AND push_bit k (mask b))) n = bit (push_bit (k - j) (drop_bit k (x AND push_bit k (mask b)))) n"
    using assms bit_imp_le_length [of x "j + n"] by (auto simp: bit_simps add.commute)
qed

lemma masks:
  "(0xF800 :: u32) = push_bit 11 (mask 5)" "(0x7E0 :: u32) = push_bit 5 (mask 6)" "(0x1F :: u32) = mask 5"
  "(0xFF0000 :: u32) = push_bit 16 (mask 8)" "(0xFF00 :: u32) = push_bit 8 (mask 8)" "(0xFF :: u32) = mask 8"
  by (simp_all add: mask_eq_exp_minus_1 push_bit_eq_mult)

lemma fields565:
  "drop_bit 11 (x AND 0xF800) = take_bit 5 (drop_bit 11 x)" "drop_bit 5 (x AND 0x7E0) = take_bit 6 (drop_bit 5 x)"
  "x AND 0x1F = take_bit 5 x" for x :: u32
  unfolding masks(1-3) masked_field by (simp_all add: take_bit_eq_mask)

lemma fields8888:
  "drop_bit 16 (x AND 0xFF0000) = take_bit 8 (drop_bit 16 x)" "drop_bit 8 (x AND 0xFF00) = take_bit 8 (drop_bit 8 x)"
  "x AND 0xFF = take_bit 8 x" for x :: u32
  unfolding masks(4-6) masked_field by (simp_all add: take_bit_eq_mask)

lemma shifted565:
  "drop_bit 8 (x AND 0xF800) = drop_bit 11 (x AND 0xF800) * 8" "drop_bit 3 (x AND 0x7E0) = drop_bit 5 (x AND 0x7E0) * 4" for x :: u32
  using mask_shift [of 8 11 x 5] mask_shift [of 3 5 x 6] unfolding masks(1-2) by (simp_all only: push_bit_eq_mult) simp_all

lemma rgb565_same: "rgb565_planar px = rgb565_semi px"
  by (simp only: rgb565_planar_def rgb565_semi_def Let_def shifted565) (simp add: push_bit_eq_mult)

lemma uint_field: "uint (take_bit b (drop_bit k x)) = uint x div 2 ^ k mod 2 ^ b" for x :: u32
  using uint_lt2p [of x] by (simp only: unsigned_take_bit_eq unsigned_drop_bit_eq) (simp add: take_bit_eq_mod drop_bit_eq_div)

lemma scale_u32: "uint x < 256 \<Longrightarrow> uint c < 256 \<Longrightarrow> uint (x * c) = uint x * uint c" for x c :: u32
proof -
  assume "uint x < 256" "uint c < 256"
  then have "uint x * uint c \<le> 255 * 255" by (intro mult_mono) auto
  then show ?thesis by (simp add: uint_word_ariths)
qed

lemma channels_565: "channels (rgb565_semi px) = channels565 px"
proof -
  let ?x = "ucast px :: u32"
  have p: "uint px < 65536" using uint_lt2p [of px] by simp
  then have x: "uint ?x = uint px" by (simp add: unsigned_ucast_eq take_bit_int_eq_self)
  have r: "uint px div 2048 mod 32 = uint px div 2048"
  proof (rule mod_pos_pos_trivial)
    show "0 \<le> uint px div 2048" by (simp add: pos_imp_zdiv_nonneg_iff)
    show "uint px div 2048 < 32" using p by linarith
  qed
  have f: "uint (take_bit 5 (drop_bit 11 ?x)) = uint px div 2048" "uint (take_bit 6 (drop_bit 5 ?x)) = uint px div 32 mod 64"
    "uint (take_bit 5 ?x) = uint px mod 32"
    using uint_field [of 5 11 ?x] uint_field [of 6 5 ?x] uint_field [of 5 0 ?x] by (simp_all add: x r)
  have "uint px div 2048 < 32" using p by linarith
  then have "uint (take_bit 5 (drop_bit 11 ?x) * 8) = uint px div 2048 * 8"
    "uint (take_bit 6 (drop_bit 5 ?x) * 4) = uint px div 32 mod 64 * 4" "uint (take_bit 5 ?x * 8) = uint px mod 32 * 8"
    using scale_u32 [of "take_bit 5 (drop_bit 11 ?x)" 8] scale_u32 [of "take_bit 6 (drop_bit 5 ?x)" 4] scale_u32 [of "take_bit 5 ?x" 8]
    unfolding f by simp_all
  then show ?thesis
    by (simp only: channels_def rgb565_semi_def channels565_def Let_def fields565 prod.case)
qed

lemma channels_8888: "channels (argb8888 px) = channels8888 px"
  using uint_field [of 8 16 px] uint_field [of 8 8 px] uint_field [of 8 0 px]
  by (simp add: channels_def argb8888_def channels8888_def Let_def fields8888)


section \<open>The scan of a frame\<close>

text \<open>
  The chroma sample \<open>k\<close> is taken from the pixel at an even row and column; \<open>chroma_count\<close>
  counts the chroma samples written when the scan reaches the pixel \<open>(i, j)\<close>.
\<close>

definition chroma_width :: "nat \<Rightarrow> nat" where
  "chroma_width W = (W + 1) div 2"

definition chroma_pos :: "nat \<Rightarrow> nat \<Rightarrow> nat" where
  "chroma_pos W k = 2 * (k div chroma_width W) * W + 2 * (k mod chroma_width W)"

definition chroma_count :: "nat \<Rightarrow> nat \<Rightarrow> nat \<Rightarrow> nat" where
  "chroma_count W j i = (if even j then j div 2 * chroma_width W + (i + 1) div 2 else (j div 2 + 1) * chroma_width W)"

lemma chroma_count_next:
  "chroma_count W j (Suc i) = chroma_count W j i + (if even j \<and> even i then 1 else 0)"
  by (auto simp: chroma_count_def elim!: evenE oddE)

lemma chroma_count_row: "chroma_count W (Suc j) 0 = chroma_count W j W"
  by (auto simp: chroma_count_def chroma_width_def elim!: evenE oddE)

lemma chroma_count_0: "chroma_count W H 0 = (H + 1) div 2 * chroma_width W"
  by (auto simp: chroma_count_def elim!: evenE oddE)

lemma chroma_count_pos:
  assumes "even j" "even i" "i < W"
  shows "chroma_pos W (chroma_count W j i) = j * W + i"
proof -
  obtain a b where ab: "j = 2 * a" "i = 2 * b" using assms(1,2) by (auto elim!: evenE)
  have "b < chroma_width W" using assms(3) ab by (auto simp: chroma_width_def)
  moreover have "chroma_count W j i = a * chroma_width W + b" by (simp add: chroma_count_def ab)
  ultimately show ?thesis by (simp add: chroma_pos_def ab)
qed

lemma chroma_count_small:
  assumes "j < H" "i < W" "H < 65536" "W < 65536"
  shows "chroma_count W j i < 2147483648"
proof -
  have "j div 2 \<le> 32767" "chroma_width W \<le> 32768" "(i + 1) div 2 \<le> chroma_width W"
    using assms by (auto simp: chroma_width_def)
  moreover then have "j div 2 * chroma_width W \<le> 32767 * 32768" by (intro mult_le_mono)
  ultimately show ?thesis by (auto simp: chroma_count_def)
qed

lemma scan_frame:
  assumes size: "W < 65536" "H < 65536" and start: "Q 0 0 s"
    and both: "\<And>j i m s. j < H \<Longrightarrow> i < W \<Longrightarrow> even j \<Longrightarrow> even i \<Longrightarrow> chroma_pos W m = j * W + i \<Longrightarrow> m < 2147483648 \<Longrightarrow>
        Q (j * W + i) m s \<Longrightarrow> \<exists>s'. body (of_nat j) (of_nat i) s = Some s' \<and> Q (Suc (j * W + i)) (Suc m) s'"
    and luma: "\<And>j i m s. j < H \<Longrightarrow> i < W \<Longrightarrow> \<not> (even j \<and> even i) \<Longrightarrow>
        Q (j * W + i) m s \<Longrightarrow> \<exists>s'. body (of_nat j) (of_nat i) s = Some s' \<and> Q (Suc (j * W + i)) m s'"
  shows "\<exists>s'. for_lt 1 (of_nat H) (\<lambda>j. for_lt 1 (of_nat W) (body j) 0) 0 s = Some s' \<and>
              Q (H * W) ((H + 1) div 2 * chroma_width W) s'"
proof -
  let ?P = "\<lambda>j s. j \<le> H \<and> Q (j * W) (chroma_count W j 0) s"
  have row: "\<exists>s'. for_lt 1 (of_nat W) (body (of_nat j)) 0 s = Some s' \<and> ?P (j + 1) s'"
    if P: "?P j s" and j: "j < H" for j s
  proof -
    let ?R = "\<lambda>i s. i \<le> W \<and> Q (j * W + i) (chroma_count W j i) s"
    have "\<exists>n s'. for_lt (of_nat 1) (of_nat W) (body (of_nat j)) (of_nat 0) s = Some s' \<and> ?R n s' \<and> W \<le> n \<and> n < 4294967296"
    proof (rule for_lt_inv [where P = ?R])
      show "?R 0 s" using P by simp
      fix i s assume R: "?R i s" and i: "i < W"
      show "\<exists>s'. body (of_nat j) (of_nat i) s = Some s' \<and> ?R (i + 1) s'"
        using R i both [OF j i _ _ chroma_count_pos chroma_count_small [OF j i size(2,1)]] luma [OF j i]
        by (cases "even j \<and> even i") (auto simp: chroma_count_next)
    qed (use size in auto)
    then show ?thesis using j by (auto simp: chroma_count_row add.commute)
  qed
  have "\<exists>n s'. for_lt (of_nat 1) (of_nat H) (\<lambda>j. for_lt 1 (of_nat W) (body j) 0) (of_nat 0) s = Some s' \<and> ?P n s' \<and>
      H \<le> n \<and> n < 4294967296"
    by (rule for_lt_inv [where P = ?P]) (use start row size in \<open>auto simp: chroma_count_def\<close>)
  then show ?thesis by (auto simp: chroma_count_0 dest!: le_antisym)
qed


text \<open>The planes after \<open>n\<close> luma samples or \<open>n\<close> chroma samples.\<close>

definition luma_plane :: "(nat \<Rightarrow> rgb) \<Rightarrow> plane \<Rightarrow> nat \<Rightarrow> plane" where
  "luma_plane pSrc y n = (\<lambda>a. if a < n then luma (pSrc a) else y a)"

definition chroma_plane :: "(rgb \<Rightarrow> u8) \<Rightarrow> (nat \<Rightarrow> rgb) \<Rightarrow> nat \<Rightarrow> plane \<Rightarrow> nat \<Rightarrow> plane" where
  "chroma_plane c pSrc W u n = (\<lambda>a. if a < n then c (pSrc (chroma_pos W a)) else u a)"

definition uv_plane :: "(nat \<Rightarrow> rgb) \<Rightarrow> nat \<Rightarrow> plane \<Rightarrow> nat \<Rightarrow> plane" where
  "uv_plane pSrc W uv n = (\<lambda>a. if a < 2 * n
     then (if even a then chroma_u else chroma_v) (pSrc (chroma_pos W (a div 2))) else uv a)"

lemma plane_next:
  "luma_plane pSrc y (Suc n) = (luma_plane pSrc y n)(n := luma (pSrc n))"
  "chroma_plane c pSrc W u (Suc n) = (chroma_plane c pSrc W u n)(n := c (pSrc (chroma_pos W n)))"
  "uv_plane pSrc W uv (Suc n) = (uv_plane pSrc W uv n)(2 * n := chroma_u (pSrc (chroma_pos W n)),
     Suc (2 * n) := chroma_v (pSrc (chroma_pos W n)))"
  by (auto simp: luma_plane_def chroma_plane_def uv_plane_def fun_eq_iff less_Suc_eq)

lemma plane_0: "luma_plane pSrc y 0 = y" "chroma_plane c pSrc W u 0 = u" "uv_plane pSrc W uv 0 = uv"
  by (simp_all add: luma_plane_def chroma_plane_def uv_plane_def)

lemma even_u32: "n < 4294967296 \<Longrightarrow> (of_nat n :: u32) mod 2 = 0 \<longleftrightarrow> even n"
  by (simp add: word_unat_eq_iff unat_mod unat_of_nat even_iff_mod_2_eq_zero)

lemma pixel_index:
  fixes j i :: nat
  assumes "j < H" "i < W" "H < 65536" "W < 65536"
  shows "j * W + i < 4294967296"
proof -
  have "j \<le> 65534" "W \<le> 65535" using assms by auto
  then have "j * W \<le> 65534 * 65535" by (intro mult_le_mono)
  then show ?thesis using assms by simp
qed

lemma pixel_word:
  fixes j i :: nat
  assumes "j < H" "i < W" "H < 65536" "W < 65536"
  shows "unat (of_nat j * of_nat W + of_nat i :: u32) = j * W + i"
  using unat_u32 [OF pixel_index [OF assms]] by simp

lemma planar_frame_done:
  assumes size: "W < 65536" "H < 65536"
  defines "n \<equiv> H * W" and "m \<equiv> (H + 1) div 2 * chroma_width W"
  shows "planar_frame pSrc y u v (of_nat W) (of_nat H) =
    Some (luma_plane pSrc y n, chroma_plane chroma_u pSrc W u m, chroma_plane chroma_v pSrc W v m)"
proof -
  define Q where "Q = (\<lambda>n m s. s = \<lparr>y_dst = luma_plane pSrc y n, u_dst = chroma_plane chroma_u pSrc W u m,
    v_dst = chroma_plane chroma_v pSrc W v m, yIndex = of_nat n, uIndex = of_nat m, vIndex = of_nat m\<rparr>)"
  have "\<exists>s'. for_lt 1 (of_nat H) (\<lambda>j. for_lt 1 (of_nat W) (planar_pixel pSrc (of_nat W) j) 0) 0
      \<lparr>y_dst = y, u_dst = u, v_dst = v, yIndex = 0, uIndex = 0, vIndex = 0\<rparr> = Some s' \<and> Q n m s'"
    unfolding n_def m_def
  proof (rule scan_frame [OF size])
    show "Q 0 0 \<lparr>y_dst = y, u_dst = u, v_dst = v, yIndex = 0, uIndex = 0, vIndex = 0\<rparr>" by (simp add: Q_def plane_0)
  next
    fix j i m s assume a: "j < H" "i < W" "even j" "even i" "chroma_pos W m = j * W + i" "m < 2147483648" "Q (j * W + i) m s"
    show "\<exists>s'. planar_pixel pSrc (of_nat W) (of_nat j) (of_nat i) s = Some s' \<and> Q (Suc (j * W + i)) (Suc m) s'"
      using a size pixel_word [OF a(1,2) size(2,1)]
      by (simp add: Q_def planar_pixel_def Let_def even_u32 unat_u32 plane_next add.commute)
  next
    fix j i m s assume a: "j < H" "i < W" "\<not> (even j \<and> even i)" "Q (j * W + i) m s"
    show "\<exists>s'. planar_pixel pSrc (of_nat W) (of_nat j) (of_nat i) s = Some s' \<and> Q (Suc (j * W + i)) m s'"
      using a size pixel_word [OF a(1,2) size(2,1)]
      by (auto simp add: Q_def planar_pixel_def Let_def even_u32 plane_next add.commute)
  qed
  then show ?thesis by (auto simp: planar_frame_def Q_def)
qed

lemma semi_frame_done:
  assumes size: "W < 65536" "H < 65536"
  defines "n \<equiv> H * W" and "m \<equiv> (H + 1) div 2 * chroma_width W"
  shows "semi_frame pSrc y uv (of_nat W) (of_nat H) = Some (luma_plane pSrc y n, uv_plane pSrc W uv m)"
proof -
  define Q where "Q = (\<lambda>n m s. s = \<lparr>sy_dst = luma_plane pSrc y n, uv_dst = uv_plane pSrc W uv m,
    syIndex = of_nat n, uvIndex = of_nat (2 * m)\<rparr>)"
  have "\<exists>s'. for_lt 1 (of_nat H) (\<lambda>j. for_lt 1 (of_nat W) (semi_pixel pSrc (of_nat W) j) 0) 0
      \<lparr>sy_dst = y, uv_dst = uv, syIndex = 0, uvIndex = 0\<rparr> = Some s' \<and> Q n m s'"
    unfolding n_def m_def
  proof (rule scan_frame [OF size])
    show "Q 0 0 \<lparr>sy_dst = y, uv_dst = uv, syIndex = 0, uvIndex = 0\<rparr>" by (simp add: Q_def plane_0)
  next
    fix j i m s assume a: "j < H" "i < W" "even j" "even i" "chroma_pos W m = j * W + i" "m < 2147483648" "Q (j * W + i) m s"
    have uv: "unat (of_nat (2 * m) :: u32) = 2 * m" "unat (of_nat (2 * m) + 1 :: u32) = Suc (2 * m)"
      using a(6) unat_u32 [of "2 * m"] unat_u32 [of "Suc (2 * m)"] by (simp_all add: add.commute)
    show "\<exists>s'. semi_pixel pSrc (of_nat W) (of_nat j) (of_nat i) s = Some s' \<and> Q (Suc (j * W + i)) (Suc m) s'"
      using a size pixel_word [OF a(1,2) size(2,1)] uv
      by (simp add: Q_def semi_pixel_def Let_def even_u32 plane_next add.commute)
  next
    fix j i m s assume a: "j < H" "i < W" "\<not> (even j \<and> even i)" "Q (j * W + i) m s"
    show "\<exists>s'. semi_pixel pSrc (of_nat W) (of_nat j) (of_nat i) s = Some s' \<and> Q (Suc (j * W + i)) m s'"
      using a size pixel_word [OF a(1,2) size(2,1)]
      by (auto simp add: Q_def semi_pixel_def Let_def even_u32 plane_next add.commute)
  qed
  then show ?thesis by (auto simp: semi_frame_def Q_def)
qed

section \<open>Correctness\<close>

text \<open>The samples of a pixel with the channels \<open>(r, g, b)\<close>, by the formulas on integers.\<close>

definition Y_of :: "int \<times> int \<times> int \<Rightarrow> int" where
  "Y_of = (\<lambda>(r, g, b). (66 * r + 129 * g + 25 * b + 128) div 256 + 16)"

definition U_of :: "int \<times> int \<times> int \<Rightarrow> int" where
  "U_of = (\<lambda>(r, g, b). (- 38 * r - 74 * g + 112 * b + 128) div 256 + 128)"

definition V_of :: "int \<times> int \<times> int \<Rightarrow> int" where
  "V_of = (\<lambda>(r, g, b). (112 * r - 94 * g - 18 * b + 128) div 256 + 128)"

text \<open>
  The planar image \<open>(y', u', v')\<close> and the semi-planar image \<open>(y', uv')\<close> hold the pixels
  \<open>px\<close>, and nothing outside the image has changed.
\<close>

definition luma_image :: "(nat \<Rightarrow> int \<times> int \<times> int) \<Rightarrow> nat \<Rightarrow> plane \<Rightarrow> plane \<Rightarrow> bool" where
  "luma_image px n y y' \<longleftrightarrow> (\<forall>a. if a < n then uint (y' a) = Y_of (px a) \<and> uint (y' a) \<in> {16..235} else y' a = y a)"

definition chroma_image :: "(nat \<Rightarrow> int \<times> int \<times> int) \<Rightarrow> nat \<Rightarrow> nat \<Rightarrow> plane \<times> plane \<times> plane \<Rightarrow> plane \<times> plane \<times> plane \<Rightarrow> bool" where
  "chroma_image px W n = (\<lambda>(u, v, uv) (u', v', uv'). \<forall>a. if a < n
     then uint (u' a) = U_of (px (chroma_pos W a)) \<and> uint (u' a) \<in> {16..240} \<and>
          uint (v' a) = V_of (px (chroma_pos W a)) \<and> uint (v' a) \<in> {16..240} \<and>
          uv' (2 * a) = u' a \<and> uv' (2 * a + 1) = v' a
     else u' a = u a \<and> v' a = v a \<and> uv' (2 * a) = uv (2 * a) \<and> uv' (2 * a + 1) = uv (2 * a + 1))"

lemma channels_ok:
  "channels c = channels565 px \<Longrightarrow> rgb_ok c" "channels c = channels8888 px' \<Longrightarrow> rgb_ok c"
proof -
  have "uint px < 65536" using uint_lt2p [of px] by simp
  then have "uint px div 2048 < 32" by linarith
  moreover have "uint px div 32 mod 64 < 64" "uint px mod 32 < 32" by simp_all
  ultimately show "channels c = channels565 px \<Longrightarrow> rgb_ok c"
    by (auto simp: channels_def channels565_def rgb_ok_def Let_def word_less_def split: prod.splits)
  show "channels c = channels8888 px' \<Longrightarrow> rgb_ok c"
    by (auto simp: channels_def channels8888_def rgb_ok_def Let_def word_less_def split: prod.splits)
qed

lemma sample_values:
  assumes "rgb_ok c"
  shows "uint (luma c) = Y_of (channels c)" "Y_of (channels c) \<in> {16..235}"
    "uint (chroma_u c) = U_of (channels c)" "U_of (channels c) \<in> {16..240}"
    "uint (chroma_v c) = V_of (channels c)" "V_of (channels c) \<in> {16..240}"
proof -
  obtain R G B where c: "c = (R, G, B)" by (cases c)
  note s = rgb_ok_samples [OF assms [unfolded c]]
  show "uint (luma c) = Y_of (channels c)" "uint (chroma_u c) = U_of (channels c)" "uint (chroma_v c) = V_of (channels c)"
    unfolding c s by (simp_all add: Y_of_def U_of_def V_of_def channels_def)
  then show "Y_of (channels c) \<in> {16..235}" "U_of (channels c) \<in> {16..240}" "V_of (channels c) \<in> {16..240}"
    using s(4-9) by (simp_all add: c)
qed

lemma frame_images:
  assumes "\<And>k. rgb_ok (pSrc k)"
  shows "luma_image (\<lambda>k. channels (pSrc k)) n y (luma_plane pSrc y n)"
    "chroma_image (\<lambda>k. channels (pSrc k)) W m (u, v, uv)
       (chroma_plane chroma_u pSrc W u m, chroma_plane chroma_v pSrc W v m, uv_plane pSrc W uv m)"
  using sample_values [OF assms]
  by (simp_all add: luma_image_def chroma_image_def luma_plane_def chroma_plane_def uv_plane_def)

lemma conversions:
  assumes "W < 65536" "H < 65536" "\<And>k. rgb_ok (pSrc k)"
  shows "\<exists>y' u' v' uv'. planar_frame pSrc y u v (of_nat W) (of_nat H) = Some (y', u', v') \<and>
      semi_frame pSrc y uv (of_nat W) (of_nat H) = Some (y', uv') \<and>
      luma_image (\<lambda>k. channels (pSrc k)) (H * W) y y' \<and>
      chroma_image (\<lambda>k. channels (pSrc k)) W ((H + 1) div 2 * ((W + 1) div 2)) (u, v, uv) (u', v', uv')"
  using planar_frame_done [OF assms(1,2)] semi_frame_done [OF assms(1,2)] frame_images [of pSrc, OF assms(3)]
  unfolding chroma_width_def by blast

text \<open>C35. The conversions from RGB are exact. For a frame of less than 65536 by 65536 pixels the
  planar and the semi-planar conversion return; their luma plane holds, for every pixel, the
  luma formula on integers applied to the pixel's channels, their chroma planes hold the chroma
  formulas for the pixels at even rows and columns, in order, the interleaved plane holds the
  same samples as the two planar ones, the samples stay within 16..235 and 16..240, and no
  byte outside the image changes. The unsigned wrap-around of the negative coefficients never
  shows, and the two ways of splitting an RGB565 pixel agree.\<close>

theorem rgb_to_yuv420_exact:
  assumes "W < 65536" "H < 65536"
  shows "(\<exists>y' u' v' uv'.
      csc_RGB565_to_YUV420P y u v src565 (of_nat W) (of_nat H) = Some (y', u', v') \<and>
      csc_RGB565_to_YUV420SP y uv src565 (of_nat W) (of_nat H) = Some (y', uv') \<and>
      luma_image (\<lambda>k. channels565 (src565 k)) (H * W) y y' \<and>
      chroma_image (\<lambda>k. channels565 (src565 k)) W ((H + 1) div 2 * ((W + 1) div 2)) (u, v, uv) (u', v', uv')) \<and>
    (\<exists>y' u' v' uv'.
      csc_ARGB8888_to_YUV420P y u v src8888 (of_nat W) (of_nat H) = Some (y', u', v') \<and>
      csc_ARGB8888_to_YUV420SP y uv src8888 (of_nat W) (of_nat H) = Some (y', uv') \<and>
      luma_image (\<lambda>k. channels8888 (src8888 k)) (H * W) y y' \<and>
      chroma_image (\<lambda>k. channels8888 (src8888 k)) W ((H + 1) div 2 * ((W + 1) div 2)) (u, v, uv) (u', v', uv'))"
proof
  note defs = csc_RGB565_to_YUV420P_def csc_RGB565_to_YUV420SP_def csc_ARGB8888_to_YUV420P_def csc_ARGB8888_to_YUV420SP_def
  show "\<exists>y' u' v' uv'.
      csc_RGB565_to_YUV420P y u v src565 (of_nat W) (of_nat H) = Some (y', u', v') \<and>
      csc_RGB565_to_YUV420SP y uv src565 (of_nat W) (of_nat H) = Some (y', uv') \<and>
      luma_image (\<lambda>k. channels565 (src565 k)) (H * W) y y' \<and>
      chroma_image (\<lambda>k. channels565 (src565 k)) W ((H + 1) div 2 * ((W + 1) div 2)) (u, v, uv) (u', v', uv')"
    using conversions [OF assms, of "\<lambda>k. rgb565_semi (src565 k)", OF channels_ok(1) [OF channels_565], of y u v uv]
    unfolding defs rgb565_same channels_565 .
  show "\<exists>y' u' v' uv'.
      csc_ARGB8888_to_YUV420P y u v src8888 (of_nat W) (of_nat H) = Some (y', u', v') \<and>
      csc_ARGB8888_to_YUV420SP y uv src8888 (of_nat W) (of_nat H) = Some (y', uv') \<and>
      luma_image (\<lambda>k. channels8888 (src8888 k)) (H * W) y y' \<and>
      chroma_image (\<lambda>k. channels8888 (src8888 k)) W ((H + 1) div 2 * ((W + 1) div 2)) (u, v, uv) (u', v', uv')"
    using conversions [OF assms, of "\<lambda>k. argb8888 (src8888 k)", OF channels_ok(2) [OF channels_8888], of y u v uv]
    unfolding defs channels_8888 .
qed

text \<open>A white and a black pixel above a green and a red one: one chroma sample, of the white pixel.\<close>

definition sample_pixels :: "nat \<Rightarrow> u32" where
  "sample_pixels k = [0xFFFFFF, 0, 0xFF00, 0xFF0000] ! k"

theorem rgb_to_yuv420_exact_witness:
  "\<exists>y' u' v'. csc_ARGB8888_to_YUV420P (\<lambda>_. 0) (\<lambda>_. 0) (\<lambda>_. 0) sample_pixels 2 2 = Some (y', u', v') \<and>
     map (\<lambda>a. uint (y' a)) [0, 1, 2, 3, 4] = [235, 16, 144, 82, 0] \<and> map (\<lambda>a. uint (u' a)) [0, 1] = [128, 0]"
proof -
  obtain y' u' v' uv' where c: "csc_ARGB8888_to_YUV420P (\<lambda>_. 0) (\<lambda>_. 0) (\<lambda>_. 0) sample_pixels 2 2 = Some (y', u', v')"
    and y: "luma_image (\<lambda>k. channels8888 (sample_pixels k)) 4 (\<lambda>_. 0) y'"
    and u: "chroma_image (\<lambda>k. channels8888 (sample_pixels k)) 2 1 (\<lambda>_. 0, \<lambda>_. 0, \<lambda>_. 0) (u', v', uv')"
    using rgb_to_yuv420_exact [of 2 2 "\<lambda>_. 0" "\<lambda>_. 0" "\<lambda>_. 0" "\<lambda>_. 0" "\<lambda>_. 0" sample_pixels] by auto
  note ys = y [unfolded luma_image_def, rule_format]
  note us = u [unfolded chroma_image_def, simplified, rule_format]
  have "map (\<lambda>a. uint (y' a)) [0, 1, 2, 3, 4] = [235, 16, 144, 82, 0]"
    using ys [of 0] ys [of 1] ys [of 2] ys [of 3] ys [of 4]
    by (simp add: channels8888_def sample_pixels_def Y_of_def Let_def)
  moreover have "map (\<lambda>a. uint (u' a)) [0, 1] = [128, 0]"
    using us [of 0] us [of 1] by (simp add: channels8888_def sample_pixels_def U_of_def chroma_pos_def chroma_width_def Let_def)
  ultimately show ?thesis using c by (intro exI conjI)
qed

end
