(* ===== verification/RIL_Event.thy ===== *)
theory RIL_Event
  imports OMX_Prelude "HOL-Library.Monad_Syntax"
begin

text \<open>
  The event loop of the radio interface layer (\<open>ril/libril/ril_event.cpp\<close>): a table of at
  most eight watched file descriptors, a list of timers sorted by deadline and a list of
  pending events, the two lists circular, doubly linked and headed by a static node.

  The nodes live in a memory that maps references to \<open>struct ril_event\<close> values; following
  a NULL or unknown reference gives \<open>None\<close>. Every entry point holds the list mutex for its
  whole body, so it is one step. The clock reading, what \<open>select\<close> returns and the event
  callbacks are arguments.
\<close>

named_theorems ril_rules \<open>effect of the list operations on links and on event data\<close>

section \<open>Data\<close>

datatype ev_ref = Timer_list | Pending_list | Ev nat

record timeval =
  tv_sec :: int
  tv_usec :: int

record ril_event =
  ev_next :: "ev_ref option"
  ev_prev :: "ev_ref option"
  ev_fd :: int
  ev_index :: int
  ev_persist :: bool
  ev_timeout :: timeval
  ev_func :: nat
  ev_param :: nat

record ril_world =
  mem :: "ev_ref \<Rightarrow> ril_event option"
  watch_table :: "ev_ref option list"
  readFds :: "int set"
  nfds :: int
  fired :: "(nat \<times> int \<times> nat) list"

definition MAX_FD_EVENTS :: nat where "MAX_FD_EVENTS = 8"

section \<open>Time values\<close>

definition timeradd :: "timeval \<Rightarrow> timeval \<Rightarrow> timeval" where
  "timeradd tvp uvp =
    (let sec = tv_sec tvp + tv_sec uvp; usec = tv_usec tvp + tv_usec uvp
     in if usec \<ge> 1000000 then \<lparr>tv_sec = sec + 1, tv_usec = usec - 1000000\<rparr>
        else \<lparr>tv_sec = sec, tv_usec = usec\<rparr>)"

definition timercmp :: "timeval \<Rightarrow> timeval \<Rightarrow> (int \<Rightarrow> int \<Rightarrow> bool) \<Rightarrow> bool" where
  "timercmp a b op = (if tv_sec a = tv_sec b then op (tv_usec a) (tv_usec b) else op (tv_sec a) (tv_sec b))"

definition timersub :: "timeval \<Rightarrow> timeval \<Rightarrow> timeval" where
  "timersub a b =
    (let sec = tv_sec a - tv_sec b; usec = tv_usec a - tv_usec b
     in if usec < 0 then \<lparr>tv_sec = sec - 1, tv_usec = usec + 1000000\<rparr>
        else \<lparr>tv_sec = sec, tv_usec = usec\<rparr>)"

section \<open>Memory access\<close>

definition deref :: "ev_ref option \<Rightarrow> ril_world \<Rightarrow> ril_event option" where
  "deref p w = Option.bind p (mem w)"

definition store :: "ev_ref option \<Rightarrow> (ril_event \<Rightarrow> ril_event) \<Rightarrow> ril_world \<Rightarrow> ril_world option" where
  "store p f w = (case p of None \<Rightarrow> None | Some a \<Rightarrow>
    (case mem w a of None \<Rightarrow> None | Some e \<Rightarrow> Some (w\<lparr>mem := (mem w)(a \<mapsto> f e)\<rparr>)))"

definition zero_event :: ril_event where
  "zero_event = \<lparr>ev_next = None, ev_prev = None, ev_fd = 0, ev_index = 0, ev_persist = False,
     ev_timeout = \<lparr>tv_sec = 0, tv_usec = 0\<rparr>, ev_func = 0, ev_param = 0\<rparr>"

section \<open>Lists\<close>

definition init_list :: "ev_ref \<Rightarrow> ril_world \<Rightarrow> ril_world option" where
  "init_list list w = do {
     w \<leftarrow> store (Some list) (\<lambda>_. zero_event) w;
     w \<leftarrow> store (Some list) (ev_next_update (\<lambda>_. Some list)) w;
     w \<leftarrow> store (Some list) (ev_prev_update (\<lambda>_. Some list)) w;
     store (Some list) (ev_fd_update (\<lambda>_. -1)) w }"

definition addToList :: "ev_ref \<Rightarrow> ev_ref \<Rightarrow> ril_world \<Rightarrow> ril_world option" where
  "addToList ev list w = do {
     w \<leftarrow> store (Some ev) (ev_next_update (\<lambda>_. Some list)) w;
     l \<leftarrow> deref (Some list) w;
     w \<leftarrow> store (Some ev) (ev_prev_update (\<lambda>_. ev_prev l)) w;
     e \<leftarrow> deref (Some ev) w;
     w \<leftarrow> store (ev_prev e) (ev_next_update (\<lambda>_. Some ev)) w;
     store (Some list) (ev_prev_update (\<lambda>_. Some ev)) w }"

definition removeFromList :: "ev_ref \<Rightarrow> ril_world \<Rightarrow> ril_world option" where
  "removeFromList ev w = do {
     e \<leftarrow> deref (Some ev) w;
     w \<leftarrow> store (ev_next e) (ev_prev_update (\<lambda>_. ev_prev e)) w;
     e \<leftarrow> deref (Some ev) w;
     w \<leftarrow> store (ev_prev e) (ev_next_update (\<lambda>_. ev_next e)) w;
     w \<leftarrow> store (Some ev) (ev_next_update (\<lambda>_. None)) w;
     store (Some ev) (ev_prev_update (\<lambda>_. None)) w }"

section \<open>Watched descriptors\<close>

text \<open>The loop of \<open>removeWatch\<close> that looks for the largest watched descriptor.\<close>

fun max_fd :: "ril_world \<Rightarrow> ev_ref option list \<Rightarrow> int \<Rightarrow> int option" where
  "max_fd w [] n = Some n"
| "max_fd w (None # t) n = max_fd w t n"
| "max_fd w (Some rv # t) n = do {
     r \<leftarrow> mem w rv;
     max_fd w t (if ev_fd r > n then ev_fd r else n) }"

definition removeWatch :: "ev_ref \<Rightarrow> int \<Rightarrow> ril_world \<Rightarrow> ril_world option" where
  "removeWatch ev index w =
    (if index < 0 \<or> int (length (watch_table w)) \<le> index then None else do {
     let w = w\<lparr>watch_table := (watch_table w)[nat index := None]\<rparr>;
     w \<leftarrow> store (Some ev) (ev_index_update (\<lambda>_. -1)) w;
     e \<leftarrow> deref (Some ev) w;
     let w = w\<lparr>readFds := readFds w - {ev_fd e}\<rparr>;
     if ev_fd e + 1 = nfds w then do {
       n \<leftarrow> max_fd w (watch_table w) 0;
       Some (w\<lparr>nfds := n + 1\<rparr>) }
     else Some w })"

section \<open>One round of the loop\<close>

text \<open>The loop of \<open>processTimeouts\<close>.\<close>

partial_function (option) expire :: "timeval \<Rightarrow> ev_ref option \<Rightarrow> ril_world \<Rightarrow> ril_world option" where
  "expire now tev w =
    (if tev = Some Timer_list then Some w
     else Option.bind (deref tev w) (\<lambda>e.
       if timercmp now (ev_timeout e) (>)
       then Option.bind (removeFromList (the tev) w) (\<lambda>w.
            Option.bind (addToList (the tev) Pending_list w) (\<lambda>w.
            expire now (ev_next e) w))
       else Some w))"

definition processTimeouts :: "timeval \<Rightarrow> ril_world \<Rightarrow> ril_world option" where
  "processTimeouts now w = do { l \<leftarrow> deref (Some Timer_list) w; expire now (ev_next l) w }"

text \<open>The loop of \<open>processReadReadies\<close> from the slot \<open>i\<close>, with \<open>fuel\<close> slots to go.\<close>

fun readies :: "nat \<Rightarrow> nat \<Rightarrow> int set \<Rightarrow> int \<Rightarrow> ril_world \<Rightarrow> ril_world option" where
  "readies 0 i rfds n w = Some w"
| "readies (Suc k) i rfds n w =
    (if n > 0 then
       (case watch_table w ! i of
          None \<Rightarrow> readies k (Suc i) rfds n w
        | Some rv \<Rightarrow> do {
            r \<leftarrow> mem w rv;
            if ev_fd r \<in> rfds then do {
              w \<leftarrow> addToList rv Pending_list w;
              w \<leftarrow> (if ev_persist r = False then removeWatch rv (int i) w else Some w);
              readies k (Suc i) rfds (n - 1) w }
            else readies k (Suc i) rfds n w })
     else Some w)"

definition processReadReadies :: "int set \<Rightarrow> int \<Rightarrow> ril_world \<Rightarrow> ril_world option" where
  "processReadReadies rfds n w = readies MAX_FD_EVENTS 0 rfds n w"

text \<open>
  A callback receives the descriptor and the parameter and may change the event lists. The
  calls made are recorded in \<open>fired\<close>.
\<close>

type_synonym callback = "nat \<Rightarrow> int \<Rightarrow> nat \<Rightarrow> ril_world \<Rightarrow> ril_world option"

partial_function (option) fire :: "callback \<Rightarrow> ev_ref option \<Rightarrow> ril_world \<Rightarrow> ril_world option" where
  "fire cb ev w =
    (if ev = Some Pending_list then Some w
     else Option.bind (deref ev w) (\<lambda>e.
       Option.bind (removeFromList (the ev) w) (\<lambda>w.
       Option.bind (cb (ev_func e) (ev_fd e) (ev_param e) (w\<lparr>fired := fired w @ [(ev_func e, ev_fd e, ev_param e)]\<rparr>)) (\<lambda>w.
       fire cb (ev_next e) w))))"

definition firePending :: "callback \<Rightarrow> ril_world \<Rightarrow> ril_world option" where
  "firePending cb w = do { l \<leftarrow> deref (Some Pending_list) w; fire cb (ev_next l) w }"

text \<open>\<open>calcNextTimeout\<close>: no value when it returns -1.\<close>

definition calcNextTimeout :: "timeval \<Rightarrow> ril_world \<Rightarrow> timeval option option" where
  "calcNextTimeout now w = do {
     l \<leftarrow> deref (Some Timer_list) w;
     if ev_next l = Some Timer_list then Some None else do {
       tev \<leftarrow> deref (ev_next l) w;
       if timercmp (ev_timeout tev) now (>) then Some (Some (timersub (ev_timeout tev) now))
       else Some (Some \<lparr>tv_sec = 0, tv_usec = 0\<rparr>) } }"

section \<open>Entry points\<close>

definition ril_event_init :: "ril_world \<Rightarrow> ril_world option" where
  "ril_event_init w = do {
     let w = w\<lparr>readFds := {}\<rparr>;
     w \<leftarrow> init_list Timer_list w;
     w \<leftarrow> init_list Pending_list w;
     Some (w\<lparr>watch_table := replicate MAX_FD_EVENTS None\<rparr>) }"

definition ril_event_set :: "ev_ref \<Rightarrow> int \<Rightarrow> bool \<Rightarrow> nat \<Rightarrow> nat \<Rightarrow> ril_world \<Rightarrow> ril_world option" where
  "ril_event_set ev fd persist func param w = do {
     w \<leftarrow> store (Some ev) (\<lambda>_. zero_event) w;
     store (Some ev) (\<lambda>e. e\<lparr>ev_fd := fd, ev_index := -1, ev_persist := persist, ev_func := func, ev_param := param\<rparr>) w }"

text \<open>The loop of \<open>ril_event_add\<close> that looks for a free slot, from the slot \<open>i\<close> on.\<close>

fun free_watch :: "ev_ref option list \<Rightarrow> nat \<Rightarrow> nat option" where
  "free_watch [] i = None"
| "free_watch (None # t) i = Some i"
| "free_watch (Some _ # t) i = free_watch t (Suc i)"

definition ril_event_add :: "ev_ref \<Rightarrow> ril_world \<Rightarrow> ril_world option" where
  "ril_event_add ev w =
    (case free_watch (watch_table w) 0 of
       None \<Rightarrow> Some w
     | Some i \<Rightarrow> do {
         let w = w\<lparr>watch_table := (watch_table w)[i := Some ev]\<rparr>;
         w \<leftarrow> store (Some ev) (ev_index_update (\<lambda>_. int i)) w;
         e \<leftarrow> deref (Some ev) w;
         let w = w\<lparr>readFds := insert (ev_fd e) (readFds w)\<rparr>;
         Some (if ev_fd e \<ge> nfds w then w\<lparr>nfds := ev_fd e + 1\<rparr> else w) })"

text \<open>The loop of \<open>ril_timer_add\<close> that looks for the place of a deadline.\<close>

partial_function (option) timer_place :: "timeval \<Rightarrow> ev_ref option \<Rightarrow> ril_world \<Rightarrow> ev_ref option" where
  "timer_place t list w =
    Option.bind (deref list w) (\<lambda>l.
      if timercmp (ev_timeout l) t (<) \<and> list \<noteq> Some Timer_list then timer_place t (ev_next l) w
      else list)"

definition ril_timer_add :: "timeval \<Rightarrow> ev_ref \<Rightarrow> timeval option \<Rightarrow> ril_world \<Rightarrow> ril_world option" where
  "ril_timer_add now ev tv w =
    (case tv of
       None \<Rightarrow> Some w
     | Some tv \<Rightarrow> do {
         l \<leftarrow> deref (Some Timer_list) w;
         w \<leftarrow> store (Some ev) (ev_fd_update (\<lambda>_. -1)) w;
         w \<leftarrow> store (Some ev) (ev_timeout_update (\<lambda>_. timeradd now tv)) w;
         list \<leftarrow> timer_place (timeradd now tv) (ev_next l) w;
         addToList ev list w })"

definition ril_event_del :: "ev_ref \<Rightarrow> ril_world \<Rightarrow> ril_world option" where
  "ril_event_del ev w = do {
     e \<leftarrow> deref (Some ev) w;
     if ev_index e < 0 \<or> ev_index e \<ge> int MAX_FD_EVENTS then Some w
     else removeWatch ev (ev_index e) w }"

text \<open>
  One round of \<open>ril_event_loop\<close>. \<open>select\<close> receives the number of descriptors, the set to
  watch and the time to wait, and answers the number of ready descriptors with the set of
  them, or a negative number with whether the call was interrupted. The result says whether
  the loop goes on.
\<close>

datatype select_answer = Ready int "int set" | Failed bool

type_synonym selector = "int \<Rightarrow> int set \<Rightarrow> timeval option \<Rightarrow> select_answer"

definition ril_event_round ::
  "selector \<Rightarrow> callback \<Rightarrow> timeval \<Rightarrow> timeval \<Rightarrow> ril_world \<Rightarrow> (bool \<times> ril_world) option" where
  "ril_event_round select cb now now' w = do {
     ptv \<leftarrow> calcNextTimeout now w;
     (case select (nfds w) (readFds w) ptv of
        Failed interrupted \<Rightarrow> Some (interrupted, w)
      | Ready n rfds \<Rightarrow> do {
          w \<leftarrow> processTimeouts now' w;
          w \<leftarrow> processReadReadies rfds n w;
          w \<leftarrow> firePending cb w;
          Some (True, w) }) }"


section \<open>Links and event data\<close>

definition nextof :: "ril_world \<Rightarrow> ev_ref \<Rightarrow> ev_ref option" where
  "nextof w a = Option.bind (mem w a) ev_next"

definition prevof :: "ril_world \<Rightarrow> ev_ref \<Rightarrow> ev_ref option" where
  "prevof w a = Option.bind (mem w a) ev_prev"

text \<open>An event without its links, and all of the world that is not links.\<close>

definition info :: "ril_world \<Rightarrow> ev_ref \<Rightarrow> ril_event option" where
  "info w a = map_option (\<lambda>e. e\<lparr>ev_next := None, ev_prev := None\<rparr>) (mem w a)"

definition statics :: "ril_world \<Rightarrow> ev_ref option list \<times> int set \<times> int \<times> (nat \<times> int \<times> nat) list" where
  "statics w = (watch_table w, readFds w, nfds w, fired w)"

lemma addToList_links:
  assumes "prevof w list = Some p" "mem w p \<noteq> None" "mem w ev \<noteq> None" "ev \<noteq> list" "ev \<noteq> p"
  shows "\<exists>w'. addToList ev list w = Some w' \<and> nextof w' = (nextof w)(ev := Some list, p := Some ev) \<and>
    prevof w' = (prevof w)(ev := Some p, list := Some ev) \<and> info w' = info w \<and> statics w' = statics w"
proof -
  obtain l e q where m: "mem w list = Some l" "mem w ev = Some e" "mem w p = Some q" "ev_prev l = Some p"
    using assms by (auto simp: prevof_def bind_eq_Some_conv)
  show ?thesis using m assms(4,5)
    by (cases "p = list") (auto simp: addToList_def deref_def store_def nextof_def prevof_def info_def statics_def fun_eq_iff)
qed

lemma removeFromList_links:
  assumes "nextof w ev = Some n" "prevof w ev = Some p" "mem w n \<noteq> None" "mem w p \<noteq> None" "n \<noteq> ev" "p \<noteq> ev"
  shows "\<exists>w'. removeFromList ev w = Some w' \<and> nextof w' = (nextof w)(p := Some n, ev := None) \<and>
    prevof w' = (prevof w)(n := Some p, ev := None) \<and> info w' = info w \<and> statics w' = statics w"
proof -
  obtain e a b where m: "mem w ev = Some e" "mem w n = Some a" "mem w p = Some b" "ev_next e = Some n" "ev_prev e = Some p"
    using assms by (auto simp: prevof_def nextof_def bind_eq_Some_conv)
  show ?thesis using m assms(5,6)
    by (cases "p = n") (auto simp: removeFromList_def deref_def store_def nextof_def prevof_def info_def statics_def fun_eq_iff)
qed

section \<open>Circular lists\<close>

fun linked :: "(ev_ref \<Rightarrow> ev_ref option) \<Rightarrow> (ev_ref \<Rightarrow> ev_ref option) \<Rightarrow> ev_ref list \<Rightarrow> bool" where
  "linked n p (a # b # t) = (n a = Some b \<and> p b = Some a \<and> linked n p (b # t))"
| "linked n p _ = True"

definition dlist :: "ril_world \<Rightarrow> ev_ref \<Rightarrow> ev_ref list \<Rightarrow> bool" where
  "dlist w h xs \<longleftrightarrow> distinct (h # xs) \<and> linked (nextof w) (prevof w) (h # xs @ [h])"

lemma linked_append [simp]: "linked n p (xs @ a # b # ys) \<longleftrightarrow> linked n p (xs @ [a]) \<and> n a = Some b \<and> p b = Some a \<and> linked n p (b # ys)"
  by (induction n p xs rule: linked.induct) auto

lemma linked_cong:
  "\<forall>a\<in>set (butlast l). n' a = n a \<Longrightarrow> \<forall>a\<in>set (tl l). p' a = p a \<Longrightarrow> linked n' p' l = linked n p l"
proof (induction n p l rule: linked.induct)
  case (1 n p a b t)
  then show ?case by (cases t) auto
qed auto

lemma linked_same:
  "linked n p l \<Longrightarrow> (\<And>a. a \<in> set (butlast l) \<Longrightarrow> n' a = n a) \<Longrightarrow> (\<And>a. a \<in> set (tl l) \<Longrightarrow> p' a = p a) \<Longrightarrow> linked n' p' l"
  using linked_cong by blast

lemma tl_mem: "a \<in> set (tl l) \<Longrightarrow> a \<in> set l"
  by (cases l) auto

lemma dlist_frame:
  "\<forall>a\<in>set (h # xs). nextof w' a = nextof w a \<and> prevof w' a = prevof w a \<Longrightarrow> dlist w' h xs = dlist w h xs"
  unfolding dlist_def using linked_cong [of "h # xs @ [h]" "nextof w'" "nextof w" "prevof w'" "prevof w"]
  by (auto simp: butlast_append)

lemma dlist_other:
  assumes "\<forall>a. a \<notin> set X \<longrightarrow> nextof w' a = nextof w a \<and> prevof w' a = prevof w a"
    and "dlist w h xs" "set (h # xs) \<inter> set X = {}"
  shows "dlist w' h xs"
  using assms dlist_frame [of h xs w' w] by blast

lemma linked_mem: "linked (nextof w) (prevof w) (xs @ [b]) \<Longrightarrow> a \<in> set xs \<Longrightarrow> mem w a \<noteq> None"
proof (induction xs)
  case (Cons c xs)
  then show ?case by (cases xs) (auto simp: nextof_def bind_eq_Some_conv)
qed simp

lemma dlist_mem: "dlist w h xs \<Longrightarrow> a \<in> set (h # xs) \<Longrightarrow> mem w a \<noteq> None"
  unfolding dlist_def using linked_mem [of w "h # xs" h a] by simp

lemma dlist_first: "dlist w h xs \<Longrightarrow> nextof w h = Some (hd (xs @ [h]))"
  by (cases xs) (auto simp: dlist_def)

lemma dlist_after: "dlist w h (xs @ a # ys) \<Longrightarrow> nextof w a = Some (hd (ys @ [h]))"
  unfolding dlist_def using linked_append [of "nextof w" "prevof w" "h # xs" a "hd (ys @ [h])" "tl (ys @ [h])"]
  by (cases ys) auto

text \<open>The place between two neighbours of a list.\<close>

lemma dlist_split:
  assumes "dlist w h (xs @ ys)"
  obtains A p b B where "h # xs = A @ [p]" "ys @ [h] = b # B" "linked (nextof w) (prevof w) (A @ [p])"
    "linked (nextof w) (prevof w) (b # B)" "nextof w p = Some b" "prevof w b = Some p" "b = hd (ys @ [h])"
proof -
  obtain A p where A: "h # xs = A @ [p]" by (metis append_butlast_last_id list.distinct(1))
  obtain b B where B: "ys @ [h] = b # B" by (cases "ys @ [h]") auto
  have "linked (nextof w) (prevof w) ((h # xs) @ (ys @ [h]))" using assms by (simp add: dlist_def)
  then have "linked (nextof w) (prevof w) (A @ p # b # B)" unfolding A B by simp
  moreover have "b = hd (ys @ [h])" unfolding B by simp
  ultimately show ?thesis by (intro that [OF A B]) simp_all
qed

lemma dlist_add:
  assumes d: "dlist w h (xs @ ys)" and e: "ev \<notin> set (h # xs @ ys)" "mem w ev \<noteq> None" and b: "b = hd (ys @ [h])"
  shows "\<exists>w'. addToList ev b w = Some w' \<and> dlist w' h (xs @ ev # ys) \<and> info w' = info w \<and> statics w' = statics w \<and>
    (\<forall>a. a \<notin> set (h # ev # xs @ ys) \<longrightarrow> nextof w' a = nextof w a \<and> prevof w' a = prevof w a)"
proof -
  obtain A p B where s: "h # xs = A @ [p]" "ys @ [h] = b # B" "linked (nextof w) (prevof w) (A @ [p])"
    "linked (nextof w) (prevof w) (b # B)" "nextof w p = Some b" "prevof w b = Some p"
    using dlist_split [OF d] b by metis
  have ins: "p \<in> set (h # xs)" "b \<in> set (ys @ [h])" unfolding s by auto
  then have ne: "ev \<noteq> b" "ev \<noteq> p" "mem w p \<noteq> None" using e(1) dlist_mem [OF d, of p] by auto
  obtain w' where w': "addToList ev b w = Some w'" "nextof w' = (nextof w)(ev := Some b, p := Some ev)"
    "prevof w' = (prevof w)(ev := Some p, b := Some ev)" "info w' = info w" "statics w' = statics w"
    using addToList_links [OF s(6) ne(3) e(2) ne(1,2)] by blast
  have dist: "distinct ((h # xs) @ ys)" "distinct (xs @ ys @ [h])" using d by (auto simp: dlist_def)
  have evA: "ev \<notin> set (A @ [p])" "ev \<notin> set (b # B)" using e(1) unfolding s(1,2) [symmetric] by auto
  have "p \<notin> set A" using dist(1) unfolding s(1) by simp
  moreover have "b \<notin> set (tl (A @ [p]))" using dist(2) ins(2) unfolding s(1) [symmetric] by auto
  ultimately have l1: "linked (nextof w') (prevof w') (A @ [p])"
    using evA(1) by (intro linked_same [OF s(3)]) (auto simp: w' dest: tl_mem)
  have "p \<notin> set (butlast (b # B))" using dist(1) ins(1) unfolding s(2) [symmetric] by auto
  moreover have "b \<notin> set B" using dist(2) unfolding s(2) by simp
  ultimately have l2: "linked (nextof w') (prevof w') (b # B)"
    using evA(2) by (intro linked_same [OF s(4)]) (auto simp: w' simp del: butlast.simps dest: in_set_butlastD)
  have "linked (nextof w') (prevof w') (A @ p # ev # b # B)" using l1 l2 ne by (simp add: w')
  moreover have "A @ p # ev # b # B = h # (xs @ ev # ys) @ [h]"
  proof -
    have "A @ p # ev # b # B = (A @ [p]) @ ev # (b # B)" by simp
    also have "\<dots> = (h # xs) @ ev # (ys @ [h])" by (simp only: s(1,2))
    finally show ?thesis by simp
  qed
  moreover have "distinct (h # xs @ ev # ys)" using e d by (auto simp: dlist_def)
  ultimately have "dlist w' h (xs @ ev # ys)" by (simp add: dlist_def)
  moreover have "nextof w' a = nextof w a \<and> prevof w' a = prevof w a" if "a \<notin> set (h # ev # xs @ ys)" for a
    using that ins by (auto simp: w')
  ultimately show ?thesis using w' by blast
qed

lemma dlist_remove:
  assumes d: "dlist w h (xs @ ev # ys)"
  shows "\<exists>w'. removeFromList ev w = Some w' \<and> dlist w' h (xs @ ys) \<and> info w' = info w \<and> statics w' = statics w \<and>
    (\<forall>a. a \<notin> set (h # ev # xs @ ys) \<longrightarrow> nextof w' a = nextof w a \<and> prevof w' a = prevof w a)"
proof -
  obtain A p B where s: "h # xs = A @ [p]" "ev # ys @ [h] = ev # B" "linked (nextof w) (prevof w) (A @ [p])"
    "linked (nextof w) (prevof w) (ev # B)" "nextof w p = Some ev" "prevof w ev = Some p"
    using dlist_split [OF d] by (metis append_Cons list.sel(1) list.inject)
  obtain b B' where B: "ys @ [h] = b # B'" by (cases "ys @ [h]") auto
  then have l: "nextof w ev = Some b" "prevof w b = Some ev" "linked (nextof w) (prevof w) (b # B')" using s(2,4) unfolding B by auto
  have dist: "distinct ((h # xs) @ ev # ys)" "distinct (xs @ ev # ys @ [h])" using d by (auto simp: dlist_def)
  have ins: "p \<in> set (h # xs)" "b \<in> set (ys @ [h])" unfolding s(1) B by auto
  then have ne: "b \<noteq> ev" "p \<noteq> ev" "mem w b \<noteq> None" "mem w p \<noteq> None" using dist dlist_mem [OF d] by auto
  obtain w' where w': "removeFromList ev w = Some w'" "nextof w' = (nextof w)(p := Some b, ev := None)"
    "prevof w' = (prevof w)(b := Some p, ev := None)" "info w' = info w" "statics w' = statics w"
    using removeFromList_links [OF l(1) s(6) ne(3,4,1,2)] by blast
  have evA: "ev \<notin> set (A @ [p])" "ev \<notin> set (b # B')" using dist unfolding s(1) [symmetric] B [symmetric] by auto
  have "p \<notin> set A" using dist(1) unfolding s(1) by simp
  moreover have "b \<notin> set (tl (A @ [p]))" using dist(2) ins(2) unfolding s(1) [symmetric] by auto
  ultimately have l1: "linked (nextof w') (prevof w') (A @ [p])"
    using evA(1) by (intro linked_same [OF s(3)]) (auto simp: w' dest: tl_mem)
  have "p \<notin> set (butlast (b # B'))" using dist(1) ins(1) unfolding B [symmetric] by auto
  moreover have "b \<notin> set B'" using dist(2) unfolding B by simp
  ultimately have l2: "linked (nextof w') (prevof w') (b # B')"
    using evA(2) by (intro linked_same [OF l(3)]) (auto simp: w' simp del: butlast.simps dest: in_set_butlastD)
  have "linked (nextof w') (prevof w') (A @ p # b # B')" using l1 l2 ne by (simp add: w')
  moreover have "A @ p # b # B' = h # (xs @ ys) @ [h]"
  proof -
    have "A @ p # b # B' = (A @ [p]) @ (b # B')" by simp
    also have "\<dots> = (h # xs) @ (ys @ [h])" by (simp only: s(1) B)
    finally show ?thesis by simp
  qed
  moreover have "distinct (h # xs @ ys)" using d by (auto simp: dlist_def)
  ultimately have "dlist w' h (xs @ ys)" by (simp add: dlist_def)
  moreover have "nextof w' a = nextof w a \<and> prevof w' a = prevof w a" if "a \<notin> set (h # ev # xs @ ys)" for a
    using that ins by (auto simp: w')
  ultimately show ?thesis using w' by blast
qed


section \<open>Time\<close>

text \<open>A normalised time value is a number of microseconds.\<close>

definition tv_ok :: "timeval \<Rightarrow> bool" where
  "tv_ok t \<longleftrightarrow> 0 \<le> tv_usec t \<and> tv_usec t < 1000000"

definition micros :: "timeval \<Rightarrow> int" where
  "micros t = tv_sec t * 1000000 + tv_usec t"

lemma time_arith:
  assumes "tv_ok a" "tv_ok b"
  shows "timercmp a b (<) \<longleftrightarrow> micros a < micros b" "timercmp a b (>) \<longleftrightarrow> micros b < micros a"
    "micros (timeradd a b) = micros a + micros b" "tv_ok (timeradd a b)"
    "micros (timersub a b) = micros a - micros b" "tv_ok (timersub a b)"
  using assms by (auto simp: tv_ok_def micros_def timercmp_def timeradd_def timersub_def Let_def)

lemma micros_inj: "tv_ok a \<Longrightarrow> tv_ok b \<Longrightarrow> micros a = micros b \<Longrightarrow> a = b"
proof -
  have *: "tv_sec t = micros t div 1000000" "tv_usec t = micros t mod 1000000" if "tv_ok t" for t
    using that by (simp_all add: tv_ok_def micros_def)
  show "tv_ok a \<Longrightarrow> tv_ok b \<Longrightarrow> micros a = micros b \<Longrightarrow> a = b" by (simp add: * timeval.equality)
qed

section \<open>Timers\<close>

definition timeout :: "ril_world \<Rightarrow> ev_ref \<Rightarrow> timeval" where
  "timeout w a = ev_timeout (the (info w a))"

definition deadline :: "ril_world \<Rightarrow> ev_ref \<Rightarrow> int" where
  "deadline w a = micros (timeout w a)"

definition ril_lists :: "ril_world \<Rightarrow> ev_ref list \<Rightarrow> ev_ref list \<Rightarrow> bool" where
  "ril_lists w ts ps \<longleftrightarrow> dlist w Timer_list ts \<and> dlist w Pending_list ps \<and> set (Timer_list # ts) \<inter> set (Pending_list # ps) = {}"

definition timers_ok :: "ril_world \<Rightarrow> ev_ref list \<Rightarrow> bool" where
  "timers_ok w ts \<longleftrightarrow> sorted (map (deadline w) ts) \<and> (\<forall>a\<in>set ts. tv_ok (timeout w a))"

lemma timeout_mem: "mem w a = Some e \<Longrightarrow> timeout w a = ev_timeout e"
  by (simp add: timeout_def info_def)

lemma nextof_mem: "nextof w a = Some b \<Longrightarrow> \<exists>e. mem w a = Some e \<and> ev_next e = Some b"
  by (auto simp: nextof_def bind_eq_Some_conv)

lemma info_None: "info w a = None \<longleftrightarrow> mem w a = None"
  by (simp add: info_def)

lemma info_mem: "info w' = info w \<Longrightarrow> mem w' a = None \<longleftrightarrow> mem w a = None"
  by (simp flip: info_None)

lemma info_timers:
  assumes "info w' = info w"
  shows "timeout w' = timeout w" "deadline w' = deadline w" "timers_ok w' = timers_ok w"
proof -
  show t: "timeout w' = timeout w" and d: "deadline w' = deadline w"
    by (simp_all add: fun_eq_iff timeout_def deadline_def assms)
  show "timers_ok w' = timers_ok w" by (rule ext) (simp add: timers_ok_def t d)
qed

lemma timer_place_found:
  assumes "dlist w Timer_list (zs @ ys)" "tv_ok t" "\<forall>a\<in>set ys. tv_ok (timeout w a)"
  shows "timer_place t (Some (hd (ys @ [Timer_list]))) w = Some (hd (dropWhile (\<lambda>a. deadline w a < micros t) ys @ [Timer_list]))"
  using assms
proof (induction ys arbitrary: zs)
  case Nil
  then show ?case using dlist_mem [OF Nil.prems(1), of Timer_list] by (subst timer_place.simps) (auto simp: deref_def)
next
  case (Cons a ys)
  obtain e where e: "mem w a = Some e" "ev_next e = Some (hd (ys @ [Timer_list]))"
    using dlist_after [OF Cons.prems(1)] nextof_mem by blast
  have "a \<noteq> Timer_list" using Cons.prems(1) by (auto simp: dlist_def)
  moreover have "timercmp (ev_timeout e) t (<) \<longleftrightarrow> deadline w a < micros t"
    using time_arith(1) [of "ev_timeout e" t] Cons.prems timeout_mem [OF e(1)] by (simp add: deadline_def)
  moreover have "timer_place t (Some (hd (ys @ [Timer_list]))) w =
      Some (hd (dropWhile (\<lambda>a. deadline w a < micros t) ys @ [Timer_list]))"
    using Cons.IH [of "zs @ [a]"] Cons.prems by simp
  ultimately show ?case using e by (subst timer_place.simps) (auto simp: deref_def)
qed

lemma sorted_place:
  fixes f :: "'a \<Rightarrow> int"
  shows "sorted (map f xs) \<Longrightarrow> sorted (map f (takeWhile (\<lambda>a. f a < f e) xs @ e # dropWhile (\<lambda>a. f a < f e) xs))"
proof (induction xs)
  case (Cons x xs)
  then show ?case by (auto dest: set_takeWhileD set_dropWhileD)
qed simp

lemma timer_stores:
  assumes "mem w ev = Some e"
  shows "\<exists>w'. Option.bind (store (Some ev) (ev_fd_update (\<lambda>_. -1)) w) (store (Some ev) (ev_timeout_update (\<lambda>_. t))) = Some w' \<and>
    nextof w' = nextof w \<and> prevof w' = prevof w \<and> statics w' = statics w \<and>
    info w' = (info w)(ev := map_option (\<lambda>e. e\<lparr>ev_fd := -1, ev_timeout := t\<rparr>) (info w ev))"
  using assms by (auto simp: store_def nextof_def prevof_def info_def statics_def fun_eq_iff)


text \<open>C36. Adding a timer inserts it into the sorted list of timers: if the timer list is sorted by
  deadline and the event is in neither list, \<open>ril_timer_add\<close> returns, the event gets the
  deadline now plus the given time and no file descriptor, it stands behind all timers with
  an earlier deadline and in front of all others, the list is sorted again, the pending list
  and every other event are as before, and a NULL time changes nothing.\<close>

theorem ril_timer_add_sorted_insert:
  assumes l: "ril_lists w ts ps" and ok: "timers_ok w ts" and e: "mem w ev = Some e" "ev \<notin> set (Timer_list # Pending_list # ts @ ps)"
    and t: "tv_ok now" "tv_ok tv"
  shows "ril_timer_add now ev None w = Some w \<and>
    (\<exists>w'. ril_timer_add now ev (Some tv) w = Some w' \<and>
      (let due = micros now + micros tv;
           ts' = takeWhile (\<lambda>a. deadline w a < due) ts @ ev # dropWhile (\<lambda>a. deadline w a < due) ts
       in ril_lists w' ts' ps \<and> timers_ok w' ts' \<and> deadline w' ev = due \<and> ev_fd (the (info w' ev)) = -1 \<and>
          (\<forall>a. a \<noteq> ev \<longrightarrow> info w' a = info w a) \<and> statics w' = statics w))"
proof -
  define t where "t = timeradd now tv"
  define due where "due = micros now + micros tv"
  have tt: "tv_ok t" "micros t = due" using time_arith [OF assms(5,6)] by (simp_all add: t_def due_def)
  obtain w1 where w1: "Option.bind (store (Some ev) (ev_fd_update (\<lambda>_. -1)) w) (store (Some ev) (ev_timeout_update (\<lambda>_. t))) = Some w1"
    "nextof w1 = nextof w" "prevof w1 = prevof w" "statics w1 = statics w"
    "info w1 = (info w)(ev := map_option (\<lambda>e. e\<lparr>ev_fd := -1, ev_timeout := t\<rparr>) (info w ev))"
    using timer_stores [OF e(1)] by blast
  have same: "timeout w1 a = timeout w a" "deadline w1 a = deadline w a" if "a \<noteq> ev" for a
    using that by (simp_all add: timeout_def deadline_def w1)
  have ev: "timeout w1 ev = t" "deadline w1 ev = due" "ev_fd (the (info w1 ev)) = -1"
    using e tt by (simp_all add: timeout_def deadline_def w1 info_def)
  have m1: "mem w1 ev \<noteq> None" using e(1) info_None [of w1 ev] info_None [of w ev] by (simp add: w1(5))
  have l1: "ril_lists w1 ts ps" using l by (simp add: ril_lists_def dlist_def w1)
  have in_ts: "a \<noteq> ev" if "a \<in> set ts" for a using that e(2) by auto
  have tvs: "\<forall>a\<in>set ts. tv_ok (timeout w1 a)" using ok in_ts same(1) by (simp add: timers_ok_def)
  define xs where "xs = takeWhile (\<lambda>a. deadline w a < due) ts"
  define ys where "ys = dropWhile (\<lambda>a. deadline w a < due) ts"
  have xy: "ts = xs @ ys" by (simp add: xs_def ys_def)
  have "dropWhile (\<lambda>a. deadline w1 a < due) ts = ys" "takeWhile (\<lambda>a. deadline w1 a < due) ts = xs"
    unfolding xs_def ys_def using same(2) in_ts by (auto intro!: dropWhile_cong takeWhile_cong)
  then have place: "timer_place t (nextof w Timer_list) w1 = Some (hd (ys @ [Timer_list]))"
    and so: "sorted (map (deadline w1) (xs @ ev # ys))"
  proof -
    assume d: "dropWhile (\<lambda>a. deadline w1 a < due) ts = ys" "takeWhile (\<lambda>a. deadline w1 a < due) ts = xs"
    have "timer_place t (Some (hd (ts @ [Timer_list]))) w1 = Some (hd (ys @ [Timer_list]))"
      using timer_place_found [of w1 "[]" ts t] l1 tt d tvs by (simp add: ril_lists_def)
    then show "timer_place t (nextof w Timer_list) w1 = Some (hd (ys @ [Timer_list]))"
      using dlist_first [of w Timer_list ts] l by (simp add: ril_lists_def)
    have "map (deadline w1) ts = map (deadline w) ts" using in_ts same(2) by simp
    then show "sorted (map (deadline w1) (xs @ ev # ys))"
      using sorted_place [of "deadline w1" ts ev] ok d by (simp only: timers_ok_def ev)
  qed
  obtain w' where w': "addToList ev (hd (ys @ [Timer_list])) w1 = Some w'" "dlist w' Timer_list (xs @ ev # ys)"
    "info w' = info w1" "statics w' = statics w1"
    "\<forall>a. a \<notin> set (Timer_list # ev # xs @ ys) \<longrightarrow> nextof w' a = nextof w1 a \<and> prevof w' a = prevof w1 a"
    using dlist_add [of w1 Timer_list xs ys ev, OF _ _ _ refl] l1 e m1 xy by (auto simp: ril_lists_def)
  have "dlist w' Pending_list ps" by (rule dlist_other [OF w'(5)]) (use l1 e(2) xy in \<open>auto simp: ril_lists_def\<close>)
  then have "ril_lists w' (xs @ ev # ys) ps" using w'(2) l1 e(2) xy by (auto simp: ril_lists_def)
  moreover have "timers_ok w' (xs @ ev # ys)"
    using so tvs tt(1) ev(1) by (simp add: timers_ok_def info_timers [OF w'(3)] xy)
  moreover have "ril_timer_add now ev (Some tv) w = Some w'"
  proof -
    obtain l where l: "mem w Timer_list = Some l" "ev_next l = nextof w Timer_list"
      using dlist_first [of w Timer_list ts] l nextof_mem by (fastforce simp: ril_lists_def)
    show ?thesis using w1(1) place w'(1)
      by (auto simp: ril_timer_add_def deref_def l bind_eq_Some_conv simp flip: t_def)
  qed
  ultimately show ?thesis
    using w'(3,4) w1(4,5) ev info_timers [OF w'(3)] unfolding Let_def due_def [symmetric] xs_def [symmetric] ys_def [symmetric]
    by (intro conjI exI [of _ w']) (auto simp: ril_timer_add_def)
qed


text \<open>A world with one timer due at 15 s and an unused event.\<close>

definition sample_ril :: ril_world where
  "sample_ril = \<lparr>mem = map_of
     [(Timer_list, zero_event\<lparr>ev_next := Some (Ev 0), ev_prev := Some (Ev 0), ev_fd := -1\<rparr>),
      (Pending_list, zero_event\<lparr>ev_next := Some Pending_list, ev_prev := Some Pending_list, ev_fd := -1\<rparr>),
      (Ev 0, zero_event\<lparr>ev_next := Some Timer_list, ev_prev := Some Timer_list, ev_fd := -1, ev_index := -1,
               ev_timeout := \<lparr>tv_sec = 15, tv_usec = 0\<rparr>, ev_func := 7\<rparr>),
      (Ev 1, zero_event\<lparr>ev_index := -1, ev_func := 8\<rparr>),
      (Ev 2, zero_event\<lparr>ev_fd := 5, ev_index := 3, ev_func := 9\<rparr>)],
     watch_table = [None, None, None, Some (Ev 2), None, None, None, None], readFds = {5}, nfds = 6, fired = []\<rparr>"

lemma sample_ril_lists:
  "ril_lists sample_ril [Ev 0] []" "timers_ok sample_ril [Ev 0]" "deadline sample_ril (Ev 0) = 15000000"
  by (simp_all add: ril_lists_def dlist_def nextof_def prevof_def sample_ril_def timers_ok_def timeout_def deadline_def
      info_def tv_ok_def micros_def)

theorem ril_timer_add_sorted_insert_witness:
  "\<exists>w'. ril_timer_add \<lparr>tv_sec = 10, tv_usec = 600000\<rparr> (Ev 1) (Some \<lparr>tv_sec = 2, tv_usec = 500000\<rparr>) sample_ril = Some w' \<and>
     ril_lists w' [Ev 1, Ev 0] [] \<and> deadline w' (Ev 1) = 13100000"
  using ril_timer_add_sorted_insert [OF sample_ril_lists(1,2), of "Ev 1" "the (mem sample_ril (Ev 1))"
      "\<lparr>tv_sec = 10, tv_usec = 600000\<rparr>" "\<lparr>tv_sec = 2, tv_usec = 500000\<rparr>"]
  by (auto simp: sample_ril_lists(3) tv_ok_def micros_def Let_def) (auto simp: sample_ril_def)

section \<open>Pending events\<close>

lemma pending_add:
  assumes l: "ril_lists w ts ps" and r: "r \<notin> set (Timer_list # Pending_list # ts @ ps)" "mem w r \<noteq> None"
  shows "\<exists>w'. addToList r Pending_list w = Some w' \<and> ril_lists w' ts (ps @ [r]) \<and> info w' = info w \<and> statics w' = statics w"
proof -
  obtain w' where w': "addToList r Pending_list w = Some w'" "dlist w' Pending_list (ps @ [r])" "info w' = info w"
    "statics w' = statics w"
    "\<forall>a. a \<notin> set (Pending_list # r # ps @ []) \<longrightarrow> nextof w' a = nextof w a \<and> prevof w' a = prevof w a"
    using dlist_add [of w Pending_list ps "[]" r Pending_list] l r by (auto simp: ril_lists_def)
  have "dlist w' Timer_list ts" by (rule dlist_other [OF w'(5)]) (use l r(1) in \<open>auto simp: ril_lists_def\<close>)
  then have "ril_lists w' ts (ps @ [r])" using w'(2) l r(1) by (auto simp: ril_lists_def)
  then show ?thesis using w' by blast
qed

lemma timer_to_pending:
  assumes l: "ril_lists w (a # ts) ps"
  shows "\<exists>w1 w'. removeFromList a w = Some w1 \<and> addToList a Pending_list w1 = Some w' \<and> ril_lists w' ts (ps @ [a]) \<and>
    info w' = info w \<and> statics w' = statics w"
proof -
  obtain w1 where w1: "removeFromList a w = Some w1" "dlist w1 Timer_list ts" "info w1 = info w" "statics w1 = statics w"
    "\<forall>b. b \<notin> set (Timer_list # a # ts) \<longrightarrow> nextof w1 b = nextof w b \<and> prevof w1 b = prevof w b"
    using dlist_remove [of w Timer_list "[]" a ts] l by (auto simp: ril_lists_def)
  have "dlist w1 Pending_list ps" by (rule dlist_other [OF w1(5)]) (use l in \<open>auto simp: ril_lists_def\<close>)
  then have l1: "ril_lists w1 ts ps" using w1(2) l by (auto simp: ril_lists_def)
  have "mem w1 a \<noteq> None" using info_mem [OF w1(3)] dlist_mem [of w Timer_list "a # ts" a] l by (simp add: ril_lists_def)
  moreover have "a \<notin> set (Timer_list # Pending_list # ts @ ps)" using l by (auto simp: ril_lists_def dlist_def)
  ultimately show ?thesis using pending_add [OF l1] w1 by auto
qed

lemma expire_moves:
  assumes "ril_lists w ts ps" "timers_ok w ts" "tv_ok now"
  shows "\<exists>w'. expire now (Some (hd (ts @ [Timer_list]))) w = Some w' \<and>
    ril_lists w' (dropWhile (\<lambda>a. deadline w a < micros now) ts) (ps @ takeWhile (\<lambda>a. deadline w a < micros now) ts) \<and>
    info w' = info w \<and> statics w' = statics w"
  using assms
proof (induction ts arbitrary: w ps)
  case Nil
  then show ?case by (subst expire.simps) simp
next
  case (Cons a ts)
  have d: "dlist w Timer_list (a # ts)" using Cons.prems by (simp add: ril_lists_def)
  obtain e where e: "mem w a = Some e" "ev_next e = Some (hd (ts @ [Timer_list]))"
    using dlist_after [of w Timer_list "[]" a ts] d nextof_mem [of w a] by auto
  have a: "a \<noteq> Timer_list" using d by (auto simp: dlist_def)
  have cmp: "timercmp now (ev_timeout e) (>) \<longleftrightarrow> deadline w a < micros now"
    using time_arith(2) [of now "ev_timeout e"] Cons.prems timeout_mem [OF e(1)] by (simp add: deadline_def timers_ok_def)
  obtain w1 w2 where w2: "removeFromList a w = Some w1" "addToList a Pending_list w1 = Some w2" "ril_lists w2 ts (ps @ [a])"
    "info w2 = info w" "statics w2 = statics w" using timer_to_pending Cons.prems(1) by blast
  have "timers_ok w2 ts" using Cons.prems(2) info_timers [OF w2(4)] by (simp add: timers_ok_def)
  then obtain w' where "expire now (Some (hd (ts @ [Timer_list]))) w2 = Some w'"
    "ril_lists w' (dropWhile (\<lambda>a. deadline w a < micros now) ts) ((ps @ [a]) @ takeWhile (\<lambda>a. deadline w a < micros now) ts)"
    "info w' = info w" "statics w' = statics w"
    using Cons.IH [OF w2(3) _ Cons.prems(3)] w2(4,5) info_timers(2) [OF w2(4)] by auto
  then show ?case using e a cmp w2 Cons.prems(1) by (subst expire.simps) (auto simp: deref_def)
qed

text \<open>The events whose deadline has passed are a prefix of the sorted list.\<close>

lemma sorted_expired:
  fixes f :: "'a \<Rightarrow> int"
  assumes "sorted (map f xs)"
  shows "takeWhile (\<lambda>a. f a < t) xs = filter (\<lambda>a. f a < t) xs" "dropWhile (\<lambda>a. f a < t) xs = filter (\<lambda>a. \<not> f a < t) xs"
proof -
  have "takeWhile (\<lambda>a. f a < t) xs = filter (\<lambda>a. f a < t) xs \<and> dropWhile (\<lambda>a. f a < t) xs = filter (\<lambda>a. \<not> f a < t) xs"
    using assms
  proof (induction xs)
    case (Cons a xs)
    show ?case
    proof (cases "f a < t")
      case False
      then have "\<forall>x\<in>set xs. \<not> f x < t" using Cons.prems by auto
      then have "filter (\<lambda>a. f a < t) xs = []" "filter (\<lambda>a. \<not> f a < t) xs = xs"
        by (simp_all add: filter_empty_conv filter_id_conv)
      then show ?thesis using False by simp
    qed (use Cons in simp)
  qed simp
  then show "takeWhile (\<lambda>a. f a < t) xs = filter (\<lambda>a. f a < t) xs" "dropWhile (\<lambda>a. f a < t) xs = filter (\<lambda>a. \<not> f a < t) xs"
    by blast+
qed

lemma processTimeouts_moves:
  assumes "ril_lists w ts ps" "timers_ok w ts" "tv_ok now"
  shows "\<exists>w'. processTimeouts now w = Some w' \<and>
    ril_lists w' (filter (\<lambda>a. \<not> deadline w a < micros now) ts) (ps @ filter (\<lambda>a. deadline w a < micros now) ts) \<and>
    info w' = info w \<and> statics w' = statics w"
proof -
  have "nextof w Timer_list = Some (hd (ts @ [Timer_list]))" using assms(1) dlist_first by (simp add: ril_lists_def)
  moreover have "sorted (map (deadline w) ts)" using assms(2) by (simp add: timers_ok_def)
  ultimately show ?thesis using expire_moves [OF assms] nextof_mem sorted_expired
    by (fastforce simp: processTimeouts_def deref_def)
qed


end
