(* ===== verification/RIL_Loop.thy ===== *)
theory RIL_Loop
  imports RIL_Event
begin

text \<open>
  The watch table of the event loop in \<open>ril/libril/ril_event.cpp\<close> and one whole round of the
  loop: the invariant \<open>watch_wf\<close> that adding, deleting and firing keep, and the order in which
  a round makes its calls.
\<close>

section \<open>The watch table\<close>

definition fd_of :: "ril_world \<Rightarrow> ev_ref \<Rightarrow> int" where
  "fd_of w r = ev_fd (the (info w r))"

text \<open>The call an event makes when it fires.\<close>

definition call :: "ril_world \<Rightarrow> ev_ref \<Rightarrow> nat \<times> int \<times> nat" where
  "call w a = (let e = the (info w a) in (ev_func e, ev_fd e, ev_param e))"

definition watched :: "ril_world \<Rightarrow> ev_ref set" where
  "watched w = {r. Some r \<in> set (watch_table w)}"

text \<open>
  The table has eight slots, the slot of an event is its index, different watched events have
  different descriptors, the set and the bound given to \<open>select\<close> are those of the watched
  events.
\<close>

definition watch_wf :: "ril_world \<Rightarrow> bool" where
  "watch_wf w \<longleftrightarrow> length (watch_table w) = MAX_FD_EVENTS \<and>
    (\<forall>i<MAX_FD_EVENTS. \<forall>r. watch_table w ! i = Some r \<longrightarrow> (\<exists>k e. r = Ev k \<and> info w r = Some e \<and> ev_index e = int i)) \<and>
    (\<forall>k e. info w (Ev k) = Some e \<and> 0 \<le> ev_index e \<and> ev_index e < int MAX_FD_EVENTS \<longrightarrow>
       watch_table w ! nat (ev_index e) = Some (Ev k)) \<and>
    inj_on (fd_of w) (watched w) \<and> readFds w = fd_of w ` watched w \<and>
    (\<forall>r\<in>watched w. 0 \<le> fd_of w r \<and> fd_of w r < nfds w)"

lemma watch_wf_same:
  "info w' = info w \<Longrightarrow> watch_table w' = watch_table w \<Longrightarrow> readFds w' = readFds w \<Longrightarrow> nfds w' = nfds w \<Longrightarrow> watch_wf w' = watch_wf w"
  unfolding watch_wf_def fd_of_def watched_def by simp

lemma watch_slot:
  assumes "watch_wf w" "i < MAX_FD_EVENTS" "watch_table w ! i = Some r"
  obtains k e where "r = Ev k" "info w r = Some e" "ev_index e = int i" "r \<in> watched w"
  using assms that unfolding watch_wf_def watched_def by (metis mem_Collect_eq nth_mem)

lemma watch_unique:
  assumes "watch_wf w" "i < MAX_FD_EVENTS" "j < MAX_FD_EVENTS" "watch_table w ! i = Some r" "watch_table w ! j = Some r"
  shows "i = j"
  using watch_slot [OF assms(1,2,4)] watch_slot [OF assms(1,3,5)] by (metis of_nat_eq_iff option.inject)

lemma watched_slot: "watch_wf w \<Longrightarrow> r \<in> watched w \<Longrightarrow> \<exists>i<MAX_FD_EVENTS. watch_table w ! i = Some r"
  unfolding watch_wf_def watched_def by (metis in_set_conv_nth mem_Collect_eq)

lemma max_fd_bound:
  assumes "\<forall>r. Some r \<in> set t \<longrightarrow> mem w r \<noteq> None"
  shows "\<exists>m\<ge>n. max_fd w t n = Some m \<and> (\<forall>r. Some r \<in> set t \<longrightarrow> fd_of w r \<le> m)"
  using assms
proof (induction t arbitrary: n)
  case (Cons x t)
  show ?case
  proof (cases x)
    case None
    then show ?thesis using Cons by auto
  next
    case (Some r)
    then obtain e where e: "mem w r = Some e" using Cons.prems by auto
    then have "fd_of w r = ev_fd e" by (simp add: fd_of_def info_def)
    then show ?thesis using Cons.IH [of "max n (ev_fd e)"] Cons.prems e Some by (fastforce simp: max_def split: if_splits)
  qed
qed simp

lemma watched_clear:
  assumes wf: "watch_wf w" and i: "i < MAX_FD_EVENTS" "watch_table w ! i = Some r"
  shows "Some q \<in> set ((watch_table w)[i := None]) \<longleftrightarrow> Some q \<in> set (watch_table w) \<and> q \<noteq> r"
proof
  have len: "length (watch_table w) = MAX_FD_EVENTS" using wf by (simp add: watch_wf_def)
  assume "Some q \<in> set ((watch_table w)[i := None])"
  then obtain j where j: "j < MAX_FD_EVENTS" "(watch_table w)[i := None] ! j = Some q" by (auto simp: in_set_conv_nth len)
  then have "j \<noteq> i" "watch_table w ! j = Some q" using i(1) len by (auto simp: nth_list_update split: if_splits)
  then show "Some q \<in> set (watch_table w) \<and> q \<noteq> r" using watch_unique [OF wf j(1) i(1) _ i(2)] j(1) len by (metis nth_mem)
next
  have len: "length (watch_table w) = MAX_FD_EVENTS" using wf by (simp add: watch_wf_def)
  assume q: "Some q \<in> set (watch_table w) \<and> q \<noteq> r"
  then obtain j where j: "j < MAX_FD_EVENTS" "watch_table w ! j = Some q" by (auto simp: in_set_conv_nth len)
  then have "(watch_table w)[i := None] ! j = Some q" using q i by (cases "i = j") auto
  then show "Some q \<in> set ((watch_table w)[i := None])" using j(1) len by (metis length_list_update nth_mem)
qed

lemma watched_mem: "watch_wf w \<Longrightarrow> r \<in> watched w \<Longrightarrow> mem w r \<noteq> None"
  using watched_slot [of w r] watch_slot [of w _ r] by (metis info_None option.distinct(1))

text \<open>What remains when the event in a slot is taken out.\<close>

lemma watch_wf_clear:
  assumes wf: "watch_wf w" and i: "i < MAX_FD_EVENTS" "watch_table w ! i = Some r"
    and t: "watch_table w' = (watch_table w)[i := None]" "info w' = (info w)(r := map_option (ev_index_update (\<lambda>_. -1)) (info w r))"
    and s: "readFds w' = readFds w - {fd_of w r}" "\<forall>q\<in>watched w'. fd_of w q < nfds w'"
  shows "watch_wf w'" "watched w' = watched w - {r}"
proof -
  obtain k e where r: "r = Ev k" "info w r = Some e" "ev_index e = int i" "r \<in> watched w" using watch_slot [OF wf i] .
  have len: "length (watch_table w) = MAX_FD_EVENTS" using wf by (simp add: watch_wf_def)
  have fd: "fd_of w' = fd_of w" by (auto simp: fd_of_def fun_eq_iff t(2) r(2))
  show wa: "watched w' = watched w - {r}" using watched_clear [OF wf i] by (auto simp: watched_def t(1))
  have slots: "\<exists>k e. q = Ev k \<and> info w' q = Some e \<and> ev_index e = int j"
    if jl: "j < MAX_FD_EVENTS" and jq: "watch_table w' ! j = Some q" for j q
  proof -
    have j: "j \<noteq> i" "watch_table w ! j = Some q" using jl jq i(1) len by (auto simp: t(1) nth_list_update split: if_splits)
    then have "q \<noteq> r" using watch_unique [OF wf jl i(1) _ i(2)] by blast
    moreover obtain k' e' where "q = Ev k'" "info w q = Some e'" "ev_index e' = int j" using watch_slot [OF wf jl j(2)] .
    ultimately show ?thesis by (auto simp: t(2))
  qed
  have idx: "watch_table w' ! nat (ev_index e') = Some (Ev k')"
    if a: "info w' (Ev k') = Some e'" "0 \<le> ev_index e'" "ev_index e' < int MAX_FD_EVENTS" for k' e'
  proof -
    have ne: "Ev k' \<noteq> r" using a r(2) by (auto simp: t(2))
    then have "watch_table w ! nat (ev_index e') = Some (Ev k')" using wf a by (simp add: watch_wf_def t(2))
    then show ?thesis using ne i(2) by (cases "i = nat (ev_index e')") (auto simp: t(1))
  qed
  have inj: "inj_on (fd_of w) (watched w)" using wf by (simp add: watch_wf_def)
  have "readFds w' = fd_of w ` (watched w - {r})"
    using wf inj_on_image_set_diff [OF inj, of "watched w" "{r}"] r(4) by (simp add: s watch_wf_def)
  then show "watch_wf w'"
    unfolding watch_wf_def fd wa using slots idx wf s(2) inj
    by (auto simp: t(1) wa watch_wf_def intro: inj_on_subset)
qed

lemma removeWatch_wf:
  assumes wf: "watch_wf w" and i: "i < MAX_FD_EVENTS" "watch_table w ! i = Some r"
  shows "\<exists>w'. removeWatch r (int i) w = Some w' \<and> watch_wf w' \<and> watched w' = watched w - {r} \<and>
    watch_table w' = (watch_table w)[i := None] \<and> nextof w' = nextof w \<and> prevof w' = prevof w \<and> fired w' = fired w \<and>
    info w' = (info w)(r := map_option (ev_index_update (\<lambda>_. -1)) (info w r))"
proof -
  obtain k e where r: "r = Ev k" "info w r = Some e" "ev_index e = int i" "r \<in> watched w" using watch_slot [OF assms] .
  obtain e' where e': "mem w r = Some e'" using r(2) by (auto simp: info_def)
  have len: "length (watch_table w) = MAX_FD_EVENTS" using wf by (simp add: watch_wf_def)
  define w1 where "w1 = w\<lparr>watch_table := (watch_table w)[i := None], mem := (mem w)(r \<mapsto> e'\<lparr>ev_index := -1\<rparr>), readFds := readFds w - {ev_fd e'}\<rparr>"
  have inf: "info w1 = (info w)(r := map_option (ev_index_update (\<lambda>_. -1)) (info w r))"
    by (auto simp: w1_def info_def fun_eq_iff e')
  have fd: "fd_of w1 = fd_of w" by (auto simp: fd_of_def fun_eq_iff inf r(2))
  have fdr: "fd_of w r = ev_fd e'" by (simp add: fd_of_def info_def e')
  have "mem w1 q \<noteq> None" if "Some q \<in> set (watch_table w1)" for q
    using that watched_clear [OF wf i] watched_mem [OF wf] by (auto simp: w1_def watched_def)
  then obtain m where m: "max_fd w1 (watch_table w1) 0 = Some m" "\<forall>q\<in>watched w1. fd_of w q \<le> m"
    using max_fd_bound [of "watch_table w1" w1 0] by (auto simp: watched_def fd)
  define w' where "w' = (if ev_fd e' + 1 = nfds w then w1\<lparr>nfds := m + 1\<rparr> else w1)"
  have run: "removeWatch r (int i) w = Some w'"
    using i e' len m(1) by (auto simp: removeWatch_def store_def deref_def w'_def w1_def Let_def)
  have same: "info w' = info w1" "watched w' = watched w1" "watch_table w' = watch_table w1" "readFds w' = readFds w1"
    "nextof w' = nextof w1" "prevof w' = prevof w1" "fired w' = fired w1"
    by (auto simp: w'_def info_def watched_def fun_eq_iff nextof_def prevof_def)
  have w1s: "watch_table w1 = (watch_table w)[i := None]" "readFds w1 = readFds w - {fd_of w r}" "nextof w1 = nextof w"
    "prevof w1 = prevof w" "fired w1 = fired w" "nfds w1 = nfds w"
    by (auto simp: w1_def fdr nextof_def prevof_def fun_eq_iff e')
  have "watched w1 \<subseteq> watched w" using watched_clear [OF wf i] by (auto simp: watched_def w1s)
  then have "\<forall>q\<in>watched w'. fd_of w q < nfds w'"
    using m(2) wf unfolding same by (auto simp: w'_def w1s watch_wf_def)
  then have "watch_wf w'" "watched w' = watched w - {r}" using watch_wf_clear [OF wf i, of w'] by (simp_all add: same w1s inf)
  then show ?thesis using run by (simp add: same w1s inf)
qed


lemma free_watch_Some:
  "free_watch t n = Some i \<Longrightarrow> n \<le> i \<and> i < n + length t \<and> t ! (i - n) = None"
proof (induction t n rule: free_watch.induct)
  case (3 r t n)
  then show ?case using nth_Cons_Suc [of "Some r" t "i - Suc n"] by (auto simp: Suc_diff_Suc Suc_le_eq)
qed auto

lemma free_watch_None: "free_watch t n = None \<longleftrightarrow> None \<notin> set t"
  by (induction t n rule: free_watch.induct) auto

lemma watched_fill:
  assumes "i < length (watch_table w)" "watch_table w ! i = None"
  shows "Some q \<in> set ((watch_table w)[i := Some r]) \<longleftrightarrow> q = r \<or> Some q \<in> set (watch_table w)"
proof
  assume "Some q \<in> set ((watch_table w)[i := Some r])"
  then show "q = r \<or> Some q \<in> set (watch_table w)" using set_update_subset_insert by fastforce
next
  assume "q = r \<or> Some q \<in> set (watch_table w)"
  then show "Some q \<in> set ((watch_table w)[i := Some r])"
  proof
    assume "Some q \<in> set (watch_table w)"
    then obtain j where j: "j < length (watch_table w)" "watch_table w ! j = Some q" by (auto simp: in_set_conv_nth)
    then have "(watch_table w)[i := Some r] ! j = Some q" using assms by (cases "i = j") auto
    then show ?thesis using j(1) by (metis length_list_update nth_mem)
  qed (use assms(1) in \<open>simp add: set_update_memI\<close>)
qed

lemma watch_wf_fill:
  assumes wf: "watch_wf w" and i: "i < MAX_FD_EVENTS" "watch_table w ! i = None" and r: "r = Ev k" "r \<notin> watched w" "info w r \<noteq> None"
    and t: "watch_table w' = (watch_table w)[i := Some r]" "info w' = (info w)(r := map_option (ev_index_update (\<lambda>_. int i)) (info w r))"
    and s: "readFds w' = insert (fd_of w r) (readFds w)" "fd_of w r < nfds w'" "nfds w \<le> nfds w'" "0 \<le> fd_of w r" "fd_of w r \<notin> readFds w"
  shows "watch_wf w'" "watched w' = insert r (watched w)"
proof -
  have len: "length (watch_table w) = MAX_FD_EVENTS" using wf by (simp add: watch_wf_def)
  have fd: "fd_of w' = fd_of w" using r(3) by (auto simp: fd_of_def fun_eq_iff t(2))
  show wa: "watched w' = insert r (watched w)" using watched_fill [of i w _ r] i len by (auto simp: watched_def t(1))
  have slots: "\<exists>k e. q = Ev k \<and> info w' q = Some e \<and> ev_index e = int j"
    if jl: "j < MAX_FD_EVENTS" and jq: "watch_table w' ! j = Some q" for j q
  proof (cases "j = i")
    case True
    then show ?thesis using jq i(1) len r by (auto simp: t)
  next
    case False
    then have jw: "watch_table w ! j = Some q" using jq by (simp add: t(1))
    obtain k' e' where "q = Ev k'" "info w q = Some e'" "ev_index e' = int j" "q \<in> watched w" using watch_slot [OF wf jl jw] .
    then show ?thesis using r(2) by (auto simp: t(2))
  qed
  have idx: "watch_table w' ! nat (ev_index e') = Some (Ev k')"
    if a: "info w' (Ev k') = Some e'" "0 \<le> ev_index e'" "ev_index e' < int MAX_FD_EVENTS" for k' e'
  proof (cases "Ev k' = r")
    case True
    then have "ev_index e' = int i" using a(1) by (auto simp: t(2))
    then show ?thesis using True i(1) len by (simp add: t(1))
  next
    case False
    then have "watch_table w ! nat (ev_index e') = Some (Ev k')" using wf a by (simp add: watch_wf_def t(2))
    then show ?thesis using i(2) by (cases "i = nat (ev_index e')") (auto simp: t(1))
  qed
  have R: "readFds w = fd_of w ` watched w" and inj: "inj_on (fd_of w) (watched w)"
    and b: "\<forall>q\<in>watched w. 0 \<le> fd_of w q \<and> fd_of w q < nfds w" using wf by (auto simp: watch_wf_def)
  have "inj_on (fd_of w) (insert r (watched w))" using inj s(5) r(2) by (simp add: R)
  moreover have "\<forall>q\<in>insert r (watched w). 0 \<le> fd_of w q \<and> fd_of w q < nfds w'" using b s by fastforce
  ultimately show "watch_wf w'" unfolding watch_wf_def fd wa using slots idx R s(1) len by (auto simp: t(1))
qed

lemma ril_event_add_wf:
  assumes wf: "watch_wf w" and r: "r = Ev k" "r \<notin> watched w" "mem w r = Some e" "0 \<le> ev_fd e" "ev_fd e \<notin> readFds w"
  shows "\<exists>w'. ril_event_add r w = Some w' \<and> watch_wf w' \<and> nextof w' = nextof w \<and> prevof w' = prevof w \<and>
    (if None \<in> set (watch_table w) then watched w' = insert r (watched w) else w' = w)"
proof (cases "free_watch (watch_table w) 0")
  case None
  then show ?thesis using wf free_watch_None [of "watch_table w" 0] by (simp add: ril_event_add_def)
next
  case (Some i)
  have len: "length (watch_table w) = MAX_FD_EVENTS" using wf by (simp add: watch_wf_def)
  have i: "i < MAX_FD_EVENTS" "watch_table w ! i = None" using free_watch_Some [OF Some] len by auto
  define w1 where "w1 = w\<lparr>watch_table := (watch_table w)[i := Some r], mem := (mem w)(r \<mapsto> e\<lparr>ev_index := int i\<rparr>), readFds := insert (ev_fd e) (readFds w)\<rparr>"
  define w' where "w' = (if ev_fd e \<ge> nfds w then w1\<lparr>nfds := ev_fd e + 1\<rparr> else w1)"
  have run: "ril_event_add r w = Some w'"
    using r(3) Some by (auto simp: ril_event_add_def store_def deref_def w'_def w1_def Let_def)
  have f: "fd_of w r = ev_fd e" "info w r \<noteq> None" by (simp_all add: fd_of_def info_def r(3))
  have s: "watch_table w' = (watch_table w)[i := Some r]" "readFds w' = insert (fd_of w r) (readFds w)"
    "info w' = (info w)(r := map_option (ev_index_update (\<lambda>_. int i)) (info w r))" "nextof w' = nextof w" "prevof w' = prevof w"
    "fd_of w r < nfds w'" "nfds w \<le> nfds w'"
    by (auto simp: w'_def w1_def f info_def nextof_def prevof_def fun_eq_iff r(3))
  have "watch_wf w'" "watched w' = insert r (watched w)"
    using watch_wf_fill [OF wf i r(1,2) f(2) s(1,3,2,6,7)] r(4,5) by (simp_all add: f)
  moreover have "None \<in> set (watch_table w)" using Some free_watch_None [of "watch_table w" 0] by auto
  ultimately show ?thesis using run s(4,5) by auto
qed

lemma ril_event_del_wf:
  assumes wf: "watch_wf w" and r: "r = Ev k" "mem w r = Some e"
  shows "\<exists>w'. ril_event_del r w = Some w' \<and> watch_wf w' \<and> watched w' = watched w - {r} \<and>
    nextof w' = nextof w \<and> prevof w' = prevof w \<and> fired w' = fired w \<and> call w' = call w"
proof (cases "ev_index e < 0 \<or> ev_index e \<ge> int MAX_FD_EVENTS")
  case True
  have "r \<notin> watched w"
  proof
    assume "r \<in> watched w"
    then obtain i where i: "i < MAX_FD_EVENTS" "watch_table w ! i = Some r" using watched_slot [OF wf] by blast
    obtain e' where "info w r = Some e'" "ev_index e' = int i" using watch_slot [OF wf i] by metis
    then show False using True i(1) r(2) by (auto simp: info_def)
  qed
  then show ?thesis using True wf r(2) by (auto simp: ril_event_del_def deref_def)
next
  case False
  define i where "i = nat (ev_index e)"
  have i: "i < MAX_FD_EVENTS" "int i = ev_index e" using False by (auto simp: i_def)
  have "watch_table w ! i = Some r"
  proof -
    have "info w (Ev k) = Some (e\<lparr>ev_next := None, ev_prev := None\<rparr>)" using r by (simp add: info_def)
    then show ?thesis using wf False r(1) unfolding watch_wf_def i_def
      by (metis (no_types, lifting) not_le not_less ril_event.select_convs(4) ril_event.surjective ril_event.update_convs(1,2))
  qed
  then obtain w' where w': "removeWatch r (int i) w = Some w'" "watch_wf w'" "watched w' = watched w - {r}" "nextof w' = nextof w"
    "prevof w' = prevof w" "fired w' = fired w" "info w' = (info w)(r := map_option (ev_index_update (\<lambda>_. -1)) (info w r))"
    using removeWatch_wf [OF wf i(1), of r] by blast
  have "call w' = call w" using r(2) by (auto simp: call_def w' fun_eq_iff info_def)
  then show ?thesis using w' False r(2) by (auto simp: ril_event_del_def deref_def i(2))
qed


lemma ril_event_init_wf:
  assumes "mem w Timer_list \<noteq> None" "mem w Pending_list \<noteq> None" "\<forall>k e. mem w (Ev k) = Some e \<longrightarrow> ev_index e < 0"
  shows "\<exists>w'. ril_event_init w = Some w' \<and> ril_lists w' [] [] \<and> timers_ok w' [] \<and> watch_wf w' \<and> watched w' = {}"
proof -
  obtain t p where tp: "mem w Timer_list = Some t" "mem w Pending_list = Some p" using assms(1,2) by auto
  define h where "h l = zero_event\<lparr>ev_next := Some l, ev_prev := Some l, ev_fd := -1\<rparr>" for l
  define w' where "w' = w\<lparr>readFds := {}, mem := (mem w)(Timer_list \<mapsto> h Timer_list, Pending_list \<mapsto> h Pending_list),
    watch_table := replicate MAX_FD_EVENTS None\<rparr>"
  have "ril_event_init w = Some w'"
    by (simp add: ril_event_init_def init_list_def store_def tp w'_def h_def fun_upd_twist)
  moreover have "ril_lists w' [] []" "timers_ok w' []"
    by (simp_all add: ril_lists_def dlist_def nextof_def prevof_def w'_def h_def timers_ok_def)
  moreover have wa: "watched w' = {}" by (simp add: watched_def w'_def)
  moreover have "\<not> 0 \<le> ev_index e" if "info w' (Ev k) = Some e" for k e
    using that assms(3) [rule_format, of k] by (auto simp: w'_def info_def)
  then have "watch_wf w'" unfolding watch_wf_def wa by (auto simp: w'_def)
  ultimately show ?thesis by blast
qed

text \<open>C38. The watch table and the arguments of \<open>select\<close> stay consistent. Initialisation sets up two
  empty lists and an empty table. In a consistent table \<open>ril_event_add\<close> of an unwatched event
  with a new descriptor enters it if one of the eight slots is free, and does nothing
  at all otherwise, without any report; \<open>ril_event_del\<close> takes out exactly the given event.
  After every one of them the slot of an event is its index, \<open>readFds\<close> is the set of the
  watched descriptors and \<open>nfds\<close> is above all of them; the timer and pending lists are not
  touched, so deleting a timer does not stop it.\<close>

theorem watch_table_invariant:
  assumes init: "mem w0 Timer_list \<noteq> None" "mem w0 Pending_list \<noteq> None" "\<forall>k e. mem w0 (Ev k) = Some e \<longrightarrow> ev_index e < 0"
    and wf: "watch_wf w" and ev: "mem w (Ev k) = Some e"
    and new: "Ev j \<notin> watched w" "mem w (Ev j) = Some e'" "0 \<le> ev_fd e'" "ev_fd e' \<notin> readFds w"
  shows "(\<exists>w'. ril_event_init w0 = Some w' \<and> ril_lists w' [] [] \<and> watch_wf w' \<and> watched w' = {}) \<and>
    (\<exists>w'. ril_event_add (Ev j) w = Some w' \<and> watch_wf w' \<and> (\<forall>ts ps. ril_lists w' ts ps \<longleftrightarrow> ril_lists w ts ps) \<and>
       (if None \<in> set (watch_table w) then watched w' = insert (Ev j) (watched w) else w' = w)) \<and>
    (\<exists>w'. ril_event_del (Ev k) w = Some w' \<and> watch_wf w' \<and> watched w' = watched w - {Ev k} \<and>
       (\<forall>ts ps. ril_lists w' ts ps \<longleftrightarrow> ril_lists w ts ps))"
proof (intro conjI)
  show "\<exists>w'. ril_event_init w0 = Some w' \<and> ril_lists w' [] [] \<and> watch_wf w' \<and> watched w' = {}"
    using ril_event_init_wf [OF init] by blast
  have links: "ril_lists w' ts ps \<longleftrightarrow> ril_lists w ts ps" if "nextof w' = nextof w" "prevof w' = prevof w" for w' ts ps
    using that by (simp add: ril_lists_def dlist_def)
  show "\<exists>w'. ril_event_add (Ev j) w = Some w' \<and> watch_wf w' \<and> (\<forall>ts ps. ril_lists w' ts ps \<longleftrightarrow> ril_lists w ts ps) \<and>
       (if None \<in> set (watch_table w) then watched w' = insert (Ev j) (watched w) else w' = w)"
    using ril_event_add_wf [OF wf refl new] links by metis
  show "\<exists>w'. ril_event_del (Ev k) w = Some w' \<and> watch_wf w' \<and> watched w' = watched w - {Ev k} \<and>
       (\<forall>ts ps. ril_lists w' ts ps \<longleftrightarrow> ril_lists w ts ps)"
    using ril_event_del_wf [OF wf refl ev] links by metis
qed

lemma sample_ril_watch: "watch_wf sample_ril" "watched sample_ril = {Ev 2}"
proof -
  show w: "watched sample_ril = {Ev 2}" by (auto simp: watched_def sample_ril_def)
  have "\<forall>i<8. \<forall>r. watch_table sample_ril ! i = Some r \<longrightarrow> (\<exists>k e. r = Ev k \<and> info sample_ril r = Some e \<and> ev_index e = int i)"
    by (simp add: numeral_eq_Suc All_less_Suc) (simp add: sample_ril_def info_def)
  moreover have "info sample_ril (Ev k) = Some e \<and> 0 \<le> ev_index e \<and> ev_index e < 8 \<Longrightarrow> watch_table sample_ril ! nat (ev_index e) = Some (Ev k)" for k e
    by (auto simp: sample_ril_def info_def split: if_splits)
  ultimately show "watch_wf sample_ril" unfolding watch_wf_def w by (auto simp: MAX_FD_EVENTS_def sample_ril_def fd_of_def info_def)
qed

text \<open>The state before initialisation: two unused heads and no event.\<close>

definition blank_ril :: ril_world where
  "blank_ril = \<lparr>mem = [Timer_list \<mapsto> zero_event, Pending_list \<mapsto> zero_event], watch_table = [], readFds = {}, nfds = 0, fired = []\<rparr>"

theorem watch_table_invariant_witness:
  "(\<exists>w'. ril_event_init blank_ril = Some w' \<and> ril_lists w' [] [] \<and> watch_wf w') \<and>
   (\<exists>w'. ril_event_add (Ev 1) sample_ril = Some w' \<and> watched w' = {Ev 1, Ev 2} \<and> ril_lists w' [Ev 0] []) \<and>
   (\<exists>w'. ril_event_del (Ev 2) sample_ril = Some w' \<and> watched w' = {})"
proof -
  have m: "mem sample_ril (Ev 2) = Some (the (mem sample_ril (Ev 2)))" "mem sample_ril (Ev 1) = Some (the (mem sample_ril (Ev 1)))"
    "0 \<le> ev_fd (the (mem sample_ril (Ev 1)))" "ev_fd (the (mem sample_ril (Ev 1))) \<notin> readFds sample_ril"
    "None \<in> set (watch_table sample_ril)"
    by (simp_all add: sample_ril_def zero_event_def)
  have b: "mem blank_ril Timer_list \<noteq> None" "mem blank_ril Pending_list \<noteq> None" "\<forall>k e. mem blank_ril (Ev k) = Some e \<longrightarrow> ev_index e < 0"
    by (simp_all add: blank_ril_def)
  have "Ev 1 \<notin> watched sample_ril" by (simp add: sample_ril_watch)
  then show ?thesis
    using watch_table_invariant [OF b sample_ril_watch(1) m(1), of 1, OF _ m(2-4)] m(5) sample_ril_lists(1)
    by (auto simp: sample_ril_watch(2))
qed


section \<open>A round of the loop\<close>

text \<open>The watched events in slot order from the slot \<open>i\<close> on that are ready.\<close>

definition ready :: "ril_world \<Rightarrow> int set \<Rightarrow> nat \<Rightarrow> ev_ref list" where
  "ready w rfds i = filter (\<lambda>r. fd_of w r \<in> rfds) (map the (filter (\<lambda>x. x \<noteq> None) (drop i (watch_table w))))"

lemma call_fd: "call w' = call w \<Longrightarrow> fd_of w' = fd_of w"
  by (auto simp: fun_eq_iff call_def fd_of_def Let_def)

lemma ready_step:
  "i < length (watch_table w) \<Longrightarrow> ready w rfds i =
    (case watch_table w ! i of None \<Rightarrow> [] | Some r \<Rightarrow> if fd_of w r \<in> rfds then [r] else []) @ ready w rfds (Suc i)"
  by (auto simp: ready_def Cons_nth_drop_Suc [symmetric] split: option.splits)

lemma ready_same:
  "fd_of w' = fd_of w \<Longrightarrow> drop i (watch_table w') = drop i (watch_table w) \<Longrightarrow> ready w' rfds i = ready w rfds i"
  by (simp add: ready_def)

text \<open>Making the event of a ready slot pending, and releasing the slot if the event is not persistent.\<close>

lemma ready_event_pending:
  assumes l: "ril_lists w ts ps" and wf: "watch_wf w" and i: "i < MAX_FD_EVENTS" "watch_table w ! i = Some r"
    and n: "r \<notin> set (ts @ ps)"
  shows "\<exists>w'. Option.bind (addToList r Pending_list w) (\<lambda>w. if p = False then removeWatch r (int i) w else Some w) = Some w' \<and>
    ril_lists w' ts (ps @ [r]) \<and> watch_wf w' \<and> call w' = call w \<and> fired w' = fired w \<and>
    drop (Suc i) (watch_table w') = drop (Suc i) (watch_table w)"
proof -
  obtain k e where r: "r = Ev k" "info w r = Some e" "r \<in> watched w" using watch_slot [OF wf i] by metis
  obtain w1 where w1: "addToList r Pending_list w = Some w1" "ril_lists w1 ts (ps @ [r])" "info w1 = info w" "statics w1 = statics w"
    using pending_add [OF l, of r] n r watched_mem [OF wf r(3)] by auto
  have st: "watch_table w1 = watch_table w" "readFds w1 = readFds w" "nfds w1 = nfds w" "fired w1 = fired w"
    using w1(4) by (simp_all add: statics_def)
  have wf1: "watch_wf w1" using watch_wf_same [OF w1(3) st(1-3)] wf by simp
  have c1: "call w1 = call w" by (simp add: call_def fun_eq_iff w1(3))
  obtain w2 where w2: "removeWatch r (int i) w1 = Some w2" "watch_wf w2" "watch_table w2 = (watch_table w1)[i := None]"
    "nextof w2 = nextof w1" "prevof w2 = prevof w1" "fired w2 = fired w1"
    "info w2 = (info w1)(r := map_option (ev_index_update (\<lambda>_. -1)) (info w1 r))"
    using removeWatch_wf [OF wf1 i(1), of r] i(2) st(1) by auto
  have "ril_lists w2 ts (ps @ [r])" using w1(2) w2(4,5) by (simp add: ril_lists_def dlist_def)
  moreover have "call w2 = call w" using c1 r(2) by (auto simp: call_def fun_eq_iff w2(7) w1(3))
  ultimately show ?thesis using w1 w2 wf1 c1 st by (cases p) auto
qed

lemma readies_pending:
  assumes "k + i = MAX_FD_EVENTS" "ril_lists w ts ps" "watch_wf w" "int (length (ready w rfds i)) \<le> n"
    and "\<forall>j r. i \<le> j \<and> j < MAX_FD_EVENTS \<and> watch_table w ! j = Some r \<longrightarrow> r \<notin> set (ts @ ps)"
  shows "\<exists>w'. readies k i rfds n w = Some w' \<and> ril_lists w' ts (ps @ ready w rfds i) \<and> watch_wf w' \<and> call w' = call w \<and> fired w' = fired w"
  using assms
proof (induction k arbitrary: i w ps n)
  case 0
  then have "ready w rfds i = []" by (simp add: ready_def watch_wf_def)
  then show ?case using 0 by simp
next
  case (Suc k)
  have i: "i < MAX_FD_EVENTS" "k + Suc i = MAX_FD_EVENTS" using Suc.prems(1) by auto
  have len: "length (watch_table w) = MAX_FD_EVENTS" using Suc.prems(3) by (simp add: watch_wf_def)
  note step = ready_step [of i w rfds, unfolded len, OF i(1)]
  have later: "\<forall>j r. Suc i \<le> j \<and> j < MAX_FD_EVENTS \<and> watch_table w ! j = Some r \<longrightarrow> r \<notin> set (ts @ ps)"
    using Suc.prems(5) Suc_leD by blast
  show ?case
  proof (cases "n > 0")
    case False
    then have "ready w rfds i = []" using Suc.prems(4) by (cases "ready w rfds i") auto
    then show ?thesis using False Suc.prems by simp
  next
    case n: True
    show ?thesis
    proof (cases "watch_table w ! i")
      case None
      then show ?thesis using Suc.IH [OF i(2) Suc.prems(2,3) _ later] Suc.prems(4) n step by simp
    next
      case (Some r)
      have rn: "r \<notin> set (ts @ ps)" using Suc.prems(5) Some i(1) by blast
      obtain e where e: "mem w r = Some e" using watch_slot [OF Suc.prems(3) i(1) Some] watched_mem [OF Suc.prems(3)] by blast
      have fd: "fd_of w r = ev_fd e" by (simp add: fd_of_def info_def e)
      show ?thesis
      proof (cases "ev_fd e \<in> rfds")
        case False
        then show ?thesis using Suc.IH [OF i(2) Suc.prems(2,3) _ later] Suc.prems(4) n step Some e fd by simp
      next
        case True
        obtain w1 where w1: "Option.bind (addToList r Pending_list w) (\<lambda>w. if ev_persist e = False then removeWatch r (int i) w else Some w) = Some w1"
          "ril_lists w1 ts (ps @ [r])" "watch_wf w1" "call w1 = call w" "fired w1 = fired w"
          "drop (Suc i) (watch_table w1) = drop (Suc i) (watch_table w)"
          using ready_event_pending [OF Suc.prems(2,3) i(1) Some rn, of "ev_persist e"] by blast
        have rd: "ready w1 rfds (Suc i) = ready w rfds (Suc i)" by (rule ready_same [OF call_fd [OF w1(4)] w1(6)])
        have tab: "watch_table w1 ! j = watch_table w ! j" if "Suc i \<le> j" "j < MAX_FD_EVENTS" for j
        proof -
          have "drop (Suc i) (watch_table w1) ! (j - Suc i) = drop (Suc i) (watch_table w) ! (j - Suc i)" by (simp only: w1(6))
          moreover have "length (watch_table w1) = MAX_FD_EVENTS" using w1(3) by (simp add: watch_wf_def)
          ultimately show ?thesis using that len by simp
        qed
        have "\<forall>j q. Suc i \<le> j \<and> j < MAX_FD_EVENTS \<and> watch_table w1 ! j = Some q \<longrightarrow> q \<notin> set (ts @ ps @ [r])"
          using later tab watch_unique [OF Suc.prems(3) i(1) _ Some] by fastforce
        then obtain w' where "readies k (Suc i) rfds (n - 1) w1 = Some w'" "ril_lists w' ts ((ps @ [r]) @ ready w rfds (Suc i))"
          "watch_wf w'" "call w' = call w" "fired w' = fired w"
          using Suc.IH [OF i(2) w1(2,3), of "n - 1"] Suc.prems(4) step Some True fd w1(4,5) rd by auto
        moreover have "readies (Suc k) i rfds n w = readies k (Suc i) rfds (n - 1) w1"
        proof -
          have "readies (Suc k) i rfds n w = Option.bind (Option.bind (addToList r Pending_list w)
            (\<lambda>w. if ev_persist e = False then removeWatch r (int i) w else Some w)) (readies k (Suc i) rfds (n - 1))"
            using n Some e True by (auto split: option.splits intro: bind_option_cong)
          then show ?thesis unfolding w1(1) by simp
        qed
        ultimately show ?thesis using Some True fd step by (auto simp del: readies.simps)
      qed
    qed
  qed
qed


text \<open>
  What the loop needs of the callbacks: they return, keep the watch table consistent, and
  leave the pending list and the events in it alone.
\<close>

definition quiet :: "callback \<Rightarrow> bool" where
  "quiet cb \<longleftrightarrow> (\<forall>f fd p w ps. watch_wf w \<and> dlist w Pending_list ps \<longrightarrow>
     (\<exists>w'. cb f fd p w = Some w' \<and> watch_wf w' \<and> dlist w' Pending_list ps \<and> (\<forall>a\<in>set ps. call w' a = call w a) \<and> fired w' = fired w))"

lemma fire_all:
  assumes "quiet cb" "dlist w Pending_list ps" "watch_wf w"
  shows "\<exists>w'. fire cb (Some (hd (ps @ [Pending_list]))) w = Some w' \<and> dlist w' Pending_list [] \<and> watch_wf w' \<and>
    fired w' = fired w @ map (call w) ps"
  using assms(2,3)
proof (induction ps arbitrary: w)
  case Nil
  then show ?case by (subst fire.simps) simp
next
  case (Cons a ps)
  obtain e where e: "mem w a = Some e" "ev_next e = Some (hd (ps @ [Pending_list]))"
    using dlist_after [of w Pending_list "[]" a ps] Cons.prems(1) nextof_mem [of w a] by auto
  have a: "a \<noteq> Pending_list" using Cons.prems(1) by (auto simp: dlist_def)
  obtain w1 where w1: "removeFromList a w = Some w1" "dlist w1 Pending_list ps" "info w1 = info w" "statics w1 = statics w"
    using dlist_remove [of w Pending_list "[]" a ps] Cons.prems(1) by auto
  define w2 where "w2 = w1\<lparr>fired := fired w1 @ [(ev_func e, ev_fd e, ev_param e)]\<rparr>"
  have c: "call w a = (ev_func e, ev_fd e, ev_param e)" by (simp add: call_def info_def e)
  have w2: "dlist w2 Pending_list ps" "info w2 = info w" "fired w2 = fired w @ [call w a]" "watch_table w2 = watch_table w"
    "readFds w2 = readFds w" "nfds w2 = nfds w"
  proof -
    have "nextof w2 = nextof w1" "prevof w2 = prevof w1" "info w2 = info w1"
      by (auto simp: w2_def nextof_def prevof_def info_def fun_eq_iff)
    then show "dlist w2 Pending_list ps" "info w2 = info w" using w1(2,3) by (simp_all add: dlist_def)
  qed (use w1(4) in \<open>simp_all add: w2_def statics_def c\<close>)
  have "watch_wf w2" using watch_wf_same [OF w2(2,4-6)] Cons.prems(2) by simp
  then obtain w3 where w3: "cb (ev_func e) (ev_fd e) (ev_param e) w2 = Some w3" "watch_wf w3" "dlist w3 Pending_list ps"
    "\<forall>a\<in>set ps. call w3 a = call w2 a" "fired w3 = fired w2"
    using assms(1) w2(1) unfolding quiet_def by blast
  obtain w' where w': "fire cb (Some (hd (ps @ [Pending_list]))) w3 = Some w'" "dlist w' Pending_list []" "watch_wf w'"
    "fired w' = fired w3 @ map (call w3) ps" using Cons.IH [OF w3(3,2)] by blast
  have "map (call w3) ps = map (call w) ps" using w3(4) by (simp add: call_def w2(2))
  then show ?case using w' w3 w2(3) w1(1) e a by (subst fire.simps) (auto simp: deref_def w2_def [symmetric])
qed

text \<open>The time to wait: until the first deadline, no time when it has passed, for ever without timers.\<close>

definition next_wait :: "ril_world \<Rightarrow> timeval \<Rightarrow> ev_ref list \<Rightarrow> timeval option" where
  "next_wait w now ts = (case ts of [] \<Rightarrow> None | a # _ \<Rightarrow>
     (let d = max 0 (deadline w a - micros now) in Some \<lparr>tv_sec = d div 1000000, tv_usec = d mod 1000000\<rparr>))"

lemma calcNextTimeout_wait:
  assumes l: "ril_lists w ts ps" and ok: "timers_ok w ts" and now: "tv_ok now"
  shows "calcNextTimeout now w = Some (next_wait w now ts)"
proof (cases ts)
  case Nil
  then show ?thesis using dlist_first [of w Timer_list ts] l nextof_mem [of w Timer_list]
    by (auto simp: ril_lists_def calcNextTimeout_def deref_def next_wait_def)
next
  case (Cons a ts')
  have d: "dlist w Timer_list (a # ts')" using l Cons by (simp add: ril_lists_def)
  obtain h where h: "mem w Timer_list = Some h" "ev_next h = Some a"
    using dlist_first [OF d] nextof_mem [of w Timer_list] by auto
  obtain e where e: "mem w a = Some e" using dlist_mem [OF d, of a] by auto
  have a: "a \<noteq> Timer_list" using d by (auto simp: dlist_def)
  have t: "tv_ok (ev_timeout e)" "deadline w a = micros (ev_timeout e)"
    using ok Cons timeout_mem [OF e] by (simp_all add: timers_ok_def deadline_def)
  let ?u = "max 0 (micros (ev_timeout e) - micros now)"
  have m: "micros \<lparr>tv_sec = ?u div 1000000, tv_usec = ?u mod 1000000\<rparr> = ?u" "tv_ok \<lparr>tv_sec = ?u div 1000000, tv_usec = ?u mod 1000000\<rparr>"
    by (simp_all add: micros_def tv_ok_def)
  have "(if timercmp (ev_timeout e) now (>) then timersub (ev_timeout e) now else \<lparr>tv_sec = 0, tv_usec = 0\<rparr>) =
      \<lparr>tv_sec = ?u div 1000000, tv_usec = ?u mod 1000000\<rparr>"
    using time_arith [OF t(1) now] m by (intro micros_inj) (auto simp: micros_def tv_ok_def)
  then show ?thesis using h e a t(2) Cons by (auto simp: calcNextTimeout_def deref_def next_wait_def Let_def split: if_splits)
qed

lemma ready_count:
  assumes wf: "watch_wf w" and r: "rfds \<subseteq> readFds w"
  shows "length (ready w rfds 0) \<le> card rfds"
proof -
  have len: "length (watch_table w) = MAX_FD_EVENTS" using wf by (simp add: watch_wf_def)
  have fin: "finite rfds"
  proof (rule finite_subset [OF r])
    have "watched w = the ` (set (watch_table w) - {None})" by (force simp: watched_def)
    then show "finite (readFds w)" using wf by (simp add: watch_wf_def)
  qed
  have "distinct (filter (\<lambda>x. x \<noteq> None) (watch_table w))"
  proof -
    have "distinct (filter (\<lambda>x. x \<noteq> None) t)"
      if "\<And>i j q. i < length t \<Longrightarrow> j < length t \<Longrightarrow> t ! i = Some q \<Longrightarrow> t ! j = Some q \<Longrightarrow> i = j" for t :: "'a option list"
      using that
    proof (induction t)
      case (Cons x t)
      have "x \<notin> set t" if "x \<noteq> None"
        using that Cons.prems [of 0 "Suc _"] by (fastforce simp: in_set_conv_nth)
      moreover have "distinct (filter (\<lambda>x. x \<noteq> None) t)" using Cons.prems [of "Suc _" "Suc _"] by (intro Cons.IH) force
      ultimately show ?case by auto
    qed simp
    then show ?thesis using watch_unique [OF wf] len by metis
  qed
  then have "distinct (map the (filter (\<lambda>x. x \<noteq> None) (watch_table w)))" by (auto simp: distinct_map inj_on_def)
  then have "distinct (ready w rfds 0)" by (simp add: ready_def)
  moreover have sub: "set (ready w rfds 0) \<subseteq> watched w" by (auto simp: ready_def watched_def)
  moreover have "inj_on (fd_of w) (watched w)" using wf by (simp add: watch_wf_def)
  ultimately have "distinct (map (fd_of w) (ready w rfds 0))" by (auto simp: distinct_map intro: inj_on_subset)
  moreover have "set (map (fd_of w) (ready w rfds 0)) \<subseteq> rfds" by (auto simp: ready_def)
  ultimately show ?thesis using fin by (metis card_mono distinct_card length_map)
qed


text \<open>C38. A round of the event loop fires what is due, in order. With a sorted timer list, an empty
  pending list and a consistent watch table, \<open>select\<close> is called with the watched descriptors
  and the time until the first deadline; when it reports the ready descriptors \<open>rfds\<close>, the round
  returns, calls the callbacks of exactly the timers whose deadline lies before the second
  clock reading, by deadline, and then of exactly the watched events with a ready
  descriptor, by slot, each once with its own arguments, and leaves the pending list empty
  and the watch table consistent. A timer whose deadline equals the reading is not fired.\<close>

theorem ril_event_round_fires_due:
  assumes l: "ril_lists w ts []" and ok: "timers_ok w ts" and wf: "watch_wf w" and apart: "watched w \<inter> set ts = {}"
    and now: "tv_ok now" "tv_ok now'" and cb: "quiet cb"
    and sel: "select (nfds w) (readFds w) (next_wait w now ts) = Ready (int (card rfds)) rfds" "rfds \<subseteq> readFds w"
  shows "\<exists>w'. ril_event_round select cb now now' w = Some (True, w') \<and>
    fired w' = fired w @ map (call w) (filter (\<lambda>a. deadline w a < micros now') ts @
      filter (\<lambda>r. fd_of w r \<in> rfds) (map the (filter (\<lambda>x. x \<noteq> None) (watch_table w)))) \<and>
    dlist w' Pending_list [] \<and> watch_wf w'"
proof -
  define ex where "ex = filter (\<lambda>a. deadline w a < micros now') ts"
  define rest where "rest = filter (\<lambda>a. \<not> deadline w a < micros now') ts"
  obtain w1 where w1: "processTimeouts now' w = Some w1" "ril_lists w1 rest ex" "info w1 = info w" "statics w1 = statics w"
    using processTimeouts_moves [OF l ok now(2)] by (auto simp: ex_def rest_def)
  have st: "watch_table w1 = watch_table w" "readFds w1 = readFds w" "nfds w1 = nfds w" "fired w1 = fired w"
    using w1(4) by (simp_all add: statics_def)
  have wf1: "watch_wf w1" using watch_wf_same [OF w1(3) st(1-3)] wf by simp
  have c1: "call w1 = call w" by (simp add: call_def fun_eq_iff w1(3))
  have rd: "ready w1 rfds 0 = ready w rfds 0" by (rule ready_same [OF call_fd [OF c1]]) (simp add: st)
  have "r \<notin> set (rest @ ex)" if "j < MAX_FD_EVENTS" "watch_table w1 ! j = Some r" for j r
    using watch_slot [OF wf1 that] apart by (auto simp: watched_def st ex_def rest_def)
  then obtain w2 where w2: "processReadReadies rfds (int (card rfds)) w1 = Some w2" "ril_lists w2 rest (ex @ ready w rfds 0)"
    "watch_wf w2" "call w2 = call w" "fired w2 = fired w"
    using readies_pending [of MAX_FD_EVENTS 0 w1 rest ex rfds "int (card rfds)"] w1(2) wf1 ready_count [OF wf sel(2)] c1 st(4)
    by (auto simp: processReadReadies_def rd)
  have d: "dlist w2 Pending_list (ex @ ready w rfds 0)" using w2(2) by (simp add: ril_lists_def)
  obtain w' where w': "firePending cb w2 = Some w'" "dlist w' Pending_list []" "watch_wf w'"
    "fired w' = fired w @ map (call w) (ex @ ready w rfds 0)"
    using fire_all [OF cb d w2(3)] dlist_first [OF d] nextof_mem [of w2 Pending_list] w2(4,5)
    by (auto simp: firePending_def deref_def)
  have "ril_event_round select cb now now' w = Some (True, w')"
    using calcNextTimeout_wait [OF l ok now(1)] sel(1) w1(1) w2(1) w'(1) by (simp add: ril_event_round_def)
  then show ?thesis using w'(2-4) by (auto simp: ex_def ready_def)
qed

text \<open>
  A callback that ends the watch of the event it is given, as the callback of a closed
  command socket does, and a \<open>select\<close> that finds descriptor 5 ready.
\<close>

definition closing_callback :: callback where
  "closing_callback f fd p w = (if mem w (Ev p) = None then Some w else ril_event_del (Ev p) w)"

definition sample_select :: selector where
  "sample_select n fds tv = Ready (int (card (fds \<inter> {5}))) (fds \<inter> {5})"

lemma closing_callback_quiet: "quiet closing_callback"
  unfolding quiet_def
proof (intro allI impI)
  fix f fd p w ps assume a: "watch_wf w \<and> dlist w Pending_list ps"
  show "\<exists>w'. closing_callback f fd p w = Some w' \<and> watch_wf w' \<and> dlist w' Pending_list ps \<and> (\<forall>a\<in>set ps. call w' a = call w a) \<and> fired w' = fired w"
  proof (cases "mem w (Ev p)")
    case None
    then show ?thesis using a by (simp add: closing_callback_def)
  next
    case (Some e)
    then show ?thesis using ril_event_del_wf [of w "Ev p" p e] a by (auto simp: closing_callback_def dlist_def)
  qed
qed

theorem ril_event_round_fires_due_witness:
  "\<exists>w'. ril_event_round sample_select closing_callback \<lparr>tv_sec = 10, tv_usec = 0\<rparr> \<lparr>tv_sec = 15, tv_usec = 1\<rparr> sample_ril = Some (True, w') \<and>
     fired w' = [(7, -1, 0), (9, 5, 0)] \<and> dlist w' Pending_list [] \<and> watch_wf w'"
proof -
  have r: "readFds sample_ril = {5}" by (simp add: sample_ril_def)
  have "\<exists>w'. ril_event_round sample_select closing_callback \<lparr>tv_sec = 10, tv_usec = 0\<rparr> \<lparr>tv_sec = 15, tv_usec = 1\<rparr> sample_ril = Some (True, w') \<and>
    fired w' = fired sample_ril @ map (call sample_ril) (filter (\<lambda>a. deadline sample_ril a < micros \<lparr>tv_sec = 15, tv_usec = 1\<rparr>) [Ev 0] @
      filter (\<lambda>r. fd_of sample_ril r \<in> {5}) (map the (filter (\<lambda>x. x \<noteq> None) (watch_table sample_ril)))) \<and>
    dlist w' Pending_list [] \<and> watch_wf w'"
    by (rule ril_event_round_fires_due [OF sample_ril_lists(1,2) sample_ril_watch(1) _ _ _ closing_callback_quiet])
      (simp_all add: sample_ril_watch tv_ok_def sample_select_def r)
  then show ?thesis
    by (simp add: sample_ril_lists(3) micros_def) (simp add: sample_ril_def call_def fd_of_def info_def zero_event_def)
qed

end
