(* ===== verification/Spec2Isabelle.thy ===== *)
theory Spec2Isabelle
  imports SEC_StateMachine CSC_ToTiled CSC_RGB RIL_Loop
begin

text \<open>
  A verification development for the Samsung hardware repository: the OpenMAX IL component
  framework for the Exynos video decoder (\<open>src/exynos/multimedia/openmax\<close>) and the software
  colour converter its decoders hand their pictures to
  (\<open>src/exynos4/hal/libswconverter/swconvertor.c\<close>, the same code as
  \<open>src/exynos/multimedia/utils/csc/exynos4/color_space_convertor.c\<close>).

  \<^bold>\<open>The program.\<close> A client (Stagefright) holds a component handle and calls its entry points:
  it sends commands, sets parameters, gives the component buffers and takes them back. The
  base component (\<open>SEC_OMX_Basecomponent.c\<close>) checks a command, queues it, and a message
  handler thread executes it: changes of state, flushes, enabling and disabling of ports. A
  port (\<open>SEC_OMX_Baseport.c\<close>, \<open>SEC_OMX_Vdec.c\<close>) keeps the buffers in slots and passes them to
  the decoder through a queue and a semaphore. A resource manager
  (\<open>SEC_OMX_Resourcemanager.c\<close>) admits at most three decoders and one encoder to the hardware
  and preempts by priority. All of it stands on an operating system layer (\<open>osal\<close>). Decoded
  pictures come in a tiled layout, which the colour converter turns into a linear one.

  \<^bold>\<open>The theories.\<close>

  \<^item> \<open>OMX_Prelude\<close>: machine words, the \<open>outcome\<close> of sequential C code (\<open>Done\<close>, \<open>Blocked\<close>,
    \<open>Diverges\<close>, \<open>Crash\<close>) and its combinators, array access with C's out-of-range behaviour.
  \<^item> \<open>OMX_Types\<close>: the enumerations and structures of the OpenMAX headers, the version and size
    checks.
  \<^item> \<open>SEC_OSAL\<close>: \<open>osal/SEC_OSAL_Memory.c\<close>, \<open>Mutex\<close>, \<open>Semaphore\<close>, \<open>Event\<close>, \<open>Thread\<close>. The answers of the
    system (does \<open>malloc\<close> succeed, does \<open>pthread_create\<close>) are a stream in the state, so that
    the theorems hold for every pattern of failures; live blocks are counted.
  \<^item> \<open>SEC_Queue\<close>: \<open>osal/SEC_OSAL_Queue.c\<close> on an explicit heap of ring elements. The locale
    \<open>bounded_fifo\<close> is its contract, interpreted on the code's operations; the refinement to a
    list bounded by 9 and the balance of allocations are proved there.
  \<^item> \<open>OMX_Base\<close>: the component and port records, the entry-point checks every handler shares,
    the environment (heap of buffer headers, callbacks made, peers of tunnelled ports).
  \<^item> \<open>SEC_Vdec_Buffers\<close>: UseBuffer, AllocateBuffer, FreeBuffer of \<open>SEC_OMX_Vdec.c\<close>, the
    well-formedness of the slot arrays and its preservation.
  \<^item> \<open>SEC_Port\<close>: flushing, EmptyThisBuffer and FillThisBuffer, the hand-over to the decoder,
    port construction and destruction. The locale \<open>buffer_return\<close> is what a flush needs from
    the two functions that give a buffer back.
  \<^item> \<open>SEC_Command\<close>: SendCommand and its checks. \<open>SEC_Param\<close>: the parameter and configuration
    entry points.
  \<^item> \<open>SEC_Resource\<close>: the resource manager; the locales \<open>rm_list\<close>, \<open>rm_pool\<close> and \<open>rm_frame\<close> are
    the contracts of its global lists, and \<open>rm_step\<close> the step relation of its calls.
  \<^item> \<open>SEC_StateMachine\<close>: \<open>SEC_OMX_ComponentStateSet\<close> with all its branches, the message handler,
    construction and destruction of the base component. The codec is a record of operations
    (\<open>codec_ops\<close>), an argument of the model.
  \<^item> \<open>CSC_Memory\<close>: planes of bytes, \<open>memcpy\<close>, counting loops on unsigned words as partial
    functions, and the locale \<open>layout\<close>: pixels with distinct offsets, for which the effects of
    copies add up. \<open>CSC_Tile\<close>: the tiled layout and \<open>tile_4x2_read\<close>. \<open>CSC_ToLinear\<close> and
    \<open>CSC_ToTiled\<close>: the conversions in both directions.

  \<^bold>\<open>What is shown.\<close> The queue refines a bounded first-in first-out list (C1, C2). The slot
  arrays stay well formed under every buffer entry point, allocation and release are inverse
  (C3 to C6). A flush returns every queued buffer, in order, and a buffer handed over reaches
  the decoder in order (C7 to C9). Construction and destruction balance, and what happens
  when an allocation fails (C10 to C12). The verdict on every command and parameter (C13 to
  C17). The resource manager keeps its limits in every run and preempts the right victim
  (C18 to C22). The state machine follows the transition table of OpenMAX IL, acquires and
  releases what it should, and ends (C23 to C29). The two computations of a tile offset agree
  and are injective and bounded; the conversions equal the byte-by-byte reference, terminate,
  and undo each other (C30 to C34). Where a property states a defect (C6, C10, C12 to C14,
  C17, C21, C22, C26, C27, C33) its witness is a concrete run that shows it.

  \<^bold>\<open>Bounds and fuel.\<close> The two loops that can run for ever are the handler thread, whose model
  is a partial function with the result \<open>None\<close>, and the counting loops of the converter, on
  counters that may wrap. Termination is proved for both: the handler ends when the
  destructor has queued its message, the conversions return for pictures of at most 16384
  bytes in each direction, the range of the masks in \<open>tile_4x2_read\<close>.

  \<^bold>\<open>Not modelled.\<close> The interleaving of the handler thread with the client is modelled at the
  points where the code blocks, not at every instruction; the locks that make that sound are
  in the state. The buffer thread calls only the codec. The codec components, the MFC and SRP
  libraries and the HALs of the other directories drive devices through \<open>ioctl\<close> and vendor
  libraries; the radio layer, the AIDL and HIDL services and the applications are protocol
  and user-interface code over services that are not part of the repository. The NEON
  routines of the converter are assembly.
\<close>

end
